(* ===== verification/Prelude.thy ===== *)
theory Prelude
  imports Main "HOL-Library.Word"
begin

text \<open>
  The vocabulary the other theories share: the integer types of
  \<^verbatim>\<open>lib/include/shlte/types.h\<close> as words of their width, the collections of
  simplification rules the component proofs add by name, and generic facts about words,
  lists and loops.
\<close>

unbundle bit_operations_syntax

section \<open>Types\<close>

text \<open>
  \<^verbatim>\<open>uint8_t\<close>, \<^verbatim>\<open>uint16_t\<close>, \<^verbatim>\<open>uint32_t\<close> and \<^verbatim>\<open>uint64_t\<close>. On both targets
  (LP64) \<^verbatim>\<open>size_t\<close>, \<^verbatim>\<open>uintptr_t\<close>, \<^verbatim>\<open>unsigned long\<close> and every pointer are
  64 bits wide, so they share \<open>u64\<close>; the null pointer is the word 0.
\<close>

type_synonym u8 = "8 word"
type_synonym u16 = "16 word"
type_synonym u32 = "32 word"
type_synonym u64 = "64 word"

section \<open>Collections\<close>

named_theorems mem_simps \<open>reading back what a store or a fill wrote\<close>
named_theorems frame_simps \<open>parts of the state an operation leaves alone\<close>
named_theorems op_defs \<open>definitions of the operations of a component\<close>

section \<open>Words\<close>

lemma unat_less_2p64 [simp]: "unat (x :: u64) < 18446744073709551616"
  using unsigned_less [of x] by (simp add: less_imp_of_nat_less)

lemma unat_of_nat64: "n < 2 ^ 64 \<Longrightarrow> unat (of_nat n :: u64) = n"
  by (simp add: unat_of_nat take_bit_nat_eq_self)

lemma unat_plus64:
  "unat a + unat b < 2 ^ 64 \<Longrightarrow> unat (a + b :: u64) = unat a + unat b"
  by (simp add: unat_word_ariths)

lemma unat_mult64:
  "unat a * unat b < 2 ^ 64 \<Longrightarrow> unat (a * b :: u64) = unat a * unat b"
  by (simp add: unat_word_ariths)

lemma unat_minus64: "(b :: u64) \<le> a \<Longrightarrow> unat (a - b) = unat a - unat b"
  by (simp add: unat_sub)

text \<open>\<^verbatim>\<open>1UL << k\<close> for a shift below the width.\<close>

lemma unat_push_bit64:
  "unat x * 2 ^ k < 2 ^ 64 \<Longrightarrow> unat (push_bit k (x :: u64)) = unat x * 2 ^ k"
  unfolding unsigned_push_bit_eq by (simp add: push_bit_eq_mult [of k "unat x"] take_bit_nat_eq_self)

lemma unat_shift1: "k < 64 \<Longrightarrow> unat (push_bit k (1 :: u64)) = 2 ^ k"
  using power_strict_increasing [of k 64 "2 :: nat"] unat_push_bit64 [of 1 k] by simp

text \<open>
  Rounding a 64-bit value up to a multiple of a power of two, as the source writes it:
  \<^verbatim>\<open>(x + (A - 1)) & ~(A - 1)\<close>.
\<close>

definition align_up :: "u64 \<Rightarrow> u64 \<Rightarrow> u64" where
  "align_up A x = (x + (A - 1)) AND NOT (A - 1)"

lemma and_not_mask64: "x AND NOT (mask k) = push_bit k (drop_bit k (x :: u64))"
  by (rule bit_word_eqI)
    (auto simp: bit_and_iff bit_not_iff bit_push_bit_iff bit_drop_bit_eq bit_mask_iff)

lemma unat_and_not_mask64: "unat (x AND NOT (mask k) :: u64) = unat x div 2 ^ k * 2 ^ k"
proof -
  have "unat (drop_bit k x) * 2 ^ k = unat x div 2 ^ k * 2 ^ k"
    unfolding unat_drop_bit_eq by (simp add: drop_bit_eq_div)
  also have "\<dots> \<le> unat x" by (rule div_times_less_eq_dividend)
  finally have "unat (drop_bit k x) * 2 ^ k < 2 ^ 64"
    by (rule le_less_trans) simp
  note le = this
  show ?thesis
    unfolding and_not_mask64 unat_push_bit64 [OF le] unat_drop_bit_eq
    by (simp add: drop_bit_eq_div)
qed

lemma unat_align_up:
  assumes "A = 2 ^ k" "k < 64" "unat x + 2 ^ k \<le> 2 ^ 64"
  shows "unat (align_up A x) = (unat x + (2 ^ k - 1)) div 2 ^ k * 2 ^ k"
proof -
  have A: "A - 1 = mask k" using assms(1) by (simp add: mask_eq_decr_exp)
  have "(1 :: u64) \<le> push_bit k 1"
    by (simp only: word_le_nat_alt unat_shift1 [OF assms(2)]) simp
  then have "unat (push_bit k 1 - 1 :: u64) = 2 ^ k - 1"
    by (simp only: unat_minus64 unat_shift1 [OF assms(2)]) simp
  then have "unat (mask k :: u64) = 2 ^ k - 1"
    by (simp add: mask_eq_decr_exp)
  with assms(3) have "unat (x + mask k) = unat x + (2 ^ k - 1)"
    by (subst unat_plus64) auto
  then show ?thesis by (simp add: align_up_def A unat_and_not_mask64)
qed

lemma align_up_bounds:
  assumes "A = 2 ^ k" "k < 64" "unat x + 2 ^ k \<le> 2 ^ 64"
  shows "unat x \<le> unat (align_up A x)" "unat (align_up A x) < unat x + 2 ^ k"
    "2 ^ k dvd unat (align_up A x)"
proof -
  define q where "q = (unat x + (2 ^ k - 1)) div 2 ^ k * 2 ^ k"
  have q: "unat (align_up A x) = q" unfolding q_def by (rule unat_align_up [OF assms])
  have m: "q + (unat x + (2 ^ k - 1)) mod 2 ^ k = unat x + (2 ^ k - 1)"
    unfolding q_def by (rule div_mult_mod_eq)
  have "(unat x + (2 ^ k - 1)) mod 2 ^ k < (2 :: nat) ^ k" by simp
  with m show "unat x \<le> unat (align_up A x)" "unat (align_up A x) < unat x + 2 ^ k"
    unfolding q by linarith+
  show "2 ^ k dvd unat (align_up A x)" unfolding q by (simp add: q_def)
qed

section \<open>Counted loops\<close>

text \<open>
  \<^verbatim>\<open>for (i = lo; i < lo + n; i++) body(i)\<close> over an explicit state: the counter runs
  upwards and the body sees its current value.
\<close>

fun for_loop :: "nat \<Rightarrow> nat \<Rightarrow> (nat \<Rightarrow> 's \<Rightarrow> 's) \<Rightarrow> 's \<Rightarrow> 's" where
  "for_loop lo 0 body s = s"
| "for_loop lo (Suc n) body s = for_loop (Suc lo) n body (body lo s)"

lemma for_loop_inv:
  assumes "P lo s"
    and "\<And>i s. lo \<le> i \<Longrightarrow> i < lo + n \<Longrightarrow> P i s \<Longrightarrow> P (Suc i) (body i s)"
  shows "P (lo + n) (for_loop lo n body s)"
  using assms
proof (induction n arbitrary: lo s)
  case 0
  then show ?case by simp
next
  case (Suc n)
  have "P (Suc lo) (body lo s)" by (rule Suc.prems(2)) (simp_all add: Suc.prems(1))
  then have "P (Suc lo + n) (for_loop (Suc lo) n body (body lo s))"
    by (rule Suc.IH) (simp add: Suc.prems(2))
  then show ?case by simp
qed

lemma for_loop_keeps:
  assumes "\<And>i s. f (body i s) = f s"
  shows "f (for_loop lo n body s) = f s"
  by (induction n arbitrary: lo s) (simp_all add: assms)

lemma for_loop_snoc: "for_loop lo (Suc n) body s = body (lo + n) (for_loop lo n body s)"
  by (induction n arbitrary: lo s) simp_all

lemma for_loop_append:
  "for_loop lo (n + k) body s = for_loop (lo + n) k body (for_loop lo n body s)"
  by (induction n arbitrary: lo s) simp_all

end
