(* ===== verification/Memory.thy ===== *)
theory Memory
  imports Prelude
begin

text \<open>
  The flat, byte-addressed memory every pointer of the kernel points into, 64-bit
  little-endian accesses to it, regions of addresses, and singly linked lists of nodes kept
  in it. Both kernels run with an identity mapping, so an address is the same number as a
  pointer, as a \<^verbatim>\<open>uint64_t\<close> "physical address" and as an index into this function.
\<close>

type_synonym mem = "u64 \<Rightarrow> u8"

section \<open>Regions\<close>

text \<open>
  The \<open>n\<close> bytes from address \<open>a\<close> on. The difference is taken modulo \<open>2^64\<close>, as
  pointer arithmetic on the machine is.
\<close>

definition region :: "u64 \<Rightarrow> u64 \<Rightarrow> u64 set" where
  "region a n = {x. x - a < n}"

lemma in_region [simp]: "x \<in> region a n \<longleftrightarrow> x - a < n"
  by (simp add: region_def)

lemma region_self [simp]: "a \<in> region a n \<longleftrightarrow> 0 < n"
  by simp

lemma region_offset: "k < n \<Longrightarrow> a + k \<in> region a n"
  by simp

lemma region_interval:
  assumes "unat a + unat n \<le> 2 ^ 64"
  shows "x \<in> region a n \<longleftrightarrow> unat a \<le> unat x \<and> unat x < unat a + unat n"
proof (cases "a \<le> x")
  case True
  then show ?thesis
    by (auto simp: word_less_nat_alt word_le_nat_alt unat_minus64)
next
  case False
  then have lt: "unat x < unat a" by (simp add: word_le_nat_alt)
  have "unat (x - a) = 2 ^ 64 + unat x - unat a"
    using lt by (simp add: unat_sub_if')
  with lt assms show ?thesis by (auto simp: word_less_nat_alt)
qed

section \<open>64-bit loads and stores\<close>

definition store64 :: "mem \<Rightarrow> u64 \<Rightarrow> u64 \<Rightarrow> mem" where
  "store64 m a v =
     (\<lambda>x. if x - a < 8 then ucast (drop_bit (8 * unat (x - a)) v) else m x)"

definition load64 :: "mem \<Rightarrow> u64 \<Rightarrow> u64" where
  "load64 m a =
     (ucast (m a)
      OR push_bit 8 (ucast (m (a + 1)))
      OR push_bit 16 (ucast (m (a + 2)))
      OR push_bit 24 (ucast (m (a + 3)))
      OR push_bit 32 (ucast (m (a + 4)))
      OR push_bit 40 (ucast (m (a + 5)))
      OR push_bit 48 (ucast (m (a + 6)))
      OR push_bit 56 (ucast (m (a + 7))))"

lemma load64_store64 [simp, mem_simps]: "load64 (store64 m a v) a = v"
proof (rule bit_word_eqI)
  fix n assume "n < LENGTH(64)"
  then consider "n < 8" | "8 \<le> n" "n < 16" | "16 \<le> n" "n < 24" | "24 \<le> n" "n < 32"
    | "32 \<le> n" "n < 40" | "40 \<le> n" "n < 48" | "48 \<le> n" "n < 56" | "56 \<le> n" "n < 64"
    by fastforce
  then show "bit (load64 (store64 m a v) a) n \<longleftrightarrow> bit v n"
    by cases (auto simp: load64_def store64_def bit_or_iff bit_push_bit_iff bit_ucast_iff
        bit_drop_bit_eq)
qed

lemma store64_outside [mem_simps]: "\<not> x - a < 8 \<Longrightarrow> store64 m a v x = m x"
  by (simp add: store64_def)

lemma load64_cong:
  assumes "\<And>x. x \<in> region a 8 \<Longrightarrow> m x = m' x"
  shows "load64 m a = load64 m' a"
  unfolding load64_def using assms by (simp add: region_def)

lemma load64_store64_disjoint:
  "region a 8 \<inter> region b 8 = {} \<Longrightarrow> load64 (store64 m a v) b = load64 m b"
  by (rule load64_cong) (auto simp: store64_def region_def)

lemma load64_zero: "(\<And>x. x \<in> region a 8 \<Longrightarrow> m x = 0) \<Longrightarrow> load64 m a = 0"
  by (simp add: load64_cong [of a m "\<lambda>_. 0"]) (simp add: load64_def)

section \<open>Aligned addresses\<close>

definition aligned8 :: "u64 \<Rightarrow> bool" where
  "aligned8 a \<longleftrightarrow> unat a mod 8 = 0"

lemma region8_div:
  assumes "aligned8 a" "x \<in> region a 8"
  shows "unat x div 8 = unat a div 8"
proof -
  have a: "unat a mod 8 = 0" using assms(1) by (simp add: aligned8_def)
  then obtain k where k: "unat a = 8 * k" by auto
  have "8 * k < 18446744073709551616" unfolding k [symmetric] by simp
  then have "k + 1 \<le> 2305843009213693952" by linarith
  then have "unat a + unat (8 :: u64) \<le> 2 ^ 64" unfolding k by simp
  then have "unat a \<le> unat x \<and> unat x < unat a + 8"
    using assms(2) region_interval [of a 8 x] by simp
  with k have "unat x = 8 * k + (unat x - 8 * k)" "unat x - 8 * k < 8" by linarith+
  then show ?thesis unfolding k by (metis add.right_neutral div_less div_mult_self4 nonzero_mult_div_cancel_left zero_neq_numeral)
qed

lemma aligned8_disjoint:
  assumes "aligned8 a" "aligned8 b" "a \<noteq> b"
  shows "region a 8 \<inter> region b 8 = {}"
proof (rule ccontr)
  assume "region a 8 \<inter> region b 8 \<noteq> {}"
  then obtain x where "x \<in> region a 8" "x \<in> region b 8" by blast
  then have "unat a div 8 = unat b div 8"
    using region8_div [OF assms(1)] region8_div [OF assms(2)] by metis
  moreover have "unat a = unat a div 8 * 8" "unat b = unat b div 8 * 8"
    using assms(1,2) div_mult_mod_eq [of "unat a" 8] div_mult_mod_eq [of "unat b" 8]
    by (simp_all add: aligned8_def)
  ultimately have "unat a = unat b" by metis
  with assms(3) show False by (simp add: word_unat_eq_iff)
qed

lemma load64_store64_aligned [mem_simps]:
  "aligned8 a \<Longrightarrow> aligned8 b \<Longrightarrow> a \<noteq> b \<Longrightarrow> load64 (store64 m a v) b = load64 m b"
  by (simp add: load64_store64_disjoint aligned8_disjoint)

lemma aligned8_add: "aligned8 a \<Longrightarrow> unat k mod 8 = 0 \<Longrightarrow> aligned8 (a + k)"
  unfolding aligned8_def unat_word_ariths by (simp add: mod_mod_cancel) presburger

lemma aligned8_mult: "unat (k * 8 :: u64) mod 8 = 0"
  unfolding unat_word_ariths by (simp add: mod_mod_cancel)

lemma region_sub:
  assumes "unat k + unat n \<le> unat N"
  shows "region (a + k) n \<subseteq> region a N"
proof
  fix x assume "x \<in> region (a + k) n"
  then have "unat (x - (a + k)) < unat n" by (simp add: word_less_nat_alt)
  moreover have "unat (x - (a + k) + k) = unat (x - (a + k)) + unat k"
  proof (rule unat_plus64)
    have "unat (x - (a + k)) + unat k < unat N" using calculation assms by linarith
    also have "unat N < 2 ^ 64" by simp
    finally show "unat (x - (a + k)) + unat k < 2 ^ 64" .
  qed
  ultimately have "unat (x - (a + k) + k) < unat N" using assms by linarith
  then show "x \<in> region a N" by (simp add: word_less_nat_alt)
qed

lemma region_after:
  assumes "unat n + unat k < 2 ^ 64"
  shows "region (a + n) k \<inter> region a n = {}"
proof -
  have False if x: "x - (a + n) < k" "x - a < n" for x
  proof -
    have "unat (x - (a + n) + n) = unat (x - (a + n)) + unat n"
      using x(1) assms by (intro unat_plus64) (simp add: word_less_nat_alt)
    moreover have "x - (a + n) + n = x - a" by simp
    ultimately show False using x(2) by (simp add: word_less_nat_alt)
  qed
  then show ?thesis by auto
qed

section \<open>Singly linked lists in memory\<close>

text \<open>
  \<open>chain nx p as\<close>: following \<open>nx\<close> from pointer \<open>p\<close> visits exactly the nodes
  \<open>as\<close> and ends at the null pointer.
\<close>

primrec chain :: "(u64 \<Rightarrow> u64) \<Rightarrow> u64 \<Rightarrow> u64 list \<Rightarrow> bool" where
  "chain nx p [] \<longleftrightarrow> p = 0"
| "chain nx p (a # as) \<longleftrightarrow> p = a \<and> a \<noteq> 0 \<and> chain nx (nx a) as"

lemma chain_null [simp]: "chain nx 0 as \<longleftrightarrow> as = []"
  by (cases as) auto

lemma chain_nonnull: "p \<noteq> 0 \<Longrightarrow> chain nx p as \<longleftrightarrow> (\<exists>bs. as = p # bs \<and> chain nx (nx p) bs)"
  by (cases as) auto

lemma chain_unique: "chain nx p as \<Longrightarrow> chain nx p bs \<Longrightarrow> as = bs"
  by (induction as arbitrary: p bs) (auto simp: chain_nonnull)

lemma chain_cong: "(\<And>a. a \<in> set as \<Longrightarrow> nx a = nx' a) \<Longrightarrow> chain nx p as \<longleftrightarrow> chain nx' p as"
  by (induction as arbitrary: p) auto

lemma chain_no_null: "chain nx p as \<Longrightarrow> 0 \<notin> set as"
  by (induction as arbitrary: p) auto

lemma chain_suffix: "chain nx p (as @ bs) \<Longrightarrow> \<exists>q. chain nx q bs"
  by (induction as arbitrary: p) auto

lemma chain_suffix_at: "chain nx p (as @ a # bs) \<Longrightarrow> chain nx a (a # bs)"
  by (induction as arbitrary: p) auto

lemma chain_distinct: "chain nx p as \<Longrightarrow> distinct as"
proof (induction as arbitrary: p)
  case Nil
  then show ?case by simp
next
  case (Cons a as)
  have "a \<notin> set as"
  proof
    assume "a \<in> set as"
    then obtain bs cs where s: "as = bs @ a # cs" by (meson split_list)
    with Cons.prems have "chain nx p ((a # bs) @ a # cs)" by simp
    then have "chain nx a (a # cs)" by (rule chain_suffix_at)
    moreover have "chain nx a (a # as)" using Cons.prems by simp
    ultimately have "a # as = a # cs" by (meson chain_unique)
    with s show False by simp
  qed
  with Cons show ?case by auto
qed

text \<open>
  The interface the list-keeping components rely on: a link field of a node that can be
  read and written, where writing one node's link leaves the link of every other node
  alone. Pushing, popping and unlinking are proved once from these two laws.
\<close>

locale link_field =
  fixes get_next :: "mem \<Rightarrow> u64 \<Rightarrow> u64"
    and set_next :: "mem \<Rightarrow> u64 \<Rightarrow> u64 \<Rightarrow> mem"
    and node_ok :: "u64 \<Rightarrow> bool"
  assumes get_set_same: "get_next (set_next m a v) a = v"
    and get_set_other:
      "node_ok a \<Longrightarrow> node_ok b \<Longrightarrow> a \<noteq> b \<Longrightarrow> get_next (set_next m a v) b = get_next m b"
begin

lemma chain_set_outside:
  assumes "node_ok a" "\<forall>b\<in>set as. node_ok b" "a \<notin> set as"
  shows "chain (get_next (set_next m a v)) p as \<longleftrightarrow> chain (get_next m) p as"
  using assms by (intro chain_cong get_set_other) auto

lemma chain_push:
  assumes "chain (get_next m) p as" "node_ok a" "\<forall>b\<in>set as. node_ok b" "a \<notin> set as" "a \<noteq> 0"
  shows "chain (get_next (set_next m a p)) a (a # as)"
  using assms by (simp add: get_set_same chain_set_outside)

lemma chain_pop: "chain (get_next m) p (a # as) \<Longrightarrow> chain (get_next m) (get_next m p) as"
  by simp

lemma chain_prefix_set:
  assumes "chain (get_next m) p (as @ b # c # cs)"
    and "\<forall>x\<in>set (as @ b # c # cs). node_ok x"
  shows "chain (get_next (set_next m b (get_next m c))) p (as @ b # cs)"
  using assms
proof (induction as arbitrary: p)
  case Nil
  have "b \<notin> set cs" using chain_distinct [OF Nil.prems(1)] by simp
  with Nil show ?case by (simp add: get_set_same chain_set_outside)
next
  case (Cons a as)
  have "a \<noteq> b" using chain_distinct [OF Cons.prems(1)] by auto
  with Cons show ?case by (simp add: get_set_other)
qed

end

interpretation node: link_field load64 store64 aligned8
  by unfold_locales (simp_all add: load64_store64_aligned)

section \<open>Arrays of words\<close>

text \<open>
  A loop that stores \<open>g i\<close> at \<open>f i\<close>: every cell reads back, every other aligned cell is
  as before.
\<close>

lemma store_loop_outside:
  assumes "\<And>i. i < n \<Longrightarrow> region (f i) 8 \<inter> region x 8 = {}"
  shows "load64 (for_loop 0 n (\<lambda>i m. store64 m (f i) (g i)) m) x = load64 m x"
  using assms by (induction n) (simp_all only: for_loop.simps(1) for_loop_snoc
      load64_store64_disjoint add_0 less_Suc_eq simp_thms)

lemma store_loop_byte:
  assumes "\<And>i. i < n \<Longrightarrow> x \<notin> region (f i) 8"
  shows "for_loop 0 n (\<lambda>i m. store64 m (f i) (g i)) m x = m x"
  using assms
proof (induction n)
  case (Suc n)
  then show ?case unfolding for_loop_snoc by (simp add: store64_outside)
qed simp

lemma store_loop_inside:
  assumes "k < n" "\<And>i. i < n \<Longrightarrow> i \<noteq> k \<Longrightarrow> region (f i) 8 \<inter> region (f k) 8 = {}"
  shows "load64 (for_loop 0 n (\<lambda>i m. store64 m (f i) (g i)) m) (f k) = g k"
  using assms
proof (induction n)
  case (Suc n)
  show ?case
  proof (cases "k = n")
    case True
    then show ?thesis unfolding for_loop_snoc by simp
  next
    case False
    with Suc show ?thesis unfolding for_loop_snoc by (simp add: load64_store64_disjoint)
  qed
qed simp

text \<open>The words of an array at \<open>start\<close> lie next to each other and do not overlap.\<close>

lemma unat_word_offset:
  "i < n \<Longrightarrow> 8 * n < 2 ^ 64 \<Longrightarrow> unat (8 * of_nat i :: u64) = 8 * i"
  by (subst unat_mult64) (simp_all add: unat_of_nat64)

lemma word_region:
  assumes "unat start + 8 * n \<le> 2 ^ 64" "i < n" "8 * n < 2 ^ 64"
  shows "x \<in> region (start + 8 * of_nat i) 8 \<longleftrightarrow>
    unat start + 8 * i \<le> unat x \<and> unat x < unat start + 8 * i + 8"
proof -
  have o: "unat (8 * of_nat i :: u64) = 8 * i" using assms(2,3) by (rule unat_word_offset)
  then have "unat (start + 8 * of_nat i) = unat start + 8 * i"
    using assms by (subst unat_plus64) simp_all
  then show ?thesis using assms by (subst region_interval) simp_all
qed

lemma word_regions_disjoint:
  assumes "unat start + 8 * n \<le> 2 ^ 64" "i < n" "j < n" "i \<noteq> j" "8 * n < 2 ^ 64"
  shows "region (start + 8 * of_nat i) 8 \<inter> region (start + 8 * of_nat j) 8 = {}"
proof -
  have "\<not> (x \<in> region (start + 8 * of_nat i) 8 \<and> x \<in> region (start + 8 * of_nat j) 8)" for x
    unfolding word_region [OF assms(1,2,5)] word_region [OF assms(1,3,5)] using assms(4) by linarith
  then show ?thesis by blast
qed

section \<open>Byte strings in memory\<close>

text \<open>The \<open>n\<close> bytes at \<open>a\<close>, and writing a byte list there.\<close>

primrec read_bytes :: "mem \<Rightarrow> u64 \<Rightarrow> nat \<Rightarrow> u8 list" where
  "read_bytes m a 0 = []"
| "read_bytes m a (Suc n) = m a # read_bytes m (a + 1) n"

primrec write_bytes :: "mem \<Rightarrow> u64 \<Rightarrow> u8 list \<Rightarrow> mem" where
  "write_bytes m a [] = m"
| "write_bytes m a (b # bs) = write_bytes (m(a := b)) (a + 1) bs"

lemma length_read_bytes [simp]: "length (read_bytes m a n) = n"
  by (induction n arbitrary: a) simp_all

lemma read_bytes_nth: "i < n \<Longrightarrow> read_bytes m a n ! i = m (a + of_nat i)"
  by (induction n arbitrary: a i) (auto simp: nth_Cons ac_simps split: nat.split)

lemma read_bytes_append:
  "read_bytes m a (n + k) = read_bytes m a n @ read_bytes m (a + of_nat n) k"
  by (induction n arbitrary: a) (simp_all add: ac_simps)

lemma read_bytes_cong:
  assumes "\<And>i. i < n \<Longrightarrow> m (a + of_nat i) = m' (a + of_nat i)"
  shows "read_bytes m a n = read_bytes m' a n"
  by (rule nth_equalityI) (simp_all add: read_bytes_nth assms)

end
