(* ===== verification/KBase.thy ===== *)
theory KBase
  imports Memory
begin

text \<open>
  The state every component shares: the memory, and the record of the \<^verbatim>\<open>printk\<close>
  requests made so far, each with its format string and its arguments. What a request puts
  on the serial line is the subject of the formatting and driver theories; here it is
  enough that the requests are kept in the order the code makes them. System calls and the x86-64
  start, which also write to the line themselves, carry their requests out on the device. Each component
  extends this record with its own globals, so an operation of one component runs on the
  state of every component above it.
\<close>

text \<open>
  A variadic argument: a register-sized slot (integers and addresses), or a pointer to a
  C string, with the null pointer as \<open>None\<close>.
\<close>

datatype va = VWord u64 | VStr "string option"

record kbase =
  kmem :: mem
  klog :: "(string \<times> va list) list"

definition emit :: "string \<Rightarrow> va list \<Rightarrow> 'a kbase_scheme \<Rightarrow> 'a kbase_scheme" where
  "emit fmt args s = s\<lparr>klog := klog s @ [(fmt, args)]\<rparr>"

lemma emit_frame [simp, frame_simps]:
  "kmem (emit fmt args s) = kmem s"
  "klog (emit fmt args s) = klog s @ [(fmt, args)]"
  by (simp_all add: emit_def)

text \<open>Storing to memory, on the shared state.\<close>

definition poke64 :: "u64 \<Rightarrow> u64 \<Rightarrow> 'a kbase_scheme \<Rightarrow> 'a kbase_scheme" where
  "poke64 a v s = s\<lparr>kmem := store64 (kmem s) a v\<rparr>"

abbreviation peek64 :: "'a kbase_scheme \<Rightarrow> u64 \<Rightarrow> u64" where
  "peek64 s a \<equiv> load64 (kmem s) a"

lemma poke64_frame [simp, frame_simps]:
  "kmem (poke64 a v s) = store64 (kmem s) a v"
  "klog (poke64 a v s) = klog s"
  by (simp_all add: poke64_def)

end
