(* ===== verification/Buddy.thy ===== *)
theory Buddy
  imports KBase
begin

text \<open>
  The page allocator of \<^verbatim>\<open>lib/mm.c\<close> (lines 13 to 317): the bitmap with one bit per page,
  the per-order free lists threaded through the free blocks themselves, allocation with
  splitting and release with coalescing.
\<close>

section \<open>State\<close>

definition PAGE_SIZE :: u64 where
  "PAGE_SIZE = push_bit 12 1"

definition MAX_ORDER_BITS :: nat where
  "MAX_ORDER_BITS = 10"

record buddy_t =
  pool_start :: u64
  pool_pages :: u64
  bitmap :: u64
  bitmap_words :: u64
  free_lists :: "u64 list"
  free_count :: u64
  initialized :: bool

definition buddy_static :: buddy_t where
  "buddy_static =
     \<lparr>pool_start = 0, pool_pages = 0, bitmap = 0, bitmap_words = 0,
      free_lists = replicate MAX_ORDER_BITS 0, free_count = 0, initialized = False\<rparr>"

record buddy_state = kbase +
  buddy :: buddy_t

text \<open>The assignments \<^verbatim>\<open>buddy.free_lists[k] = p\<close> and \<^verbatim>\<open>buddy.free_count = n\<close>.\<close>

definition set_free_list :: "nat \<Rightarrow> u64 \<Rightarrow> 'a buddy_state_scheme \<Rightarrow> 'a buddy_state_scheme" where
  "set_free_list k p s = s\<lparr>buddy := (buddy s)\<lparr>free_lists := (free_lists (buddy s))[k := p]\<rparr>\<rparr>"

definition add_free_count :: "u64 \<Rightarrow> 'a buddy_state_scheme \<Rightarrow> 'a buddy_state_scheme" where
  "add_free_count n s = s\<lparr>buddy := (buddy s)\<lparr>free_count := free_count (buddy s) + n\<rparr>\<rparr>"

section \<open>Addresses, indices and the bitmap\<close>

definition buddy_idx_to_phys :: "buddy_t \<Rightarrow> nat \<Rightarrow> u64 \<Rightarrow> u64" where
  "buddy_idx_to_phys b order idx = pool_start b + idx * push_bit order 1 * PAGE_SIZE"

definition buddy_phys_to_idx :: "buddy_t \<Rightarrow> u64 \<Rightarrow> nat \<Rightarrow> u64" where
  "buddy_phys_to_idx b phys order = (phys - pool_start b) div (push_bit order 1 * PAGE_SIZE)"

definition buddy_is_allocated :: "u64 \<Rightarrow> 'a buddy_state_scheme \<Rightarrow> bool" where
  "buddy_is_allocated page_idx s =
     (let word_idx = page_idx div 64; bit_idx = page_idx mod 64 in
      if bitmap_words (buddy s) \<le> word_idx then True
      else drop_bit (unat bit_idx) (peek64 s (bitmap (buddy s) + 8 * word_idx)) AND 1 \<noteq> 0)"

definition buddy_set_allocated ::
  "u64 \<Rightarrow> bool \<Rightarrow> 'a buddy_state_scheme \<Rightarrow> 'a buddy_state_scheme" where
  "buddy_set_allocated page_idx allocated s =
     (let word_idx = page_idx div 64; bit_idx = page_idx mod 64;
          a = bitmap (buddy s) + 8 * word_idx in
      if bitmap_words (buddy s) \<le> word_idx then s
      else if allocated then poke64 a (peek64 s a OR push_bit (unat bit_idx) 1) s
      else poke64 a (peek64 s a AND NOT (push_bit (unat bit_idx) 1)) s)"

text \<open>
  The loops \<^verbatim>\<open>for (i = 0; i < n; i++) buddy_set_allocated(start + i, v)\<close> and the scan that
  breaks at the first allocated page.
\<close>

primrec mark_pages ::
  "u64 \<Rightarrow> nat \<Rightarrow> bool \<Rightarrow> 'a buddy_state_scheme \<Rightarrow> 'a buddy_state_scheme" where
  "mark_pages start 0 v s = s"
| "mark_pages start (Suc n) v s = mark_pages (start + 1) n v (buddy_set_allocated start v s)"

primrec pages_free :: "u64 \<Rightarrow> nat \<Rightarrow> 'a buddy_state_scheme \<Rightarrow> bool" where
  "pages_free start 0 s = True"
| "pages_free start (Suc n) s =
     (if buddy_is_allocated start s then False else pages_free (start + 1) n s)"

section \<open>Allocation\<close>

text \<open>The upward scan for a non-empty free list; \<open>MAX_ORDER_BITS\<close> when there is none.\<close>

function scan_order :: "u64 list \<Rightarrow> nat \<Rightarrow> nat" where
  "scan_order fl found_order =
     (if found_order < MAX_ORDER_BITS
      then if fl ! found_order \<noteq> 0 then found_order else scan_order fl (Suc found_order)
      else found_order)"
  by pat_completeness auto
termination
  by (relation "measure (\<lambda>(fl, k). MAX_ORDER_BITS - k)") auto

declare scan_order.simps [simp del]

text \<open>
  The splitting loop. Each round halves the block, marks the upper half allocated, puts the
  lower half on the free list of its order and goes on with the upper half.
\<close>

fun split_block ::
  "nat \<Rightarrow> nat \<Rightarrow> u64 \<Rightarrow> 'a buddy_state_scheme \<Rightarrow> u64 \<times> 'a buddy_state_scheme" where
  "split_block found_order order block s =
     (if order < found_order then
        let k = found_order - 1;
            buddy_block = block + push_bit k 1 * PAGE_SIZE;
            buddy_page = buddy_phys_to_idx (buddy s) buddy_block k;
            s1 = mark_pages buddy_page (2 ^ k) True s;
            s2 = add_free_count (- push_bit k 1) s1;
            s3 = poke64 block (free_lists (buddy s2) ! k) s2;
            s4 = set_free_list k block s3
        in split_block k order buddy_block s4
      else (block, s))"

declare split_block.simps [simp del]

text \<open>
  \<^verbatim>\<open>alloc_pages\<close>: \<open>Some block\<close> is the return value 0 with \<open>block\<close> stored through
  \<^verbatim>\<open>phys_addr\<close>; \<open>None\<close> is the return value -1, which leaves \<^verbatim>\<open>*phys_addr\<close> alone.
\<close>

definition alloc_pages ::
  "u32 \<Rightarrow> 'a buddy_state_scheme \<Rightarrow> u64 option \<times> 'a buddy_state_scheme" where
  "alloc_pages order s =
     (if \<not> initialized (buddy s) then (None, emit ''[BUDDY] Not initialized!\<newline>'' [] s)
      else if MAX_ORDER_BITS \<le> unat order then
        (None, emit ''[BUDDY] Order %u exceeds MAX_ORDER %d\<newline>''
                 [VWord (ucast order), VWord (of_nat MAX_ORDER_BITS)] s)
      else if order = 0 \<and> pool_pages (buddy s) = 0 then
        (None, emit ''[BUDDY] No pages available\<newline>'' [] s)
      else
        let found_order = scan_order (free_lists (buddy s)) (unat order) in
        if MAX_ORDER_BITS \<le> found_order then
          (None, emit ''[BUDDY] Out of memory (requested order %u)\<newline>'' [VWord (ucast order)] s)
        else
          let block = peek64 s (free_lists (buddy s) ! found_order);
              s1 = set_free_list found_order block s;
              start_page = buddy_phys_to_idx (buddy s1) block found_order;
              s2 = mark_pages start_page (2 ^ found_order) True s1;
              s3 = add_free_count (- push_bit found_order 1) s2;
              (block', s4) = split_block found_order (unat order) block s3
          in (Some block', s4))"

section \<open>Release\<close>

text \<open>
  The loop that walks a free list with \<^verbatim>\<open>prev\<close> and \<^verbatim>\<open>cur\<close> and unlinks the node at
  \<open>target\<close>. It follows whatever the memory holds, so on a list with a cycle it does not
  return, which is the value \<open>None\<close>.
\<close>

partial_function (option) unlink ::
  "nat \<Rightarrow> u64 \<Rightarrow> u64 \<Rightarrow> u64 \<Rightarrow> 'a buddy_state_scheme \<Rightarrow> 'a buddy_state_scheme option" where
  "unlink k target prev cur s =
     (if cur = 0 then Some s
      else if cur = target then
        Some (if prev \<noteq> 0 then poke64 prev (peek64 s cur) s
              else set_free_list k (peek64 s cur) s)
      else unlink k target cur (peek64 s cur) s)"

text \<open>The coalescing loop: the order reached, the address of the merged block, the state.\<close>

function coalesce ::
  "nat \<Rightarrow> u64 \<Rightarrow> 'a buddy_state_scheme \<Rightarrow> (nat \<times> u64 \<times> 'a buddy_state_scheme) option" where
  "coalesce coalesced phys_addr s =
     (if coalesced < MAX_ORDER_BITS - 1 then
        let page_idx = buddy_phys_to_idx (buddy s) phys_addr coalesced;
            size = push_bit coalesced 1;
            buddy_phys = (if page_idx mod 2 = 0 then phys_addr + size * PAGE_SIZE
                          else phys_addr - size * PAGE_SIZE);
            buddy_page_idx = (if page_idx mod 2 = 0 then page_idx + size else page_idx - size)
        in if \<not> pages_free buddy_page_idx (2 ^ coalesced) s then Some (coalesced, phys_addr, s)
           else
             let s1 = mark_pages buddy_page_idx (2 ^ coalesced) False s;
                 s2 = add_free_count size s1
             in if free_lists (buddy s2) ! coalesced = 0 then Some (coalesced, phys_addr, s2)
                else case unlink coalesced buddy_phys 0 (free_lists (buddy s2) ! coalesced) s2 of
                       None \<Rightarrow> None
                     | Some s3 \<Rightarrow>
                         coalesce (Suc coalesced)
                           (if buddy_phys < phys_addr then buddy_phys else phys_addr) s3
      else Some (coalesced, phys_addr, s))"
  by pat_completeness auto
termination
  by (relation "measure (\<lambda>(c, p, s). MAX_ORDER_BITS - c)") auto

declare coalesce.simps [simp del]

definition free_pages ::
  "u64 \<Rightarrow> u32 \<Rightarrow> 'a buddy_state_scheme \<Rightarrow> 'a buddy_state_scheme option" where
  "free_pages phys_addr order s =
     (if \<not> initialized (buddy s) then Some s
      else if MAX_ORDER_BITS \<le> unat order then Some s
      else if phys_addr mod (PAGE_SIZE * push_bit (unat order) 1) \<noteq> 0 then
        Some (emit ''[BUDDY] Misaligned free: 0x%lx order %u\<newline>''
                [VWord phys_addr, VWord (ucast order)] s)
      else case coalesce (unat order) phys_addr s of
             None \<Rightarrow> None
           | Some (coalesced, phys, s1) \<Rightarrow>
               let s2 = poke64 phys (free_lists (buddy s1) ! coalesced) s1;
                   s3 = set_free_list coalesced phys s2;
                   start_page = buddy_phys_to_idx (buddy s3) phys coalesced;
                   s4 = mark_pages start_page (2 ^ coalesced) False s3;
                   s5 = add_free_count (push_bit coalesced 1 - push_bit (unat order) 1) s4
               in Some (emit ''[BUDDY] Freed order %u at 0x%lx (coalesced to %u, %zu free pages)\<newline>''
                          [VWord (ucast order), VWord phys, VWord (of_nat coalesced),
                           VWord (free_count (buddy s5))] s5))"

definition buddy_free_pages :: "'a buddy_state_scheme \<Rightarrow> u64" where
  "buddy_free_pages s = free_count (buddy s)"

definition buddy_total_pages :: "'a buddy_state_scheme \<Rightarrow> u64" where
  "buddy_total_pages s = pool_pages (buddy s)"

section \<open>Frames\<close>

lemma page_size_val [simp]: "PAGE_SIZE = 4096"
  by (simp add: PAGE_SIZE_def)

lemma set_free_list_frame [simp, frame_simps]:
  "kmem (set_free_list k p s) = kmem s"
  "klog (set_free_list k p s) = klog s"
  "buddy (set_free_list k p s) = (buddy s)\<lparr>free_lists := (free_lists (buddy s))[k := p]\<rparr>"
  by (simp_all add: set_free_list_def)

lemma add_free_count_frame [simp, frame_simps]:
  "kmem (add_free_count n s) = kmem s"
  "klog (add_free_count n s) = klog s"
  "buddy (add_free_count n s) = (buddy s)\<lparr>free_count := free_count (buddy s) + n\<rparr>"
  by (simp_all add: add_free_count_def)

lemma poke64_buddy [simp, frame_simps]: "buddy (poke64 a v s) = buddy s"
  by (simp add: poke64_def)

lemma emit_buddy [simp, frame_simps]: "buddy (emit fmt args s) = buddy s"
  by (simp add: emit_def)

lemma buddy_set_allocated_frame [simp, frame_simps]:
  "buddy (buddy_set_allocated p v s) = buddy s"
  "klog (buddy_set_allocated p v s) = klog s"
  by (simp_all add: buddy_set_allocated_def Let_def)

lemma is_allocated_frame [simp, frame_simps]:
  "buddy_is_allocated q (add_free_count n s) = buddy_is_allocated q s"
  "buddy_is_allocated q (set_free_list k p s) = buddy_is_allocated q s"
  "buddy_is_allocated q (emit fmt args s) = buddy_is_allocated q s"
  by (simp_all add: buddy_is_allocated_def Let_def)

lemma mark_pages_frame [simp, frame_simps]:
  "buddy (mark_pages start n v s) = buddy s"
  "klog (mark_pages start n v s) = klog s"
  by (induction n arbitrary: start s) simp_all

section \<open>The bitmap is a set of pages\<close>

text \<open>
  The shape the bitmap must have: ten free-list heads, a bitmap array that is aligned as a
  \<^verbatim>\<open>uint64_t *\<close> and does not run over the end of the address space.
\<close>

definition buddy_wf :: "buddy_t \<Rightarrow> bool" where
  "buddy_wf b \<longleftrightarrow>
     length (free_lists b) = MAX_ORDER_BITS \<and> aligned8 (bitmap b) \<and>
     unat (bitmap b) + 8 * unat (bitmap_words b) \<le> 2 ^ 64"

definition bitmap_region :: "buddy_t \<Rightarrow> u64 set" where
  "bitmap_region b = {x. unat (bitmap b) \<le> unat x \<and> unat x < unat (bitmap b) + 8 * unat (bitmap_words b)}"

lemma unat_times8:
  "8 * unat (i :: u64) < 2 ^ 64 \<Longrightarrow> unat (8 * i) = 8 * unat i"
  by (simp add: unat_word_ariths)

lemma bitmap_word_fits:
  assumes "buddy_wf b" "i < bitmap_words b"
  shows "unat (8 * i) = 8 * unat i" "unat (bitmap b + 8 * i) = unat (bitmap b) + 8 * unat i"
    "unat (bitmap b) + 8 * unat i + 8 \<le> 2 ^ 64" "aligned8 (bitmap b + 8 * i)"
proof -
  have i: "unat i + 1 \<le> unat (bitmap_words b)"
    using assms(2) by (simp add: word_less_nat_alt)
  then show b: "unat (bitmap b) + 8 * unat i + 8 \<le> 2 ^ 64"
    using assms(1) by (simp add: buddy_wf_def)
  then show e: "unat (8 * i) = 8 * unat i" by (simp add: unat_times8)
  with b show "unat (bitmap b + 8 * i) = unat (bitmap b) + 8 * unat i"
    by (simp add: unat_plus64)
  show "aligned8 (bitmap b + 8 * i)"
    using assms(1) e by (intro aligned8_add) (simp_all add: buddy_wf_def)
qed

lemma bitmap_word_inj:
  assumes "buddy_wf b" "i < bitmap_words b" "j < bitmap_words b" "i \<noteq> j"
  shows "bitmap b + 8 * i \<noteq> bitmap b + 8 * j"
proof
  assume "bitmap b + 8 * i = bitmap b + 8 * j"
  then have "unat (bitmap b + 8 * i) = unat (bitmap b + 8 * j)" by simp
  then have "unat i = unat j"
    using bitmap_word_fits(2) [OF assms(1,2)] bitmap_word_fits(2) [OF assms(1,3)] by simp
  with assms(4) show False by (simp add: word_unat_eq_iff)
qed

lemma bitmap_word_region:
  assumes "buddy_wf b" "i < bitmap_words b"
  shows "region (bitmap b + 8 * i) 8 \<subseteq> bitmap_region b"
proof
  fix x assume x: "x \<in> region (bitmap b + 8 * i) 8"
  note f = bitmap_word_fits [OF assms]
  have "unat (bitmap b + 8 * i) + unat (8 :: u64) \<le> 2 ^ 64" using f(2,3) by simp
  from region_interval [OF this] x f(2)
  have "unat (bitmap b) + 8 * unat i \<le> unat x" "unat x < unat (bitmap b) + 8 * unat i + 8"
    by auto
  moreover have "unat i + 1 \<le> unat (bitmap_words b)"
    using assms(2) by (simp add: word_less_nat_alt)
  ultimately show "x \<in> bitmap_region b" unfolding bitmap_region_def by simp
qed

lemma drop_bit_and_one: "drop_bit n w AND 1 \<noteq> 0 \<longleftrightarrow> bit (w :: u64) n"
  by (simp add: and_one_eq bit_iff_odd_drop_bit flip: odd_iff_mod_2_eq_one)

lemma unat_mod64 [simp]: "unat (p mod 64 :: u64) < 64"
  by (simp add: unat_mod_distrib)

lemma div_mod_64_eq: "(p :: u64) div 64 = q div 64 \<Longrightarrow> p mod 64 = q mod 64 \<Longrightarrow> p = q"
  by (metis div_mult_mod_eq)

text \<open>Writing one page's bit: that page reads back, every other page is as before.\<close>

lemma is_allocated_set_allocated:
  assumes wf: "buddy_wf (buddy s)"
  shows "buddy_is_allocated q (buddy_set_allocated p v s) =
    (if q = p \<and> p div 64 < bitmap_words (buddy s) then v else buddy_is_allocated q s)"
proof (cases "p div 64 < bitmap_words (buddy s)")
  case False
  then show ?thesis by (auto simp: buddy_set_allocated_def Let_def)
next
  case p: True
  let ?a = "bitmap (buddy s) + 8 * (p div 64)"
  show ?thesis
  proof (cases "q div 64 < bitmap_words (buddy s)")
    case False
    with p show ?thesis by (auto simp: buddy_is_allocated_def Let_def not_less)
  next
    case q: True
    let ?b = "bitmap (buddy s) + 8 * (q div 64)"
    show ?thesis
    proof (cases "q div 64 = p div 64")
      case True
      have "q mod 64 = p mod 64 \<longleftrightarrow> q = p" using True div_mod_64_eq by blast
      moreover have "unat (q mod 64) = unat (p mod 64) \<longleftrightarrow> q mod 64 = p mod 64"
        by (simp add: word_unat_eq_iff)
      ultimately show ?thesis using p True
        by (auto simp: buddy_is_allocated_def buddy_set_allocated_def Let_def drop_bit_and_one
            not_le bit_or_iff bit_and_iff bit_not_iff bit_exp_iff)
    next
      case False
      then have "?a \<noteq> ?b" using bitmap_word_inj [OF wf p q] by metis
      moreover have "aligned8 ?a" "aligned8 ?b"
        using bitmap_word_fits(4) [OF wf p] bitmap_word_fits(4) [OF wf q] by simp_all
      ultimately have "peek64 (poke64 ?a w s) ?b = peek64 s ?b" for w
        by (simp add: load64_store64_aligned)
      with False show ?thesis
        by (auto simp: buddy_is_allocated_def buddy_set_allocated_def Let_def)
    qed
  qed
qed

lemma set_allocated_outside:
  assumes wf: "buddy_wf (buddy s)" and x: "x \<notin> bitmap_region (buddy s)"
  shows "kmem (buddy_set_allocated p v s) x = kmem s x"
proof (cases "p div 64 < bitmap_words (buddy s)")
  case True
  from bitmap_word_region [OF wf this] x
  have "\<not> x - (bitmap (buddy s) + 8 * (p div 64)) < 8" by auto
  with True show ?thesis
    by (simp add: buddy_set_allocated_def Let_def store64_outside)
qed (simp add: buddy_set_allocated_def Let_def not_less)

lemma mark_pages_outside:
  assumes "buddy_wf (buddy s)" "x \<notin> bitmap_region (buddy s)"
  shows "kmem (mark_pages start n v s) x = kmem s x"
  using assms by (induction n arbitrary: start s) (simp_all add: set_allocated_outside)

lemma unat_diff_Suc:
  assumes "n < 2 ^ 64"
  shows "unat (q - start :: u64) < Suc n \<longleftrightarrow> q = start \<or> unat (q - (start + 1)) < n"
proof (cases "q = start")
  case True
  then show ?thesis by simp
next
  case False
  then have "q - start \<noteq> 0" by simp
  then have "unat (q - start) = Suc (unat (q - start - 1))"
    by (simp add: unat_minus_one unat_gt_0)
  with False show ?thesis by (simp add: diff_diff_eq)
qed

lemma is_allocated_mark_pages:
  assumes "buddy_wf (buddy s)" "n < 2 ^ 64"
  shows "buddy_is_allocated q (mark_pages start n v s) =
    (if unat (q - start) < n \<and> q div 64 < bitmap_words (buddy s) then v
     else buddy_is_allocated q s)"
  using assms
proof (induction n arbitrary: start s)
  case 0
  then show ?case by simp
next
  case (Suc n)
  then have "buddy_is_allocated q (mark_pages start (Suc n) v s) =
    (if unat (q - (start + 1)) < n \<and> q div 64 < bitmap_words (buddy s) then v
     else buddy_is_allocated q (buddy_set_allocated start v s))"
    by simp
  then show ?case
    using Suc.prems unat_diff_Suc [of n q start]
    by (auto simp: is_allocated_set_allocated)
qed

lemma pages_free_iff:
  "pages_free start n s \<longleftrightarrow> (\<forall>i<n. \<not> buddy_is_allocated (start + of_nat i) s)"
proof (induction n arbitrary: start)
  case 0
  then show ?case by simp
next
  case (Suc n)
  have "(\<forall>i<Suc n. \<not> buddy_is_allocated (start + of_nat i) s) \<longleftrightarrow>
    \<not> buddy_is_allocated start s \<and> (\<forall>i<n. \<not> buddy_is_allocated (start + 1 + of_nat i) s)"
    by (auto simp: less_Suc_eq_0_disj ac_simps)
  with Suc show ?case by simp
qed

section \<open>Allocation: scan, split, result\<close>

lemma scan_order_spec:
  assumes "order \<le> MAX_ORDER_BITS"
  shows "order \<le> scan_order fl order \<and> scan_order fl order \<le> MAX_ORDER_BITS \<and>
    (\<forall>j. order \<le> j \<and> j < scan_order fl order \<longrightarrow> fl ! j = 0) \<and>
    (scan_order fl order < MAX_ORDER_BITS \<longrightarrow> fl ! scan_order fl order \<noteq> 0)"
  using assms
proof (induction fl order rule: scan_order.induct)
  case (1 fl k)
  show ?case
  proof (cases "k < MAX_ORDER_BITS \<and> fl ! k = 0")
    case True
    have eq: "scan_order fl k = scan_order fl (Suc k)"
      using True by (simp add: scan_order.simps [of fl k])
    have ih: "Suc k \<le> scan_order fl (Suc k) \<and> scan_order fl (Suc k) \<le> MAX_ORDER_BITS \<and>
      (\<forall>j. Suc k \<le> j \<and> j < scan_order fl (Suc k) \<longrightarrow> fl ! j = 0) \<and>
      (scan_order fl (Suc k) < MAX_ORDER_BITS \<longrightarrow> fl ! scan_order fl (Suc k) \<noteq> 0)"
      using "1.IH" True by simp
    have "fl ! j = 0" if "k \<le> j" "j < scan_order fl (Suc k)" for j
      using ih that True by (cases "j = k") auto
    with ih show ?thesis unfolding eq by auto
  next
    case False
    with "1.prems" have "scan_order fl k = k" by (auto simp: scan_order.simps [of fl k])
    with False "1.prems" show ?thesis by auto
  qed
qed

lemmas scan_order_facts = scan_order_spec [THEN conjunct1]
  scan_order_spec [THEN conjunct2, THEN conjunct1]
  scan_order_spec [THEN conjunct2, THEN conjunct2, THEN conjunct1, rule_format]
  scan_order_spec [THEN conjunct2, THEN conjunct2, THEN conjunct2, rule_format]

lemma scan_order_full_iff:
  assumes "order \<le> MAX_ORDER_BITS"
  shows "MAX_ORDER_BITS \<le> scan_order fl order \<longleftrightarrow>
    (\<forall>j. order \<le> j \<and> j < MAX_ORDER_BITS \<longrightarrow> fl ! j = 0)"
proof
  assume "MAX_ORDER_BITS \<le> scan_order fl order"
  then show "\<forall>j. order \<le> j \<and> j < MAX_ORDER_BITS \<longrightarrow> fl ! j = 0"
    using scan_order_spec [OF assms, of fl] by (meson less_le_trans)
next
  assume z: "\<forall>j. order \<le> j \<and> j < MAX_ORDER_BITS \<longrightarrow> fl ! j = 0"
  show "MAX_ORDER_BITS \<le> scan_order fl order"
  proof (rule ccontr)
    assume "\<not> ?thesis"
    then have "scan_order fl order < MAX_ORDER_BITS" by simp
    with scan_order_spec [OF assms, of fl] z show False by blast
  qed
qed

text \<open>
  Arithmetic of the split: the block finally handed out is the last piece of the block that
  was taken, and the free count drops by the whole sum of the halves.
\<close>

lemma push_bit_Suc_1: "push_bit (Suc k) (1 :: u64) = 2 * push_bit k 1"
  by (simp add: push_bit_eq_mult)

lemma split_block_result:
  "order \<le> found \<Longrightarrow> fst (split_block found order block s) =
     block + (push_bit found 1 - push_bit order 1) * PAGE_SIZE"
proof (induction found order block s rule: split_block.induct)
  case (1 found order block s)
  show ?case
  proof (cases "order < found")
    case True
    then obtain k where k: "found = Suc k" by (cases found) auto
    from True k have "order \<le> k" by simp
    with True k show ?thesis
      by (subst split_block.simps)
        (simp add: Let_def "1.IH" push_bit_Suc_1 algebra_simps)
  next
    case False
    with "1.prems" show ?thesis by (simp add: split_block.simps)
  qed
qed

lemma split_block_frame [frame_simps]:
  assumes "order \<le> found"
  shows "klog (snd (split_block found order block s)) = klog s"
    "pool_start (buddy (snd (split_block found order block s))) = pool_start (buddy s)"
    "pool_pages (buddy (snd (split_block found order block s))) = pool_pages (buddy s)"
    "bitmap (buddy (snd (split_block found order block s))) = bitmap (buddy s)"
    "bitmap_words (buddy (snd (split_block found order block s))) = bitmap_words (buddy s)"
    "initialized (buddy (snd (split_block found order block s))) = initialized (buddy s)"
    "length (free_lists (buddy (snd (split_block found order block s)))) =
       length (free_lists (buddy s))"
  by (induction found order block s rule: split_block.induct,
      (subst split_block.simps, simp add: Let_def)+)

lemma split_block_free_count:
  "order \<le> found \<Longrightarrow> free_count (buddy (snd (split_block found order block s))) =
     free_count (buddy s) - (push_bit found 1 - push_bit order 1)"
proof (induction found order block s rule: split_block.induct)
  case (1 found order block s)
  show ?case
  proof (cases "order < found")
    case True
    then obtain k where k: "found = Suc k" by (cases found) auto
    from True k have "order \<le> k" by simp
    with True k show ?thesis
      by (subst split_block.simps) (simp add: Let_def "1.IH" push_bit_Suc_1 algebra_simps)
  next
    case False
    with "1.prems" show ?thesis by (simp add: split_block.simps)
  qed
qed

section \<open>Free lists as lists\<close>

text \<open>
  \<open>free_chains L s\<close>: for every order \<open>k\<close> the free list in memory is the list of
  blocks \<open>L k\<close>; its nodes are aligned and lie outside the bitmap, and no block is on
  two lists.
\<close>

definition node_free :: "buddy_t \<Rightarrow> u64 \<Rightarrow> bool" where
  "node_free b a \<longleftrightarrow> aligned8 a \<and> region a 8 \<inter> bitmap_region b = {}"

definition lists_disjoint :: "(nat \<Rightarrow> u64 list) \<Rightarrow> bool" where
  "lists_disjoint L \<longleftrightarrow>
     (\<forall>i<MAX_ORDER_BITS. \<forall>j<MAX_ORDER_BITS. i \<noteq> j \<longrightarrow> set (L i) \<inter> set (L j) = {})"

lemma lists_disjointD:
  assumes "lists_disjoint L" "i < MAX_ORDER_BITS" "j < MAX_ORDER_BITS" "j \<noteq> i" "a \<in> set (L i)"
  shows "a \<notin> set (L j)"
proof -
  have "set (L i) \<inter> set (L j) = {}" using assms(1-4) by (simp add: lists_disjoint_def)
  with assms(5) show ?thesis by blast
qed

lemma lists_disjoint_update:
  assumes "lists_disjoint L" "\<forall>j<MAX_ORDER_BITS. j \<noteq> k \<longrightarrow> set as \<inter> set (L j) = {}"
  shows "lists_disjoint (L(k := as))"
  using assms unfolding lists_disjoint_def by (metis fun_upd_apply inf_commute)

lemma lists_disjoint_sub:
  assumes "lists_disjoint L" "k < MAX_ORDER_BITS" "set as \<subseteq> set (L k)"
  shows "lists_disjoint (L(k := as))"
  using assms(1) by (rule lists_disjoint_update) (use assms lists_disjointD in blast)

definition free_chains :: "(nat \<Rightarrow> u64 list) \<Rightarrow> 'a buddy_state_scheme \<Rightarrow> bool" where
  "free_chains L s \<longleftrightarrow> buddy_wf (buddy s) \<and>
     (\<forall>k<MAX_ORDER_BITS. chain (load64 (kmem s)) (free_lists (buddy s) ! k) (L k) \<and>
        (\<forall>a\<in>set (L k). node_free (buddy s) a)) \<and> lists_disjoint L"

lemma free_chainsD:
  assumes "free_chains L s"
  shows "buddy_wf (buddy s)"
    and "k < MAX_ORDER_BITS \<Longrightarrow> chain (load64 (kmem s)) (free_lists (buddy s) ! k) (L k)"
    and "k < MAX_ORDER_BITS \<Longrightarrow> a \<in> set (L k) \<Longrightarrow> node_free (buddy s) a"
    and "lists_disjoint L"
  using assms by (auto simp: free_chains_def)

lemma node_free_geometry:
  "bitmap b' = bitmap b \<Longrightarrow> bitmap_words b' = bitmap_words b \<Longrightarrow> node_free b' = node_free b"
  by (simp add: node_free_def bitmap_region_def fun_eq_iff)

lemma node_free_upd [simp]:
  "node_free (b\<lparr>free_lists := fl\<rparr>) = node_free b"
  "node_free (b\<lparr>free_count := n\<rparr>) = node_free b"
  by (rule node_free_geometry; simp)+

lemma buddy_wf_upd [simp]:
  "length fl = length (free_lists b) \<Longrightarrow> buddy_wf (b\<lparr>free_lists := fl\<rparr>) = buddy_wf b"
  "buddy_wf (b\<lparr>free_count := n\<rparr>) = buddy_wf b"
  by (simp_all add: buddy_wf_def)

lemma free_chains_mark_pages:
  assumes "free_chains L s"
  shows "free_chains L (mark_pages start n v s)"
proof -
  have "load64 (kmem (mark_pages start n v s)) a = load64 (kmem s) a"
    if "node_free (buddy s) a" for a
    using that free_chainsD(1) [OF assms]
    by (intro load64_cong mark_pages_outside) (auto simp: node_free_def)
  then have "chain (load64 (kmem (mark_pages start n v s))) p (L k) =
      chain (load64 (kmem s)) p (L k)" if "k < MAX_ORDER_BITS" for p k
    using free_chainsD(3) [OF assms that] by (intro chain_cong) blast
  with assms show ?thesis by (simp add: free_chains_def)
qed

lemma free_chains_set_allocated:
  "free_chains L s \<Longrightarrow> free_chains L (buddy_set_allocated p v s)"
  using free_chains_mark_pages [of L s p 1 v] by simp

lemma free_chains_add_free_count [simp]: "free_chains L (add_free_count n s) = free_chains L s"
  by (simp add: free_chains_def)

lemma free_chains_emit [simp]: "free_chains L (emit fmt args s) = free_chains L s"
  by (simp add: free_chains_def)

lemma free_chains_push:
  assumes fc: "free_chains L s" and k: "k < MAX_ORDER_BITS"
    and a: "node_free (buddy s) a" "a \<noteq> 0"
    and fresh: "\<forall>j<MAX_ORDER_BITS. a \<notin> set (L j)"
  shows "free_chains (L(k := a # L k))
    (set_free_list k a (poke64 a (free_lists (buddy s) ! k) s))"
proof -
  have len: "length (free_lists (buddy s)) = MAX_ORDER_BITS"
    using free_chainsD(1) [OF fc] by (simp add: buddy_wf_def)
  have al: "aligned8 a" using a(1) by (simp add: node_free_def)
  have other: "chain (load64 (store64 (kmem s) a v)) p (L j) = chain (load64 (kmem s)) p (L j)"
    if "j < MAX_ORDER_BITS" for j p v
    using al fresh that free_chainsD(3) [OF fc that]
    by (intro node.chain_set_outside) (auto simp: node_free_def)
  show ?thesis
    unfolding free_chains_def
  proof (intro conjI allI impI)
    show "buddy_wf (buddy (set_free_list k a (poke64 a (free_lists (buddy s) ! k) s)))"
      using free_chainsD(1) [OF fc] by simp
  next
    fix j assume j: "j < MAX_ORDER_BITS"
    show "chain (load64 (kmem (set_free_list k a (poke64 a (free_lists (buddy s) ! k) s))))
        (free_lists (buddy (set_free_list k a (poke64 a (free_lists (buddy s) ! k) s))) ! j)
        ((L(k := a # L k)) j)"
      using free_chainsD(2) [OF fc j] j k len a(2) by (cases "j = k") (simp_all add: other)
    show "\<forall>x\<in>set ((L(k := a # L k)) j).
        node_free (buddy (set_free_list k a (poke64 a (free_lists (buddy s) ! k) s))) x"
      using free_chainsD(3) [OF fc j] a(1) by (cases "j = k") auto
  next
    show "lists_disjoint (L(k := a # L k))"
      using free_chainsD(4) [OF fc]
      by (rule lists_disjoint_update)
        (use k fresh lists_disjointD [OF free_chainsD(4) [OF fc]] in auto)
  qed
qed

lemma free_chains_set_head:
  assumes fc: "free_chains L s" and k: "k < MAX_ORDER_BITS"
    and ch: "chain (load64 (kmem s)) p as" and sub: "set as \<subseteq> set (L k)"
  shows "free_chains (L(k := as)) (set_free_list k p s)"
proof -
  have len: "length (free_lists (buddy s)) = MAX_ORDER_BITS"
    using free_chainsD(1) [OF fc] by (simp add: buddy_wf_def)
  show ?thesis
    unfolding free_chains_def
  proof (intro conjI allI impI)
    show "lists_disjoint (L(k := as))"
      using free_chainsD(4) [OF fc] k sub by (rule lists_disjoint_sub)
  qed (use fc k ch sub len in \<open>auto simp: free_chains_def nth_list_update\<close>)
qed

lemma free_chains_pop:
  assumes fc: "free_chains L s" and k: "k < MAX_ORDER_BITS" and L: "L k = a # as"
  shows "free_chains (L(k := as)) (set_free_list k (peek64 s (free_lists (buddy s) ! k)) s)"
  using free_chains_set_head [OF fc k, of "peek64 s (free_lists (buddy s) ! k)" as]
    free_chainsD(2) [OF fc k] L by auto

section \<open>Unlinking\<close>

lemma free_chains_relink:
  assumes fc: "free_chains L s" and k: "k < MAX_ORDER_BITS" and prev: "prev \<in> set (L k)"
    and new: "chain (load64 (kmem (poke64 prev v s))) (free_lists (buddy s) ! k) as"
    and sub: "set as \<subseteq> set (L k)"
  shows "free_chains (L(k := as)) (poke64 prev v s)"
proof -
  have "chain (load64 (store64 (kmem s) prev v)) p (L j) = chain (load64 (kmem s)) p (L j)"
    if "j < MAX_ORDER_BITS" "j \<noteq> k" for j p
    using free_chainsD(3) [OF fc k prev] free_chainsD(3) [OF fc that(1)]
      lists_disjointD [OF free_chainsD(4) [OF fc] k that prev]
    by (intro node.chain_set_outside) (auto simp: node_free_def)
  moreover have "lists_disjoint (L(k := as))"
    using free_chainsD(4) [OF fc] k sub by (rule lists_disjoint_sub)
  ultimately show ?thesis
    using free_chainsD(1-3) [OF fc] new sub k by (auto simp: free_chains_def)
qed

lemma unlink_walk:
  assumes "free_chains L s" "k < MAX_ORDER_BITS" "L k = pre @ prev # rest"
    "cur = peek64 s prev" "target \<notin> set (pre @ [prev])"
  shows "\<exists>s'. unlink k target prev cur s = Some s' \<and> buddy s' = buddy s \<and> klog s' = klog s \<and>
    free_chains (L(k := pre @ prev # remove1 target rest)) s'"
  using assms
proof (induction rest arbitrary: pre prev cur)
  case Nil
  have ch: "chain (load64 (kmem s)) prev [prev]"
    using free_chainsD(2) [OF Nil.prems(1,2)] Nil.prems(3)
      chain_suffix_at [of "load64 (kmem s)" _ pre prev "[]"] by simp
  then have "cur = 0" using Nil.prems(4) by simp
  with Nil.prems show ?case by (simp add: unlink.simps fun_upd_idem)
next
  case (Cons c rest)
  have chk: "chain (load64 (kmem s)) (free_lists (buddy s) ! k) (pre @ prev # c # rest)"
    using free_chainsD(2) [OF Cons.prems(1,2)] Cons.prems(3) by simp
  have cur: "cur = c" "c \<noteq> 0" "prev \<noteq> 0"
    using chain_suffix_at [OF chk] Cons.prems(4) by auto
  have ok: "\<forall>x\<in>set (pre @ prev # c # rest). aligned8 x"
    using free_chainsD(3) [OF Cons.prems(1,2)] Cons.prems(3) by (auto simp: node_free_def)
  show ?case
  proof (cases "c = target")
    case True
    let ?s = "poke64 prev (peek64 s c) s"
    have new: "chain (load64 (kmem ?s)) (free_lists (buddy s) ! k) (pre @ prev # rest)"
      using node.chain_prefix_set [OF chk ok] by simp
    have "free_chains (L(k := pre @ prev # rest)) ?s"
      by (rule free_chains_relink [OF Cons.prems(1,2)]) (use new Cons.prems(3) in auto)
    with True cur show ?thesis by (simp add: unlink.simps fun_upd_def)
  next
    case False
    have "L k = (pre @ [prev]) @ c # rest" "peek64 s c = peek64 s c"
      "target \<notin> set ((pre @ [prev]) @ [c])"
      using Cons.prems False by auto
    from Cons.IH [OF Cons.prems(1,2) this]
    obtain s' where s': "unlink k target c (peek64 s c) s = Some s'" "buddy s' = buddy s"
      "klog s' = klog s" "free_chains (L(k := (pre @ [prev]) @ c # remove1 target rest)) s'"
      by blast
    have "unlink k target prev cur s = unlink k target c (peek64 s c) s"
      using cur False by (simp add: unlink.simps [of k target prev])
    with s' False show ?thesis by (auto simp: fun_upd_def)
  qed
qed

definition same_geometry :: "buddy_t \<Rightarrow> buddy_t \<Rightarrow> bool" where
  "same_geometry b b' \<longleftrightarrow> pool_start b' = pool_start b \<and> pool_pages b' = pool_pages b \<and>
     bitmap b' = bitmap b \<and> bitmap_words b' = bitmap_words b \<and> initialized b' = initialized b \<and>
     length (free_lists b') = length (free_lists b)"

lemma same_geometry_refl [simp]: "same_geometry b b"
  by (simp add: same_geometry_def)

lemma same_geometry_trans: "same_geometry a b \<Longrightarrow> same_geometry b c \<Longrightarrow> same_geometry a c"
  by (simp add: same_geometry_def)

lemma same_geometry_upd [simp]:
  "length fl = length (free_lists b) \<Longrightarrow> same_geometry b (b\<lparr>free_lists := fl\<rparr>)"
  "same_geometry b (b\<lparr>free_count := n\<rparr>)"
  by (simp_all add: same_geometry_def)

lemma unlink_removes:
  assumes fc: "free_chains L s" and k: "k < MAX_ORDER_BITS"
  shows "\<exists>s'. unlink k target 0 (free_lists (buddy s) ! k) s = Some s' \<and>
    free_chains (L(k := remove1 target (L k))) s' \<and> klog s' = klog s \<and>
    same_geometry (buddy s) (buddy s') \<and> free_count (buddy s') = free_count (buddy s)"
proof (cases "L k")
  case Nil
  then have "free_lists (buddy s) ! k = 0" using free_chainsD(2) [OF fc k] by simp
  with Nil fc show ?thesis by (simp add: unlink.simps fun_upd_idem)
next
  case (Cons c rest)
  have hd: "free_lists (buddy s) ! k = c" "c \<noteq> 0"
    using free_chainsD(2) [OF fc k] Cons by auto
  show ?thesis
  proof (cases "c = target")
    case True
    with hd free_chains_pop [OF fc k Cons] Cons show ?thesis by (simp add: unlink.simps)
  next
    case False
    then have "L k = [] @ c # rest" "target \<notin> set ([] @ [c])" using Cons by auto
    from unlink_walk [OF fc k this(1) refl this(2)]
    obtain s' where "unlink k target c (peek64 s c) s = Some s'" "buddy s' = buddy s"
      "klog s' = klog s" "free_chains (L(k := c # remove1 target rest)) s'" by auto
    moreover have "unlink k target 0 c s = unlink k target c (peek64 s c) s"
      using False hd by (simp add: unlink.simps [of k target 0])
    ultimately show ?thesis using hd Cons False by auto
  qed
qed

section \<open>Release terminates\<close>

text \<open>
  The address of the block next to the one being released, and the number by which the
  code looks it up in the bitmap.
\<close>

definition neighbour_phys :: "buddy_t \<Rightarrow> u64 \<Rightarrow> nat \<Rightarrow> u64" where
  "neighbour_phys b phys k =
     (if buddy_phys_to_idx b phys k mod 2 = 0 then phys + push_bit k 1 * PAGE_SIZE
      else phys - push_bit k 1 * PAGE_SIZE)"

definition neighbour_idx :: "buddy_t \<Rightarrow> u64 \<Rightarrow> nat \<Rightarrow> u64" where
  "neighbour_idx b phys k =
     (if buddy_phys_to_idx b phys k mod 2 = 0 then buddy_phys_to_idx b phys k + push_bit k 1
      else buddy_phys_to_idx b phys k - push_bit k 1)"

definition clear_neighbour :: "u64 \<Rightarrow> nat \<Rightarrow> 'a buddy_state_scheme \<Rightarrow> 'a buddy_state_scheme" where
  "clear_neighbour phys k s =
     add_free_count (push_bit k 1) (mark_pages (neighbour_idx (buddy s) phys k) (2 ^ k) False s)"

lemma coalesce_unfold:
  "coalesce c p s =
     (if c < MAX_ORDER_BITS - 1 \<and> pages_free (neighbour_idx (buddy s) p c) (2 ^ c) s then
        if free_lists (buddy s) ! c = 0 then Some (c, p, clear_neighbour p c s)
        else case unlink c (neighbour_phys (buddy s) p c) 0 (free_lists (buddy s) ! c)
                (clear_neighbour p c s) of
               None \<Rightarrow> None
             | Some s3 \<Rightarrow> coalesce (Suc c) (min (neighbour_phys (buddy s) p c) p) s3
      else Some (c, p, s))"
proof -
  have "min a b = (if a < b then a else b)" for a b :: u64 by auto
  then show ?thesis
    by (subst coalesce.simps)
      (simp only: Let_def neighbour_phys_def [symmetric] neighbour_idx_def [symmetric]
        clear_neighbour_def [symmetric] add_free_count_frame mark_pages_frame buddy_t.simps
        if_not_P if_P not_not split: if_split, auto simp: clear_neighbour_def)
qed

lemma clear_neighbour_frame [simp, frame_simps]:
  "klog (clear_neighbour p c s) = klog s"
  "buddy (clear_neighbour p c s) = (buddy s)\<lparr>free_count := free_count (buddy s) + push_bit c 1\<rparr>"
  by (simp_all add: clear_neighbour_def)

lemma free_chains_clear_neighbour:
  "free_chains L s \<Longrightarrow> free_chains L (clear_neighbour p c s)"
  by (simp add: clear_neighbour_def free_chains_mark_pages)

lemma coalesce_returns:
  assumes "free_chains L s" "c < MAX_ORDER_BITS"
  shows "\<exists>c' p' s' L'. coalesce c p s = Some (c', p', s') \<and> c \<le> c' \<and> c' < MAX_ORDER_BITS \<and>
    free_chains L' s' \<and> (\<forall>j. set (L' j) \<subseteq> set (L j)) \<and> klog s' = klog s \<and>
    same_geometry (buddy s) (buddy s')"
  using assms
proof (induction "MAX_ORDER_BITS - c" arbitrary: c p s L rule: less_induct)
  case less
  let ?bp = "neighbour_phys (buddy s) p c" and ?s2 = "clear_neighbour p c s"
  note fc2 = free_chains_clear_neighbour [OF less.prems(1), of p c]
  have same2: "same_geometry (buddy s) (buddy ?s2)" "klog ?s2 = klog s" by simp_all
  show ?case
  proof (cases "c < MAX_ORDER_BITS - 1 \<and> pages_free (neighbour_idx (buddy s) p c) (2 ^ c) s \<and>
      free_lists (buddy s) ! c \<noteq> 0")
    case False
    then have "coalesce c p s = Some (c, p, s) \<or> coalesce c p s = Some (c, p, ?s2)"
      by (auto simp: coalesce_unfold [of c p s])
    with fc2 same2 less.prems show ?thesis by fastforce
  next
    case True
    obtain s3 where s3: "unlink c ?bp 0 (free_lists (buddy s) ! c) ?s2 = Some s3"
      "free_chains (L(c := remove1 ?bp (L c))) s3" "klog s3 = klog s"
      "same_geometry (buddy ?s2) (buddy s3)"
      using unlink_removes [OF fc2 less.prems(2), of ?bp] by auto
    have eq: "coalesce c p s = coalesce (Suc c) (min ?bp p) s3"
      using True s3(1) by (simp add: coalesce_unfold [of c p s])
    have "Suc c < MAX_ORDER_BITS" using True by linarith
    moreover have "MAX_ORDER_BITS - Suc c < MAX_ORDER_BITS - c" using less.prems(2) by simp
    ultimately obtain c' p' s' L' where r:
      "coalesce (Suc c) (min ?bp p) s3 = Some (c', p', s')" "Suc c \<le> c'"
      "c' < MAX_ORDER_BITS" "free_chains L' s'"
      "\<And>j. set (L' j) \<subseteq> set ((L(c := remove1 ?bp (L c))) j)"
      "klog s' = klog s3" "same_geometry (buddy s3) (buddy s')"
      using less.hyps [OF _ s3(2)] by blast
    have "set (L' j) \<subseteq> set (L j)" for j
      using r(5) [of j] set_remove1_subset [of ?bp "L c"] by (cases "j = c") auto
    moreover have "same_geometry (buddy s) (buddy s')"
      using same2(1) s3(4) r(7) by (blast intro: same_geometry_trans)
    ultimately show ?thesis
      unfolding eq using r s3(3) Suc_leD [OF r(2)] by auto
  qed
qed

section \<open>Splitting keeps the free lists\<close>

text \<open>The addresses a block of order \<open>k\<close> at \<open>b\<close> covers.\<close>

definition extent :: "u64 \<Rightarrow> nat \<Rightarrow> nat set" where
  "extent b k = {unat b ..< unat b + 2 ^ k * 4096}"

definition block_ok :: "(nat \<Rightarrow> u64 list) \<Rightarrow> buddy_t \<Rightarrow> u64 \<Rightarrow> nat \<Rightarrow> bool" where
  "block_ok L b block k \<longleftrightarrow>
     block \<noteq> 0 \<and> aligned8 block \<and> unat block + 2 ^ k * 4096 \<le> 2 ^ 64 \<and>
     (\<forall>x. unat x \<in> extent block k \<longrightarrow> x \<notin> bitmap_region b \<and>
        (\<forall>j<MAX_ORDER_BITS. x \<notin> set (L j)))"

lemma unat_block_size:
  "k < MAX_ORDER_BITS \<Longrightarrow> unat (push_bit k (1 :: u64) * PAGE_SIZE) = 2 ^ k * 4096"
proof -
  assume k: "k < MAX_ORDER_BITS"
  then have u: "unat (push_bit k (1 :: u64)) = 2 ^ k"
    by (intro unat_shift1) (simp add: MAX_ORDER_BITS_def)
  have "(2 :: nat) ^ k \<le> 2 ^ 10"
    using k by (intro power_increasing) (simp_all add: MAX_ORDER_BITS_def)
  then have "unat (push_bit k (1 :: u64)) * unat PAGE_SIZE < 2 ^ 64" unfolding u by simp
  from unat_mult64 [OF this] show ?thesis unfolding u by simp
qed

lemma unat_numeral_8: "unat (8 :: u64) = 8"
  by simp

lemma block_ok_node_free:
  assumes "block_ok L b block k"
  shows "node_free b block" "\<forall>j<MAX_ORDER_BITS. block \<notin> set (L j)"
proof -
  have e: "unat block + unat (8 :: u64) \<le> 2 ^ 64"
  proof -
    have "unat block + 2 ^ k * 4096 \<le> 2 ^ 64" "(1 :: nat) \<le> 2 ^ k"
      using assms by (simp_all add: block_ok_def)
    then show ?thesis unfolding unat_numeral_8 by linarith
  qed
  have "x \<notin> bitmap_region b" if "x \<in> region block 8" for x
  proof -
    have "unat block \<le> unat x" "unat x < unat block + 8"
      using that region_interval [OF e, of x] by auto
    moreover have "(8 :: nat) \<le> 2 ^ k * 4096"
      using mult_le_mono1 [of 1 "2 ^ k" 4096] by simp
    ultimately have "unat x < unat block + 2 ^ k * 4096" by linarith
    with \<open>unat block \<le> unat x\<close> have "unat x \<in> extent block k" by (simp add: extent_def)
    then show ?thesis using assms by (simp add: block_ok_def)
  qed
  then show "node_free b block" using assms by (auto simp: node_free_def block_ok_def)
  have "unat block \<in> extent block k" by (simp add: extent_def)
  then show "\<forall>j<MAX_ORDER_BITS. block \<notin> set (L j)" using assms by (auto simp: block_ok_def)
qed

lemma block_ok_upper:
  assumes ok: "block_ok L b block (Suc k)" and k: "k < MAX_ORDER_BITS"
    and geo: "bitmap b' = bitmap b" "bitmap_words b' = bitmap_words b"
  defines "up \<equiv> block + push_bit k 1 * PAGE_SIZE"
  shows "block_ok (L(k := block # L k)) b' up k" "unat up = unat block + 2 ^ k * 4096"
proof -
  have pos: "(0 :: nat) < 2 ^ k" by simp
  have fit: "unat block + 2 ^ Suc k * 4096 \<le> 2 ^ 64" using ok by (simp add: block_ok_def)
  with pos have "unat block + unat (push_bit k (1 :: u64) * PAGE_SIZE) < 2 ^ 64"
    unfolding unat_block_size [OF k] power_Suc by linarith
  from unat_plus64 [OF this] show u: "unat up = unat block + 2 ^ k * 4096"
    unfolding up_def unat_block_size [OF k] .
  have "unat (push_bit k (1 :: u64) * PAGE_SIZE) mod 8 = 0"
    unfolding unat_block_size [OF k] by (simp add: mod_mult_left_eq)
  then have al: "aligned8 up"
    unfolding up_def using ok by (intro aligned8_add) (simp_all add: block_ok_def)
  have "up \<noteq> 0" using u pos by (intro notI) simp
  moreover have "x \<notin> bitmap_region b'" "j < MAX_ORDER_BITS \<Longrightarrow> x \<notin> set ((L(k := block # L k)) j)"
    if x: "unat x \<in> extent up k" for x j
  proof -
    have "unat x \<in> extent block (Suc k)" "x \<noteq> block"
      using x u pos by (auto simp: extent_def)
    then show "x \<notin> bitmap_region b'" "j < MAX_ORDER_BITS \<Longrightarrow> x \<notin> set ((L(k := block # L k)) j)"
      using ok geo by (auto simp: block_ok_def bitmap_region_def)
  qed
  ultimately show "block_ok (L(k := block # L k)) b' up k"
    using al fit u by (simp add: block_ok_def)
qed

text \<open>The free lists after the split: one piece more on every list passed.\<close>

definition split_lists :: "nat \<Rightarrow> nat \<Rightarrow> u64 \<Rightarrow> (nat \<Rightarrow> u64 list) \<Rightarrow> nat \<Rightarrow> u64 list" where
  "split_lists found order block L j =
     (if order \<le> j \<and> j < found
      then (block + (push_bit found 1 - push_bit (Suc j) 1) * PAGE_SIZE) # L j else L j)"

lemma split_lists_Suc:
  assumes "order \<le> k"
  shows "split_lists k order (block + push_bit k 1 * PAGE_SIZE) (L(k := block # L k)) =
    split_lists (Suc k) order block L"
  using assms by (auto simp: split_lists_def fun_eq_iff push_bit_Suc_1 algebra_simps)

lemma split_block_chains:
  assumes "order \<le> found" "found < MAX_ORDER_BITS" "free_chains L s"
    "block_ok L (buddy s) block found"
  shows "free_chains (split_lists found order block L) (snd (split_block found order block s))"
  using assms
proof (induction found order block s arbitrary: L rule: split_block.induct)
  case (1 found order block s)
  show ?case
  proof (cases "order < found")
    case True
    then obtain k where k: "found = Suc k" by (cases found) auto
    let ?up = "block + push_bit k 1 * PAGE_SIZE"
    define s2 where "s2 = add_free_count (- push_bit k 1)
      (mark_pages (buddy_phys_to_idx (buddy s) ?up k) (2 ^ k) True s)"
    define s4 where "s4 = set_free_list k block (poke64 block (free_lists (buddy s2) ! k) s2)"
    have eq: "split_block found order block s = split_block k order ?up s4"
      using True k by (subst split_block.simps) (simp add: Let_def s2_def s4_def)
    have kb: "k < MAX_ORDER_BITS" using "1.prems"(2) k by simp
    have fc2: "free_chains L s2"
      unfolding s2_def using "1.prems"(3) by (simp add: free_chains_mark_pages)
    have "node_free (buddy s2) block" "\<forall>j<MAX_ORDER_BITS. block \<notin> set (L j)" "block \<noteq> 0"
      using block_ok_node_free [OF "1.prems"(4)] "1.prems"(4) by (auto simp: s2_def block_ok_def)
    then have fc4: "free_chains (L(k := block # L k)) s4"
      unfolding s4_def by (intro free_chains_push fc2 kb)
    have "block_ok (L(k := block # L k)) (buddy s4) ?up k"
      by (rule block_ok_upper(1) [OF "1.prems"(4) [unfolded k] kb]) (simp_all add: s4_def s2_def)
    then have "free_chains (split_lists k order ?up (L(k := block # L k)))
        (snd (split_block k order ?up s4))"
      using "1.IH" [OF True, of k ?up] True k kb fc4 by (simp add: s2_def s4_def)
    moreover have "order \<le> k" using True k by simp
    ultimately show ?thesis unfolding eq unfolding k by (simp only: split_lists_Suc)
  next
    case False
    with "1.prems" have "split_lists found order block L = L"
      by (simp add: split_lists_def fun_eq_iff)
    with False "1.prems" show ?thesis by (simp add: split_block.simps)
  qed
qed

end
