(* ===== verification/CString.thy ===== *)
theory CString
  imports Memory "HOL-Library.List_Lexorder" "HOL-Library.Sublist"
begin

text \<open>
  The string and memory operations of \<^verbatim>\<open>lib/string.c\<close> (lines 9 to 177), each as the loop
  the source has, over the flat memory. A loop that runs until it meets a zero byte returns
  an option: \<open>None\<close> when it never meets one. Pointers are addresses, a null result is 0.
\<close>

section \<open>Operations\<close>

partial_function (option) strlen_loop :: "mem \<Rightarrow> u64 \<Rightarrow> u64 option" where
  "strlen_loop m p = (if m p \<noteq> 0 then strlen_loop m (p + 1) else Some p)"

definition strlen :: "mem \<Rightarrow> u64 \<Rightarrow> u64 option" where
  "strlen m s = map_option (\<lambda>p. p - s) (strlen_loop m s)"

partial_function (option) strcmp :: "mem \<Rightarrow> u64 \<Rightarrow> u64 \<Rightarrow> int option" where
  "strcmp m s1 s2 =
     (if m s1 \<noteq> 0 \<and> m s1 = m s2 then strcmp m (s1 + 1) (s2 + 1)
      else Some (uint (m s1) - uint (m s2)))"

text \<open>The counter of \<^verbatim>\<open>while (--n > 0 && ...)\<close>, after the decrement.\<close>

function strncmp_loop :: "mem \<Rightarrow> u64 \<Rightarrow> u64 \<Rightarrow> u64 \<Rightarrow> int" where
  "strncmp_loop m s1 s2 n =
     (if 0 < n \<and> m s1 \<noteq> 0 \<and> m s1 = m s2 then strncmp_loop m (s1 + 1) (s2 + 1) (n - 1)
      else uint (m s1) - uint (m s2))"
  by pat_completeness auto
termination
  by (relation "measure (\<lambda>(m, s1, s2, n). unat n)") (auto simp: unat_minus_one unat_gt_0)

definition strncmp :: "mem \<Rightarrow> u64 \<Rightarrow> u64 \<Rightarrow> u64 \<Rightarrow> int" where
  "strncmp m s1 s2 n = (if n = 0 then 0 else strncmp_loop m s1 s2 (n - 1))"

partial_function (option) strcpy_loop :: "mem \<Rightarrow> u64 \<Rightarrow> u64 \<Rightarrow> mem option" where
  "strcpy_loop m dst src =
     (let m' = m(dst := m src) in
      if m src \<noteq> 0 then strcpy_loop m' (dst + 1) (src + 1) else Some m')"

definition strcpy :: "mem \<Rightarrow> u64 \<Rightarrow> u64 \<Rightarrow> (mem \<times> u64) option" where
  "strcpy m dst src = map_option (\<lambda>m'. (m', dst)) (strcpy_loop m dst src)"

function strncpy_copy :: "mem \<Rightarrow> u64 \<Rightarrow> u64 \<Rightarrow> u64 \<Rightarrow> mem \<times> u64 \<times> u64" where
  "strncpy_copy m dst src n =
     (if 0 < n then
        let m' = m(dst := m src) in
        if m src \<noteq> 0 then strncpy_copy m' (dst + 1) (src + 1) (n - 1) else (m', dst + 1, n)
      else (m, dst, n))"
  by pat_completeness auto
termination
  by (relation "measure (\<lambda>(m, d, s, n). unat n)") (auto simp: unat_minus_one unat_gt_0)

function fill :: "mem \<Rightarrow> u64 \<Rightarrow> u8 \<Rightarrow> u64 \<Rightarrow> mem" where
  "fill m p c n = (if n \<noteq> 0 then fill (m(p := c)) (p + 1) c (n - 1) else m)"
  by pat_completeness auto
termination
  by (relation "measure (\<lambda>(m, p, c, n). unat n)") (auto simp: unat_minus_one unat_gt_0)

definition strncpy :: "mem \<Rightarrow> u64 \<Rightarrow> u64 \<Rightarrow> u64 \<Rightarrow> mem \<times> u64" where
  "strncpy m dst src n =
     (let (m1, dst1, n1) = strncpy_copy m dst src n in (fill m1 dst1 0 n1, dst))"

definition strcat :: "mem \<Rightarrow> u64 \<Rightarrow> u64 \<Rightarrow> (mem \<times> u64) option" where
  "strcat m dst src =
     (case strlen_loop m dst of None \<Rightarrow> None
      | Some e \<Rightarrow> map_option (\<lambda>m'. (m', dst)) (strcpy_loop m e src))"

partial_function (option) strchr :: "mem \<Rightarrow> u64 \<Rightarrow> u32 \<Rightarrow> u64 option" where
  "strchr m s c =
     (if m s \<noteq> 0 then if m s = ucast c then Some s else strchr m (s + 1) c
      else if c = 0 then Some s else Some 0)"

text \<open>The inner loop of \<^verbatim>\<open>strstr\<close>: where in the needle the comparison stops.\<close>

partial_function (option) match_here :: "mem \<Rightarrow> u64 \<Rightarrow> u64 \<Rightarrow> u64 option" where
  "match_here m h n =
     (if m h \<noteq> 0 \<and> m n \<noteq> 0 \<and> m h = m n then match_here m (h + 1) (n + 1) else Some n)"

partial_function (option) strstr_loop :: "mem \<Rightarrow> u64 \<Rightarrow> u64 \<Rightarrow> u64 option" where
  "strstr_loop m haystack needle =
     (if m haystack \<noteq> 0 then
        case match_here m haystack needle of
          None \<Rightarrow> None
        | Some n \<Rightarrow> if m n = 0 then Some haystack else strstr_loop m (haystack + 1) needle
      else Some 0)"

definition strstr :: "mem \<Rightarrow> u64 \<Rightarrow> u64 \<Rightarrow> u64 option" where
  "strstr m haystack needle =
     (if m needle = 0 then Some haystack else strstr_loop m haystack needle)"

definition memset :: "mem \<Rightarrow> u64 \<Rightarrow> u32 \<Rightarrow> u64 \<Rightarrow> mem" where
  "memset m s c n = fill m s (ucast c) n"

function copy_up :: "mem \<Rightarrow> u64 \<Rightarrow> u64 \<Rightarrow> u64 \<Rightarrow> mem" where
  "copy_up m d s n = (if n \<noteq> 0 then copy_up (m(d := m s)) (d + 1) (s + 1) (n - 1) else m)"
  by pat_completeness auto
termination
  by (relation "measure (\<lambda>(m, d, s, n). unat n)") (auto simp: unat_minus_one unat_gt_0)

function copy_down :: "mem \<Rightarrow> u64 \<Rightarrow> u64 \<Rightarrow> u64 \<Rightarrow> mem" where
  "copy_down m d s n =
     (if n \<noteq> 0 then copy_down (m(d - 1 := m (s - 1))) (d - 1) (s - 1) (n - 1) else m)"
  by pat_completeness auto
termination
  by (relation "measure (\<lambda>(m, d, s, n). unat n)") (auto simp: unat_minus_one unat_gt_0)

definition memcpy :: "mem \<Rightarrow> u64 \<Rightarrow> u64 \<Rightarrow> u64 \<Rightarrow> mem" where
  "memcpy m dst src n = copy_up m dst src n"

definition memmove :: "mem \<Rightarrow> u64 \<Rightarrow> u64 \<Rightarrow> u64 \<Rightarrow> mem" where
  "memmove m dst src n =
     (if dst < src then copy_up m dst src n else copy_down m (dst + n) (src + n) n)"

function memcmp :: "mem \<Rightarrow> u64 \<Rightarrow> u64 \<Rightarrow> u64 \<Rightarrow> int" where
  "memcmp m p1 p2 n =
     (if n \<noteq> 0 then
        if m p1 \<noteq> m p2 then uint (m p1) - uint (m p2) else memcmp m (p1 + 1) (p2 + 1) (n - 1)
      else 0)"
  by pat_completeness auto
termination
  by (relation "measure (\<lambda>(m, p1, p2, n). unat n)") (auto simp: unat_minus_one unat_gt_0)

text \<open>
  \<^verbatim>\<open>atol\<close>. \<^verbatim>\<open>long\<close> is 64 bits wide; its arithmetic is done on the word, so a result out
  of range wraps as the target's multiply and add do.
\<close>

partial_function (option) skip_space :: "mem \<Rightarrow> u64 \<Rightarrow> u64 option" where
  "skip_space m p =
     (if m p = 0x20 \<or> m p = 0x09 \<or> m p = 0x0A then skip_space m (p + 1) else Some p)"

partial_function (option) atol_digits :: "mem \<Rightarrow> u64 \<Rightarrow> u64 \<Rightarrow> u64 option" where
  "atol_digits m p result =
     (if 0x30 \<le> m p \<and> m p \<le> 0x39
      then atol_digits m (p + 1) (result * 10 + (ucast (m p) - 0x30)) else Some result)"

definition atol :: "mem \<Rightarrow> u64 \<Rightarrow> u64 option" where
  "atol m nptr =
     (case skip_space m nptr of None \<Rightarrow> None
      | Some p \<Rightarrow>
          if m p = 0x2D then map_option (\<lambda>r. - r) (atol_digits m (p + 1) 0)
          else if m p = 0x2B then atol_digits m (p + 1) 0
          else atol_digits m p 0)"

declare strncmp_loop.simps [simp del] strncpy_copy.simps [simp del] fill.simps [simp del]
  copy_up.simps [simp del] copy_down.simps [simp del] memcmp.simps [simp del]

section \<open>C strings in memory\<close>

primrec cstr :: "mem \<Rightarrow> u64 \<Rightarrow> u8 list \<Rightarrow> bool" where
  "cstr m a [] \<longleftrightarrow> m a = 0"
| "cstr m a (x # xs) \<longleftrightarrow> m a = x \<and> x \<noteq> 0 \<and> cstr m (a + 1) xs"

lemma cstr_nonzero: "cstr m a xs \<Longrightarrow> 0 \<notin> set xs"
  by (induction xs arbitrary: a) auto

lemma cstr_append:
  "cstr m a (xs @ ys) \<longleftrightarrow>
     read_bytes m a (length xs) = xs \<and> 0 \<notin> set xs \<and> cstr m (a + of_nat (length xs)) ys"
  by (induction xs arbitrary: a) (auto simp: ac_simps)

lemma cstr_read: "cstr m a xs \<Longrightarrow> read_bytes m a (length xs) = xs"
  using cstr_append [of m a xs "[]"] by simp

lemma cstr_drop: "cstr m a (xs @ ys) \<Longrightarrow> cstr m (a + of_nat (length xs)) ys"
  by (simp add: cstr_append)

lemma cstr_cong:
  assumes "\<And>i. i \<le> length xs \<Longrightarrow> m (a + of_nat i) = m' (a + of_nat i)"
  shows "cstr m a xs \<longleftrightarrow> cstr m' a xs"
  using assms
proof (induction xs arbitrary: a)
  case Nil
  from Nil [of 0] show ?case by simp
next
  case (Cons x xs)
  have "m a = m' a" using Cons.prems [of 0] by simp
  moreover have "cstr m (a + 1) xs \<longleftrightarrow> cstr m' (a + 1) xs"
    using Cons.prems [of "Suc i" for i] by (intro Cons.IH) (simp add: ac_simps)
  ultimately show ?case by simp
qed

lemma write_bytes_apply:
  assumes "length xs < 2 ^ 64"
  shows "write_bytes m a xs x = (if unat (x - a) < length xs then xs ! unat (x - a) else m x)"
  using assms
proof (induction xs arbitrary: m a)
  case Nil
  then show ?case by simp
next
  case (Cons y ys)
  show ?case
  proof (cases "x = a")
    case True
    have "unat (- 1 :: u64) = 18446744073709551615"
      by (simp add: unsigned_minus_1_eq_mask mask_eq_exp_minus_1)
    with True Cons show ?thesis by simp
  next
    case False
    then have "x - a \<noteq> 0" by simp
    then have "unat (x - a) = Suc (unat (x - (a + 1)))"
      by (simp add: unat_minus_one unat_gt_0 diff_diff_eq [symmetric])
    with False Cons show ?thesis by simp
  qed
qed

lemma word_pred_less: "(n :: u64) \<noteq> 0 \<Longrightarrow> x - (a + 1) < n - 1 \<longleftrightarrow> x - a < n \<and> x \<noteq> a"
proof (cases "x = a")
  case True
  assume n: "n \<noteq> 0"
  from True show ?thesis by simp
next
  case False
  assume n: "n \<noteq> 0"
  from False have d: "x - a \<noteq> 0" by simp
  have "unat (x - a) = Suc (unat (x - (a + 1)))"
    using d by (simp add: unat_minus_one unat_gt_0 diff_diff_eq [symmetric])
  moreover have "unat n = Suc (unat (n - 1))" using n by (simp add: unat_minus_one unat_gt_0)
  ultimately show ?thesis using False by (simp add: word_less_nat_alt)
qed

section \<open>Filling and copying in closed form\<close>

lemma fill_apply: "fill m p c n x = (if x - p < n then c else m x)"
proof (induction m p c n rule: fill.induct)
  case (1 m p c n)
  show ?case
  proof (cases "n = 0")
    case False
    then have "fill m p c n x = (if x - (p + 1) < n - 1 then c else (m(p := c)) x)"
      using 1 [OF False] by (subst fill.simps) (simp only: if_True fun_upd_def simp_thms)
    with False word_pred_less [OF False, of x p] show ?thesis by (auto simp: word_gt_0)
  qed (simp add: fill.simps)
qed

lemma memset_apply [mem_simps]: "memset m s c n x = (if x - s < n then ucast c else m x)"
  by (simp add: memset_def fill_apply)

text \<open>
  Copying upwards is safe when no byte is overwritten before it is read, and likewise
  downwards.
\<close>

definition safe_up :: "u64 \<Rightarrow> u64 \<Rightarrow> u64 \<Rightarrow> bool" where
  "safe_up d s n \<longleftrightarrow> (\<forall>i j. i < j \<and> j < n \<longrightarrow> d + i \<noteq> s + j)"

definition safe_down :: "u64 \<Rightarrow> u64 \<Rightarrow> u64 \<Rightarrow> bool" where
  "safe_down d s n \<longleftrightarrow> (\<forall>i j. i < j \<and> j < n \<longrightarrow> d + j \<noteq> s + i)"

lemma unat_Suc64: "i < n \<Longrightarrow> unat (i + 1 :: u64) = Suc (unat i)"
proof -
  assume "i < n"
  then have "unat i < unat n" by (simp add: word_less_nat_alt)
  moreover have "unat n < 2 ^ 64" by simp
  ultimately have "unat i + unat (1 :: u64) < 2 ^ 64" by (simp only: unat_1)
  from unat_plus64 [OF this] show ?thesis by simp
qed

lemma safe_up_Suc: "safe_up d s n \<Longrightarrow> n \<noteq> 0 \<Longrightarrow> safe_up (d + 1) (s + 1) (n - 1)"
proof (unfold safe_up_def, intro allI impI)
  fix i j assume a: "\<forall>i j. i < j \<and> j < n \<longrightarrow> d + i \<noteq> s + j" and n: "n \<noteq> 0"
    and ij: "i < j \<and> j < n - 1"
  have "unat n = Suc (unat (n - 1))" using n by (simp add: unat_minus_one unat_gt_0)
  with ij have "i + 1 < j + 1 \<and> j + 1 < n"
    using unat_Suc64 [of i j] unat_Suc64 [of j "n - 1"] by (simp add: word_less_nat_alt)
  with a have "d + (i + 1) \<noteq> s + (j + 1)" by blast
  then show "d + 1 + i \<noteq> s + 1 + j" by (simp add: ac_simps)
qed

lemma copy_up_apply:
  assumes "safe_up d s n"
  shows "copy_up m d s n x = (if x - d < n then m (s + (x - d)) else m x)"
  using assms
proof (induction m d s n rule: copy_up.induct)
  case (1 m d s n)
  show ?case
  proof (cases "n = 0")
    case True
    then show ?thesis by (simp add: copy_up.simps)
  next
    case False
    let ?m = "m(d := m s)"
    have step: "copy_up m d s n x =
      (if x - (d + 1) < n - 1 then ?m (s + 1 + (x - (d + 1))) else ?m x)"
      using "1.IH" [OF False] safe_up_Suc [OF "1.prems" False] False
      by (subst copy_up.simps) (simp only: if_True fun_upd_def simp_thms)
    have "?m (s + (x - d)) = m (s + (x - d))" if "x - d < n" "x \<noteq> d"
    proof -
      have "0 < x - d" using that(2) by (simp add: word_gt_0)
      with that(1) "1.prems" have "d + 0 \<noteq> s + (x - d)" unfolding safe_up_def by blast
      then show ?thesis by simp
    qed
    with False show ?thesis
      unfolding step word_pred_less [OF False] by (auto simp: word_gt_0)
  qed
qed

lemma copy_down_apply:
  assumes "safe_down d s n"
  shows "copy_down m (d + n) (s + n) n x = (if x - d < n then m (s + (x - d)) else m x)"
  using assms
proof (induction "unat n" arbitrary: m n)
  case 0
  then have "n = 0" by (simp add: unat_eq_0)
  then show ?case by (simp add: copy_down.simps)
next
  case (Suc k)
  then have n: "n \<noteq> 0" by auto
  let ?m = "m(d + n - 1 := m (s + n - 1))"
  have k: "k = unat (n - 1)" using Suc.hyps(2) n by (simp add: unat_minus_one)
  have lt: "j < n" if "j < n - 1" for j :: u64
    using that n Suc.hyps(2) k by (simp add: word_less_nat_alt)
  have "safe_down d s (n - 1)" using Suc.prems lt by (auto simp: safe_down_def)
  from Suc.hyps(1) [OF k this, of ?m]
  have step: "copy_down m (d + n) (s + n) n x =
    (if x - d < n - 1 then ?m (s + (x - d)) else ?m x)"
    using n by (simp add: copy_down.simps [of m "d + n"] add_diff_eq)
  have last: "n - 1 < n" using n Suc.hyps(2) k by (simp add: word_less_nat_alt)
  have "s + (x - d) \<noteq> d + n - 1" if "x - d < n - 1"
    using Suc.prems that last unfolding safe_down_def by (metis add_diff_eq)
  moreover have "x - d < n \<longleftrightarrow> x - d < n - 1 \<or> x - d = n - 1"
    using n Suc.hyps(2) k by (auto simp: word_less_nat_alt word_unat_eq_iff)
  moreover have "x - d = n - 1 \<longleftrightarrow> x = d + n - 1" by (auto simp: algebra_simps)
  moreover have "s + (d + n - 1 - d) = s + n - 1" by simp
  ultimately show ?case unfolding step by (auto simp: add_diff_eq)
qed

lemma safe_upI:
  assumes "d < s" "unat s + unat n \<le> 2 ^ 64"
  shows "safe_up d s n"
proof (unfold safe_up_def, intro allI impI)
  fix i j assume ij: "i < j \<and> j < n"
  have "unat d < unat s" "unat i < unat j" "unat j < unat n"
    using assms(1) ij by (auto simp: word_less_nat_alt)
  moreover then have "unat (d + i) = unat d + unat i" "unat (s + j) = unat s + unat j"
    using assms(2) by (auto intro!: unat_plus64)
  ultimately show "d + i \<noteq> s + j" by (metis add_strict_mono less_irrefl)
qed

lemma safe_downI:
  assumes "s \<le> d" "unat d + unat n \<le> 2 ^ 64"
  shows "safe_down d s n"
proof (unfold safe_down_def, intro allI impI)
  fix i j assume ij: "i < j \<and> j < n"
  have "unat s \<le> unat d" "unat i < unat j" "unat j < unat n"
    using assms(1) ij by (auto simp: word_less_nat_alt word_le_nat_alt)
  moreover then have "unat (d + j) = unat d + unat j" "unat (s + i) = unat s + unat i"
    using assms(2) by (auto intro!: unat_plus64)
  ultimately show "d + j \<noteq> s + i" by (metis add_le_less_mono less_irrefl)
qed

lemma safe_up_disjoint: "region d n \<inter> region s n = {} \<Longrightarrow> safe_up d s n"
  unfolding safe_up_def
proof (intro allI impI notI)
  fix i j assume dis: "region d n \<inter> region s n = {}" and ij: "i < j \<and> j < n" and eq: "d + i = s + j"
  have "d + i \<in> region d n" "s + j \<in> region s n" using ij by auto
  with dis eq show False by (metis IntI empty_iff)
qed

section \<open>Scanning\<close>

lemma strlen_loop_cstr: "cstr m a xs \<Longrightarrow> strlen_loop m a = Some (a + of_nat (length xs))"
proof (induction xs arbitrary: a)
  case Nil
  then show ?case by (simp add: strlen_loop.simps)
next
  case (Cons x xs)
  then show ?case by (simp add: strlen_loop.simps [of m a] ac_simps)
qed

lemma strlen_cstr: "cstr m a xs \<Longrightarrow> strlen m a = Some (of_nat (length xs))"
  by (simp add: strlen_def strlen_loop_cstr)

text \<open>The comparison of two strings of bytes, with the end of a string below every byte.\<close>

fun cmp_bytes :: "u8 list \<Rightarrow> u8 list \<Rightarrow> int" where
  "cmp_bytes [] [] = 0"
| "cmp_bytes [] (y # ys) = - uint y"
| "cmp_bytes (x # xs) [] = uint x"
| "cmp_bytes (x # xs) (y # ys) = (if x = y then cmp_bytes xs ys else uint x - uint y)"

lemma uint_pos: "(x :: u8) \<noteq> 0 \<Longrightarrow> 0 < uint x"
  using word_gt_0 [of x] by (simp add: word_less_def)

lemma cmp_bytes_sign:
  assumes "0 \<notin> set xs" "0 \<notin> set ys"
  shows "cmp_bytes xs ys < 0 \<longleftrightarrow> xs < ys" "cmp_bytes xs ys = 0 \<longleftrightarrow> xs = ys"
    "0 < cmp_bytes xs ys \<longleftrightarrow> ys < xs"
  using assms
  by (induction xs ys rule: cmp_bytes.induct)
    (auto simp: word_less_def uint_pos dest: uint_pos unsigned_word_eqI)

lemma strcmp_cstr: "cstr m a xs \<Longrightarrow> cstr m b ys \<Longrightarrow> strcmp m a b = Some (cmp_bytes xs ys)"
proof (induction xs ys arbitrary: a b rule: cmp_bytes.induct)
  case (4 x xs y ys)
  show ?case
  proof (cases "x = y")
    case True
    with 4 show ?thesis by (simp add: strcmp.simps [of m a b])
  next
    case False
    with 4 show ?thesis by (simp add: strcmp.simps)
  qed
qed (simp_all add: strcmp.simps)

lemma strncmp_loop_cstr:
  assumes "cstr m a xs" "cstr m b ys"
  shows "strncmp_loop m a b n = cmp_bytes (take (Suc (unat n)) xs) (take (Suc (unat n)) ys)"
  using assms
proof (induction xs ys arbitrary: a b n rule: cmp_bytes.induct)
  case (4 x xs y ys)
  show ?case
  proof (cases "x = y \<and> n \<noteq> 0")
    case True
    then have "unat n = Suc (unat (n - 1))" by (simp add: unat_minus_one unat_gt_0)
    with True 4 show ?thesis by (simp add: strncmp_loop.simps [of m a b] word_gt_0)
  next
    case False
    with 4 show ?thesis by (auto simp: strncmp_loop.simps [of m a b] word_gt_0)
  qed
qed (simp_all add: strncmp_loop.simps)

lemma strncmp_cstr:
  assumes "cstr m a xs" "cstr m b ys"
  shows "strncmp m a b n = cmp_bytes (take (unat n) xs) (take (unat n) ys)"
proof (cases "n = 0")
  case False
  then have "unat n = Suc (unat (n - 1))" by (simp add: unat_minus_one unat_gt_0)
  with False strncmp_loop_cstr [OF assms] show ?thesis by (simp add: strncmp_def)
qed (simp add: strncmp_def)

lemma memcmp_bytes:
  "memcmp m a b n = cmp_bytes (read_bytes m a (unat n)) (read_bytes m b (unat n))"
proof (induction m a b n rule: memcmp.induct)
  case (1 m a b n)
  show ?case
  proof (cases "n = 0")
    case False
    then have "unat n = Suc (unat (n - 1))" by (simp add: unat_minus_one unat_gt_0)
    with False 1 show ?thesis by (simp add: memcmp.simps [of m a b])
  qed (simp add: memcmp.simps)
qed

lemma strchr_cstr:
  assumes "cstr m a xs"
  shows "strchr m a c =
    (if ucast c \<in> set xs then Some (a + of_nat (length (takeWhile (\<lambda>x. x \<noteq> ucast c) xs)))
     else if c = 0 then Some (a + of_nat (length xs)) else Some 0)"
  using assms
proof (induction xs arbitrary: a)
  case Nil
  then show ?case by (simp add: strchr.simps)
next
  case (Cons x xs)
  then show ?case by (auto simp: strchr.simps [of m a] ac_simps)
qed

section \<open>Copying strings\<close>

lemma write_bytes_append:
  "write_bytes m a (xs @ ys) = write_bytes (write_bytes m a xs) (a + of_nat (length xs)) ys"
  by (induction xs arbitrary: m a) (simp_all add: ac_simps)

lemma fill_write: "fill m p c n = write_bytes m p (replicate (unat n) c)"
proof (induction m p c n rule: fill.induct)
  case (1 m p c n)
  show ?case
  proof (cases "n = 0")
    case False
    then have "unat n = Suc (unat (n - 1))" by (simp add: unat_minus_one unat_gt_0)
    with 1 [OF False] False show ?thesis
      by (subst fill.simps) (simp add: fun_upd_def)
  qed (simp add: fill.simps)
qed

text \<open>No byte of the source string is overwritten before it is read.\<close>

definition copy_ok :: "u64 \<Rightarrow> u64 \<Rightarrow> nat \<Rightarrow> bool" where
  "copy_ok d s n \<longleftrightarrow> (\<forall>i j. i < j \<and> j \<le> n \<longrightarrow> d + of_nat i \<noteq> s + of_nat j)"

lemma copy_okD:
  assumes "copy_ok d s n" "j \<le> n" "0 < j"
  shows "d \<noteq> s + of_nat j"
proof -
  have "d + of_nat 0 \<noteq> s + of_nat j" using assms unfolding copy_ok_def by blast
  then show ?thesis by simp
qed

lemma copy_ok_Suc:
  assumes "copy_ok d s (Suc n)"
  shows "copy_ok (d + 1) (s + 1) n"
  unfolding copy_ok_def
proof (intro allI impI)
  fix i j assume "i < j \<and> j \<le> n"
  then have "d + of_nat (Suc i) \<noteq> s + of_nat (Suc j)" using assms unfolding copy_ok_def by blast
  then show "d + 1 + of_nat i \<noteq> s + 1 + of_nat j" by (simp add: ac_simps)
qed

lemma cstr_after_write:
  assumes "cstr m (s + 1) xs" "copy_ok d s (Suc (length xs))"
  shows "cstr (m(d := c)) (s + 1) xs"
proof -
  have "d \<noteq> s + 1 + of_nat i" if "i \<le> length xs" for i
    using copy_okD [OF assms(2), of "Suc i"] that by (simp add: ac_simps)
  then have "cstr (m(d := c)) (s + 1) xs = cstr m (s + 1) xs"
    by (intro cstr_cong) (metis fun_upd_other)
  with assms(1) show ?thesis by simp
qed

lemma strcpy_loop_cstr:
  "cstr m s xs \<Longrightarrow> copy_ok d s (length xs) \<Longrightarrow>
   strcpy_loop m d s = Some (write_bytes m d (xs @ [0]))"
proof (induction xs arbitrary: m d s)
  case Nil
  then show ?case by (simp add: strcpy_loop.simps Let_def fun_upd_def)
next
  case (Cons x xs)
  then have "cstr (m(d := x)) (s + 1) xs" "copy_ok (d + 1) (s + 1) (length xs)"
    by (simp_all add: cstr_after_write copy_ok_Suc)
  with Cons show ?case by (simp add: strcpy_loop.simps [of m d s] Let_def fun_upd_def)
qed

lemma strncpy_copy_cstr:
  "cstr m s xs \<Longrightarrow> copy_ok d s (length xs) \<Longrightarrow> strncpy_copy m d s n =
    (if length xs < unat n
     then (write_bytes m d (xs @ [0]), d + of_nat (length xs) + 1, n - of_nat (length xs))
     else (write_bytes m d (take (unat n) xs), d + n, 0))"
proof (induction xs arbitrary: m d s n)
  case Nil
  then show ?case
    by (auto simp: strncpy_copy.simps Let_def unat_gt_0 word_gt_0 fun_upd_def)
next
  case (Cons x xs)
  show ?case
  proof (cases "n = 0")
    case False
    then have n: "unat n = Suc (unat (n - 1))" by (simp add: unat_minus_one unat_gt_0)
    have "cstr (m(d := x)) (s + 1) xs" "copy_ok (d + 1) (s + 1) (length xs)"
      using Cons.prems by (simp_all add: cstr_after_write copy_ok_Suc)
    from Cons.IH [OF this, of "n - 1"] Cons.prems False show ?thesis
      by (simp add: strncpy_copy.simps [of m d s n] Let_def word_gt_0 n ac_simps diff_diff_eq fun_upd_def)
  qed (simp add: strncpy_copy.simps)
qed

lemma strncpy_cstr:
  assumes "cstr m s xs" "copy_ok d s (length xs)"
  shows "strncpy m d s n = (write_bytes m d
    (if length xs < unat n then xs @ replicate (Suc (unat n - length xs)) 0
     else take (unat n) xs), d)"
proof (cases "length xs < unat n")
  case True
  then have len: "unat (of_nat (length xs) :: u64) = length xs"
    using less_trans [OF True unat_less_2p64] by (intro unat_of_nat64) simp
  then have le: "of_nat (length xs) \<le> n" using True by (simp add: word_le_nat_alt)
  have "unat (n - of_nat (length xs)) = unat n - length xs"
    unfolding unat_minus64 [OF le] len ..
  moreover have "xs @ replicate (Suc (unat n - length xs)) 0 =
      (xs @ [0]) @ replicate (unat n - length xs) 0" by simp
  ultimately show ?thesis
    unfolding strncpy_def strncpy_copy_cstr [OF assms] using True
    by (simp add: fill_write write_bytes_append ac_simps)
next
  case False
  then show ?thesis
    unfolding strncpy_def strncpy_copy_cstr [OF assms] by (simp add: fill.simps)
qed

lemma strcat_cstr:
  assumes "cstr m d xs" "cstr m s ys" "copy_ok (d + of_nat (length xs)) s (length ys)"
  shows "strcat m d s = Some (write_bytes m (d + of_nat (length xs)) (ys @ [0]), d)"
  unfolding strcat_def strlen_loop_cstr [OF assms(1)] by (simp add: strcpy_loop_cstr assms)

lemma write_bytes_cstr:
  assumes "0 \<notin> set xs" "Suc (length xs) < 2 ^ 64"
  shows "cstr (write_bytes m a (xs @ [0])) a xs"
  unfolding cstr_append [of _ _ xs "[]", simplified]
proof (intro conjI)
  have u: "unat (of_nat i :: u64) = i" if "i \<le> length xs" for i
    using that assms(2) by (intro unat_of_nat64) simp
  have w: "write_bytes m a (xs @ [0]) (a + of_nat i) = (xs @ [0]) ! i" if "i \<le> length xs" for i
    using that assms(2) by (subst write_bytes_apply) (simp_all add: u)
  show "read_bytes (write_bytes m a (xs @ [0])) a (length xs) = xs"
    by (rule nth_equalityI) (simp_all add: read_bytes_nth w nth_append)
  show "write_bytes m a (xs @ [0]) (a + of_nat (length xs)) = 0"
    by (simp add: w nth_append)
qed (rule assms(1))

section \<open>Substring search\<close>

lemma match_here_cstr:
  assumes "cstr m h xs" "cstr m n ys"
  shows "\<exists>p. match_here m h n = Some p \<and> (m p = 0 \<longleftrightarrow> prefix ys xs)"
  using assms
proof (induction xs arbitrary: h n ys)
  case Nil
  then show ?case by (cases ys) (auto simp: match_here.simps [of m h n])
next
  case (Cons x xs)
  show ?case
  proof (cases "\<exists>zs. ys = x # zs")
    case True
    then obtain zs where "ys = x # zs" by blast
    with Cons show ?thesis by (simp add: match_here.simps [of m h n])
  next
    case False
    with Cons.prems show ?thesis
      by (cases ys) (auto simp: match_here.simps [of m h n])
  qed
qed

definition first_at :: "u8 list \<Rightarrow> u8 list \<Rightarrow> nat \<Rightarrow> bool" where
  "first_at ys xs i \<longleftrightarrow> prefix ys (drop i xs) \<and> (\<forall>j<i. \<not> prefix ys (drop j xs))"

lemma strstr_loop_cstr:
  assumes "cstr m h xs" "cstr m n ys" "ys \<noteq> []"
  shows "(\<exists>i<length xs. strstr_loop m h n = Some (h + of_nat i) \<and> first_at ys xs i) \<or>
    strstr_loop m h n = Some 0 \<and> (\<forall>j. \<not> prefix ys (drop j xs))"
  using assms(1)
proof (induction xs arbitrary: h)
  case Nil
  with assms(3) show ?case by (simp add: strstr_loop.simps)
next
  case (Cons x xs)
  obtain p where p: "match_here m h n = Some p" "m p = 0 \<longleftrightarrow> prefix ys (x # xs)"
    using match_here_cstr [OF Cons.prems assms(2)] by blast
  show ?case
  proof (cases "prefix ys (x # xs)")
    case True
    with p Cons.prems have "strstr_loop m h n = Some (h + of_nat 0)" "first_at ys (x # xs) 0"
      by (simp_all add: strstr_loop.simps [of m h] first_at_def)
    then show ?thesis by blast
  next
    case False
    then have step: "strstr_loop m h n = strstr_loop m (h + 1) n"
      using p Cons.prems by (simp add: strstr_loop.simps [of m h])
    have all: "(\<forall>j. \<not> prefix ys (drop j (x # xs))) \<longleftrightarrow> (\<forall>j. \<not> prefix ys (drop j xs))"
      using False by (metis drop_0 drop_Suc_Cons old.nat.exhaust)
    have "first_at ys (x # xs) (Suc i)" if "first_at ys xs i" for i
      using that False by (auto simp: first_at_def less_Suc_eq_0_disj)
    then show ?thesis
      using Cons.IH [of "h + 1"] Cons.prems unfolding step all by (fastforce simp: ac_simps)
  qed
qed

section \<open>Reading numbers\<close>

definition is_digit :: "u8 \<Rightarrow> bool" where
  "is_digit c \<longleftrightarrow> 0x30 \<le> c \<and> c \<le> 0x39"

definition is_space :: "u8 \<Rightarrow> bool" where
  "is_space c \<longleftrightarrow> c = 0x20 \<or> c = 0x09 \<or> c = 0x0A"

text \<open>The number a list of decimal digits denotes, most significant digit first.\<close>

fun dec_value :: "nat \<Rightarrow> u8 list \<Rightarrow> nat" where
  "dec_value acc [] = acc"
| "dec_value acc (c # cs) = dec_value (acc * 10 + (unat c - 48)) cs"

definition stops :: "(u8 \<Rightarrow> bool) \<Rightarrow> u8 list \<Rightarrow> bool" where
  "stops P xs \<longleftrightarrow> (case xs of [] \<Rightarrow> True | x # _ \<Rightarrow> \<not> P x)"

lemma digit_word: "is_digit c \<Longrightarrow> ucast c - 0x30 = (of_nat (unat c - 48) :: u64)"
  by (simp add: is_digit_def word_le_nat_alt)

lemma atol_digits_cstr:
  assumes "cstr m a (ds @ rest)" "\<forall>c\<in>set ds. is_digit c" "stops is_digit rest"
  shows "atol_digits m a (of_nat acc) = Some (of_nat (dec_value acc ds))"
  using assms(1,2)
proof (induction ds arbitrary: a acc)
  case Nil
  with assms(3) show ?case
    by (cases rest) (auto simp: atol_digits.simps [of m a] stops_def is_digit_def)
next
  case (Cons c ds)
  have "m a = c" "is_digit c" using Cons.prems by simp_all
  moreover from this have "of_nat acc * 10 + (ucast c - 0x30) =
      (of_nat (acc * 10 + (unat c - 48)) :: u64)"
    by (simp add: digit_word)
  ultimately have "atol_digits m a (of_nat acc) =
      atol_digits m (a + 1) (of_nat (acc * 10 + (unat c - 48)))"
    by (simp add: atol_digits.simps [of m a] is_digit_def)
  moreover have "cstr m (a + 1) (ds @ rest)" "\<forall>c\<in>set ds. is_digit c"
    using Cons.prems by simp_all
  ultimately show ?case using Cons.IH by (simp only: dec_value.simps)
qed

lemma skip_space_cstr:
  assumes "cstr m a (ws @ rest)" "\<forall>c\<in>set ws. is_space c" "stops is_space rest"
  shows "skip_space m a = Some (a + of_nat (length ws))"
  using assms(1,2)
proof (induction ws arbitrary: a)
  case Nil
  with assms(3) show ?case
    by (cases rest) (auto simp: skip_space.simps [of m a] stops_def is_space_def)
next
  case (Cons c ws)
  then show ?case by (simp add: skip_space.simps [of m a] is_space_def ac_simps)
qed

end
