(* ===== verification/Mm.thy ===== *)
theory Mm
  imports Buddy CString
begin

text \<open>
  The rest of \<^verbatim>\<open>lib/mm.c\<close>: the slab layer behind \<^verbatim>\<open>kmalloc\<close>, the initialisation of the
  pool, and the wrappers around the page allocator. A \<^verbatim>\<open>slab_t\<close> lives at the start of the
  page it describes, so its fields are memory at fixed offsets from the slab's address.
\<close>

section \<open>State\<close>

definition SLAB_OBJ_SIZE :: u64 where
  "SLAB_OBJ_SIZE = 64"

definition SLAB_OBJS_PER_PAGE :: u64 where
  "SLAB_OBJS_PER_PAGE = PAGE_SIZE div SLAB_OBJ_SIZE"

text \<open>
  The layout of \<^verbatim>\<open>slab_t\<close>: \<^verbatim>\<open>page_phys\<close> at offset 0, \<^verbatim>\<open>free_list\<close> at 8, the 64 bytes
  \<^verbatim>\<open>used\<close> at 16 and \<^verbatim>\<open>next\<close> at 80.
\<close>

definition slab_page_phys :: "mem \<Rightarrow> u64 \<Rightarrow> u64" where
  "slab_page_phys m p = load64 m p"

definition slab_free_list :: "mem \<Rightarrow> u64 \<Rightarrow> u64" where
  "slab_free_list m p = load64 m (p + 8)"

definition slab_used :: "u64 \<Rightarrow> u64 \<Rightarrow> u64" where
  "slab_used p idx = p + 16 + idx"

definition slab_next :: "mem \<Rightarrow> u64 \<Rightarrow> u64" where
  "slab_next m p = load64 m (p + 80)"

definition set_slab_next :: "mem \<Rightarrow> u64 \<Rightarrow> u64 \<Rightarrow> mem" where
  "set_slab_next m p v = store64 m (p + 80) v"

record slab_globals =
  slabs :: u64
  total_objs :: u64
  used_objs :: u64
  total_pages :: u64
  used_pages :: u64

definition slab_static :: slab_globals where
  "slab_static = \<lparr>slabs = 0, total_objs = 0, used_objs = 0, total_pages = 0, used_pages = 0\<rparr>"

record mm_state = buddy_state +
  slab :: slab_globals

text \<open>Byte stores, and the library calls \<^verbatim>\<open>memset\<close> and \<^verbatim>\<open>memcpy\<close> on the state.\<close>

definition poke8 :: "u64 \<Rightarrow> u8 \<Rightarrow> 'a kbase_scheme \<Rightarrow> 'a kbase_scheme" where
  "poke8 a v s = s\<lparr>kmem := (kmem s)(a := v)\<rparr>"

definition kmemset :: "u64 \<Rightarrow> u32 \<Rightarrow> u64 \<Rightarrow> 'a kbase_scheme \<Rightarrow> 'a kbase_scheme" where
  "kmemset p c n s = s\<lparr>kmem := memset (kmem s) p c n\<rparr>"

definition kmemcpy :: "u64 \<Rightarrow> u64 \<Rightarrow> u64 \<Rightarrow> 'a kbase_scheme \<Rightarrow> 'a kbase_scheme" where
  "kmemcpy d p n s = s\<lparr>kmem := memcpy (kmem s) d p n\<rparr>"

section \<open>Slabs\<close>

text \<open>
  The two walks over the list of slabs: to the first slab with a free object, and to the
  slab whose page holds an address. Both return the null pointer at the end of the list,
  and do not return on a cyclic one.
\<close>

partial_function (option) slab_with_free :: "mem \<Rightarrow> u64 \<Rightarrow> u64 option" where
  "slab_with_free m slab_ptr =
     (if slab_ptr = 0 then Some 0
      else if slab_free_list m slab_ptr \<noteq> 0 then Some slab_ptr
      else slab_with_free m (slab_next m slab_ptr))"

definition in_slab_page :: "mem \<Rightarrow> u64 \<Rightarrow> u64 \<Rightarrow> bool" where
  "in_slab_page m obj_phys slab_ptr \<longleftrightarrow>
     slab_page_phys m slab_ptr \<le> obj_phys \<and> obj_phys < slab_page_phys m slab_ptr + PAGE_SIZE"

partial_function (option) slab_of :: "mem \<Rightarrow> u64 \<Rightarrow> u64 \<Rightarrow> u64 option" where
  "slab_of m obj_phys slab_ptr =
     (if slab_ptr = 0 then Some 0
      else if in_slab_page m obj_phys slab_ptr then Some slab_ptr
      else slab_of m obj_phys (slab_next m slab_ptr))"

text \<open>Taking the first object of a slab's free list.\<close>

definition slab_take :: "u64 \<Rightarrow> 'a mm_state_scheme \<Rightarrow> u64 \<times> 'a mm_state_scheme" where
  "slab_take slab_ptr s =
     (let obj_phys = slab_free_list (kmem s) slab_ptr;
          s1 = poke64 (slab_ptr + 8) (peek64 s obj_phys) s;
          obj_idx = (obj_phys - slab_page_phys (kmem s1) slab_ptr) div SLAB_OBJ_SIZE;
          s2 = poke8 (slab_used slab_ptr obj_idx) 1 s1;
          s3 = s2\<lparr>slab := (slab s2)\<lparr>used_objs := used_objs (slab s2) + 1\<rparr>\<rparr>
      in (obj_phys, s3))"

text \<open>Setting up the page \<open>page_phys\<close> as a new slab, whose first object is handed out.\<close>

definition slab_link_objs :: "u64 \<Rightarrow> mem \<Rightarrow> mem" where
  "slab_link_objs page_phys m =
     store64
       (for_loop 0 (unat SLAB_OBJS_PER_PAGE - 1)
          (\<lambda>i m. store64 m (page_phys + (of_nat i + 1) * SLAB_OBJ_SIZE)
                   (page_phys + (of_nat i + 2) * SLAB_OBJ_SIZE)) m)
       (page_phys + (SLAB_OBJS_PER_PAGE - 1) * SLAB_OBJ_SIZE) 0"

definition slab_new :: "u64 \<Rightarrow> 'a mm_state_scheme \<Rightarrow> u64 \<times> 'a mm_state_scheme" where
  "slab_new page_phys s =
     (let s1 = s\<lparr>slab := (slab s)\<lparr>total_pages := total_pages (slab s) + 1\<rparr>\<rparr>;
          s2 = poke64 page_phys page_phys s1;
          s3 = s2\<lparr>kmem := set_slab_next (kmem s2) page_phys (slabs (slab s2))\<rparr>;
          s4 = s3\<lparr>slab := (slab s3)\<lparr>slabs := page_phys\<rparr>\<rparr>;
          s5 = poke64 (page_phys + 8) (page_phys + SLAB_OBJ_SIZE) s4;
          s6 = s5\<lparr>kmem := slab_link_objs page_phys (kmem s5)\<rparr>;
          s7 = poke8 (slab_used page_phys 0) 1 s6;
          s8 = s7\<lparr>slab := (slab s7)\<lparr>used_objs := used_objs (slab s7) + 1,
                                    total_objs := total_objs (slab s7) + SLAB_OBJS_PER_PAGE\<rparr>\<rparr>
      in (page_phys, s8))"

definition slab_alloc :: "'a mm_state_scheme \<Rightarrow> (u64 \<times> 'a mm_state_scheme) option" where
  "slab_alloc s =
     (case slab_with_free (kmem s) (slabs (slab s)) of
        None \<Rightarrow> None
      | Some slab_ptr \<Rightarrow>
          Some (if slab_ptr \<noteq> 0 then slab_take slab_ptr s
                else case alloc_pages 0 s of
                       (None, s1) \<Rightarrow> (0, emit ''[SLAB] Cannot allocate page for new slab!\<newline>'' [] s1)
                     | (Some page_phys, s1) \<Rightarrow> slab_new page_phys s1))"

definition slab_free :: "u64 \<Rightarrow> 'a mm_state_scheme \<Rightarrow> 'a mm_state_scheme option" where
  "slab_free ptr s =
     (if ptr = 0 then Some s
      else case slab_of (kmem s) ptr (slabs (slab s)) of
        None \<Rightarrow> None
      | Some slab_ptr \<Rightarrow>
          Some (if slab_ptr = 0 then s
                else
                  let obj_idx = (ptr - slab_page_phys (kmem s) slab_ptr) div SLAB_OBJ_SIZE;
                      s1 = poke8 (slab_used slab_ptr obj_idx) 0 s;
                      s2 = s1\<lparr>slab := (slab s1)\<lparr>used_objs := used_objs (slab s1) - 1\<rparr>\<rparr>;
                      s3 = poke64 ptr (slab_free_list (kmem s2) slab_ptr) s2
                  in poke64 (slab_ptr + 8) ptr s3))"

section \<open>The kernel heap\<close>

definition kmalloc :: "u64 \<Rightarrow> 'a mm_state_scheme \<Rightarrow> (u64 \<times> 'a mm_state_scheme) option" where
  "kmalloc sz s =
     (if sz = 0 then Some (0, s)
      else
        let size1 = (if sz < SLAB_OBJ_SIZE then SLAB_OBJ_SIZE else sz);
            size2 = (size1 + 7) AND NOT 7
        in case slab_alloc s of
             None \<Rightarrow> None
           | Some (ptr, s1) \<Rightarrow> Some (ptr, if ptr \<noteq> 0 then kmemset ptr 0 size2 s1 else s1))"

definition kfree :: "u64 \<Rightarrow> 'a mm_state_scheme \<Rightarrow> 'a mm_state_scheme option" where
  "kfree ptr s = (if ptr = 0 then Some s else slab_free ptr s)"

definition krealloc ::
  "u64 \<Rightarrow> u64 \<Rightarrow> 'a mm_state_scheme \<Rightarrow> (u64 \<times> 'a mm_state_scheme) option" where
  "krealloc ptr new_size s =
     (if ptr = 0 then kmalloc new_size s
      else if new_size = 0 then map_option (\<lambda>s1. (0, s1)) (kfree ptr s)
      else case kmalloc new_size s of
             None \<Rightarrow> None
           | Some (new_ptr, s1) \<Rightarrow>
               (if new_ptr = 0 then Some (0, s1)
                else case slab_of (kmem s1) ptr (slabs (slab s1)) of
                       None \<Rightarrow> None
                     | Some slab_ptr \<Rightarrow>
                         let old_size = (if slab_ptr \<noteq> 0 then PAGE_SIZE else SLAB_OBJ_SIZE);
                             s2 = kmemcpy new_ptr ptr (if new_size < old_size then new_size
                                                       else old_size) s1
                         in map_option (\<lambda>s3. (new_ptr, s3)) (kfree ptr s2)))"

definition kmalloc_usable :: "u64 \<Rightarrow> u64" where
  "kmalloc_usable ptr = SLAB_OBJ_SIZE"

section \<open>Initialisation\<close>

text \<open>
  The loop both initialisations run over order 0. \<^verbatim>\<open>free_lists[0]\<close> is a pointer to an
  eight-byte structure, so its element \<open>i\<close> is eight times \<open>i\<close> bytes from the start.
\<close>

definition link_pool :: "u64 \<Rightarrow> u64 \<Rightarrow> mem \<Rightarrow> mem" where
  "link_pool start n m =
     store64
       (for_loop 0 (unat (n - 1))
          (\<lambda>i m. store64 m (start + 8 * of_nat i) (start + (of_nat i + 1) * PAGE_SIZE)) m)
       (start + 8 * (n - 1)) 0"

text \<open>\<^verbatim>\<open>buddy_init\<close>: the flag is the return value, \<open>True\<close> for 0 and \<open>False\<close> for -1.\<close>

definition buddy_init ::
  "u64 \<Rightarrow> u64 \<Rightarrow> 'a mm_state_scheme \<Rightarrow> (bool \<times> 'a mm_state_scheme) option" where
  "buddy_init start n s =
     (if n = 0 \<or> 0x100000 < n then
        Some (False, emit ''[BUDDY] Invalid page count: %zu\<newline>'' [VWord n] s)
      else
        let s1 = s\<lparr>buddy := (buddy s)\<lparr>pool_start := start, pool_pages := n, free_count := n,
                                      bitmap_words := (n + 63) div 64\<rparr>\<rparr>
        in case kmalloc (bitmap_words (buddy s1) * 8) s1 of
             None \<Rightarrow> None
           | Some (p, s2) \<Rightarrow>
               let s3 = s2\<lparr>buddy := (buddy s2)\<lparr>bitmap := p\<rparr>\<rparr> in
               if p = 0 then Some (False, emit ''[BUDDY] Failed to allocate bitmap!\<newline>'' [] s3)
               else
                 let s4 = kmemset p 0 (bitmap_words (buddy s3) * 8) s3;
                     s5 = set_free_list 0 start s4;
                     s6 = s5\<lparr>kmem := link_pool start n (kmem s5)\<rparr>;
                     s7 = s6\<lparr>buddy := (buddy s6)\<lparr>initialized := True\<rparr>\<rparr>;
                     s8 = emit ''[BUDDY] Pool: 0x%lx - 0x%lx (%zu pages, %zu MB)\<newline>''
                            [VWord start, VWord (start + n * PAGE_SIZE), VWord n,
                             VWord (n * PAGE_SIZE div (1024 * 1024))] s7;
                     s9 = emit ''[BUDDY] Bitmap: %zu words (%zu bits)\<newline>''
                            [VWord (bitmap_words (buddy s8)),
                             VWord (bitmap_words (buddy s8) * 64)] s8
                 in Some (True, s9))"

text \<open>
  \<^verbatim>\<open>mm_init\<close>: the addresses of the linker's \<^verbatim>\<open>__kernel_end\<close> and of the function's
  \<^verbatim>\<open>static_bitmap\<close> are arguments.
\<close>

definition mm_init :: "u64 \<Rightarrow> u64 \<Rightarrow> 'a mm_state_scheme \<Rightarrow> 'a mm_state_scheme" where
  "mm_init kernel_end static_bitmap s =
     (let s1 = emit ''[MM] Initializing memory manager...\<newline>'' [] s;
          pool_mb = 64;
          start = align_up (2 * 1024 * 1024) kernel_end;
          n = (pool_mb * 1024 * 1024) div PAGE_SIZE;
          s2 = s1\<lparr>buddy := (buddy s1)\<lparr>bitmap := static_bitmap, bitmap_words := 1024,
                                      pool_start := start, pool_pages := n, free_count := n\<rparr>\<rparr>;
          s3 = kmemset (bitmap (buddy s2)) 0 (bitmap_words (buddy s2) * 8) s2;
          s4 = set_free_list 0 start s3;
          s5 = s4\<lparr>kmem := link_pool start n (kmem s4)\<rparr>;
          s6 = s5\<lparr>buddy := (buddy s5)\<lparr>initialized := True\<rparr>\<rparr>;
          s7 = emit ''[MM] Buddy pool: 0x%lx (%zu pages, %zu MB)\<newline>''
                 [VWord start, VWord n, VWord (n * PAGE_SIZE div (1024 * 1024))] s6
      in emit ''[MM] Slab allocator initialized.\<newline>'' [] s7)"

section \<open>Wrappers around the page allocator\<close>

text \<open>The loop that looks for the order of a request of \<open>pages\<close> pages.\<close>

function order_for :: "u64 \<Rightarrow> nat \<Rightarrow> nat" where
  "order_for pages order =
     (if push_bit order 1 < pages \<and> order < MAX_ORDER_BITS - 1 then order_for pages (Suc order)
      else order)"
  by pat_completeness auto
termination
  by (relation "measure (\<lambda>(p, k). MAX_ORDER_BITS - k)") auto

declare order_for.simps [simp del]

definition phys_alloc :: "u64 \<Rightarrow> 'a mm_state_scheme \<Rightarrow> u64 \<times> 'a mm_state_scheme" where
  "phys_alloc sz s =
     (if sz = 0 then (0, s)
      else
        let pages = (sz + PAGE_SIZE - 1) div PAGE_SIZE;
            order = order_for pages 0
        in case alloc_pages (of_nat order) s of
             (None, s1) \<Rightarrow> (0, s1)
           | (Some phys, s1) \<Rightarrow> (phys, kmemset phys 0 (pages * PAGE_SIZE) s1))"

definition phys_free :: "u64 \<Rightarrow> u64 \<Rightarrow> 'a mm_state_scheme \<Rightarrow> 'a mm_state_scheme option" where
  "phys_free ptr sz s =
     (if ptr = 0 \<or> sz = 0 then Some s
      else
        let pages = (sz + PAGE_SIZE - 1) div PAGE_SIZE;
            order = order_for pages 0
        in free_pages ptr (of_nat order) s)"

definition page_alloc :: "'a mm_state_scheme \<Rightarrow> u64 option \<times> 'a mm_state_scheme" where
  "page_alloc s = alloc_pages 0 s"

definition page_free :: "u64 \<Rightarrow> 'a mm_state_scheme \<Rightarrow> 'a mm_state_scheme option" where
  "page_free page s = free_pages page 0 s"

definition stack_alloc :: "u64 \<Rightarrow> 'a mm_state_scheme \<Rightarrow> u64 \<times> 'a mm_state_scheme" where
  "stack_alloc sz s =
     (let size1 = (sz + PAGE_SIZE - 1) AND NOT (PAGE_SIZE - 1)
      in case alloc_pages (ucast (size1 div PAGE_SIZE)) s of
           (None, s1) \<Rightarrow> (0, s1)
         | (Some phys, s1) \<Rightarrow> (phys, kmemset phys 0 size1 s1))"

definition stack_free :: "u64 \<Rightarrow> 'a mm_state_scheme \<Rightarrow> 'a mm_state_scheme option" where
  "stack_free stack s = (if stack = 0 then Some s else free_pages stack 0 s)"

section \<open>Frames\<close>

lemma poke8_frame [simp, frame_simps]:
  "kmem (poke8 a v s) = (kmem s)(a := v)" "klog (poke8 a v s) = klog s"
  "buddy (poke8 a v t) = buddy t" "slab (poke8 a v u) = slab u"
  by (simp_all add: poke8_def)

lemma kmemset_frame [simp, frame_simps]:
  "kmem (kmemset p c n s) = memset (kmem s) p c n" "klog (kmemset p c n s) = klog s"
  "buddy (kmemset p c n t) = buddy t" "slab (kmemset p c n u) = slab u"
  by (simp_all add: kmemset_def)

lemma slab_frame [simp, frame_simps]:
  "slab (poke64 a v s) = slab s" "slab (emit fmt args s) = slab s"
  "slab (set_free_list k p s) = slab s" "slab (add_free_count n s) = slab s"
  by (simp_all add: poke64_def emit_def set_free_list_def add_free_count_def)

lemma mark_pages_slab [simp, frame_simps]: "slab (mark_pages start n v s) = slab s"
  by (induction n arbitrary: start s) (simp_all add: buddy_set_allocated_def Let_def)

section \<open>Addresses inside a page\<close>

definition page_ok :: "u64 \<Rightarrow> bool" where
  "page_ok p \<longleftrightarrow> p \<noteq> 0 \<and> unat p mod 4096 = 0"

lemma page_end: "page_ok p \<Longrightarrow> unat p + 4096 \<le> 2 ^ 64"
proof -
  assume "page_ok p"
  then obtain q where q: "unat p = 4096 * q" by (auto simp: page_ok_def)
  have "4096 * q < 18446744073709551616" unfolding q [symmetric] by simp
  then have "q + 1 \<le> 4503599627370496" by linarith
  then show ?thesis unfolding q by simp
qed

lemma page_offset: "page_ok p \<Longrightarrow> unat k < 4096 \<Longrightarrow> unat (p + k) = unat p + unat k"
  using page_end [of p] by (intro unat_plus64) linarith

lemma page_aligned: "page_ok p \<Longrightarrow> unat k mod 8 = 0 \<Longrightarrow> aligned8 (p + k)"
  by (rule aligned8_add) (auto simp: page_ok_def aligned8_def mod_mod_cancel mod_eq_0_iff_dvd elim: dvd_trans [rotated])

lemma page_region:
  assumes "page_ok p" "unat k + unat n \<le> 4096" "0 < n"
  shows "x \<in> region (p + k) n \<longleftrightarrow> unat p + unat k \<le> unat x \<and> unat x < unat p + unat k + unat n"
proof -
  have "unat k < 4096" using assms(2,3) by (simp add: word_less_nat_alt)
  with assms page_end [OF assms(1)] show ?thesis
    by (subst region_interval) (simp_all add: page_offset)
qed

section \<open>A new slab\<close>

text \<open>The objects a new slab has to offer: all of its page but the first 64 bytes.\<close>

definition slab_objs :: "u64 \<Rightarrow> u64 list" where
  "slab_objs p = map (\<lambda>i. p + of_nat i * 64) [1..<64]"

lemma objs_per_page [simp]: "SLAB_OBJ_SIZE = 64" "SLAB_OBJS_PER_PAGE = 64"
  by (simp_all add: SLAB_OBJ_SIZE_def SLAB_OBJS_PER_PAGE_def)

lemma unat_obj_offset: "i < 64 \<Longrightarrow> unat (of_nat i * 64 :: u64) = 64 * i"
  by (subst unat_mult64) (simp_all add: unat_of_nat64)

lemma obj_region:
  assumes "page_ok p" "i < 64"
  shows "x \<in> region (p + of_nat i * 64) 8 \<longleftrightarrow>
    unat p + 64 * i \<le> unat x \<and> unat x < unat p + 64 * i + 8"
  using page_region [OF assms(1), of "of_nat i * 64" 8] unat_obj_offset [OF assms(2)] assms(2)
  by simp

lemma obj_regions_disjoint:
  assumes "page_ok p" "i < 64" "j < 64" "i \<noteq> j"
  shows "region (p + of_nat i * 64) 8 \<inter> region (p + of_nat j * 64) 8 = {}"
  using obj_region [OF assms(1,2)] obj_region [OF assms(1,3)] assms(4) by fastforce

text \<open>The two stores of the linking loop, with the index written as the object's number.\<close>

lemma slab_link_objs_eq:
  "slab_link_objs p m =
     store64 (for_loop 0 63 (\<lambda>i m. store64 m (p + of_nat (Suc i) * 64) (p + of_nat (Suc (Suc i)) * 64)) m)
       (p + of_nat 63 * 64) 0"
proof -
  have "(of_nat i + 1 :: u64) = of_nat (Suc i)" "(of_nat i + 2 :: u64) = of_nat (Suc (Suc i))" for i
    by (simp_all add: algebra_simps)
  note ix = this
  have n: "unat SLAB_OBJS_PER_PAGE - 1 = 63"
    "SLAB_OBJS_PER_PAGE - 1 = of_nat 63" by simp_all
  show ?thesis unfolding slab_link_objs_def n ix objs_per_page(1) ..
qed

lemma slab_link_next:
  assumes p: "page_ok p" and k: "1 \<le> k" "k < 63"
  shows "load64 (slab_link_objs p m) (p + of_nat k * 64) = p + of_nat (Suc k) * 64"
proof -
  obtain j where j: "k = Suc j" using k(1) by (cases k) auto
  have "load64 (for_loop 0 63 (\<lambda>i m. store64 m (p + of_nat (Suc i) * 64)
            (p + of_nat (Suc (Suc i)) * 64)) m) (p + of_nat (Suc j) * 64) =
      p + of_nat (Suc (Suc j)) * 64"
    using k j by (intro store_loop_inside [where f = "\<lambda>i. p + of_nat (Suc i) * 64" and
          g = "\<lambda>i. p + of_nat (Suc (Suc i)) * 64"] obj_regions_disjoint [OF p]) auto
  moreover have "region (p + of_nat 63 * 64) 8 \<inter> region (p + of_nat k * 64) 8 = {}"
    using k by (intro obj_regions_disjoint [OF p]) auto
  ultimately show ?thesis unfolding slab_link_objs_eq j
    by (simp only: load64_store64_disjoint)
qed

lemma slab_link_last: "load64 (slab_link_objs p m) (p + of_nat 63 * 64) = 0"
  unfolding slab_link_objs_eq by (rule load64_store64)

lemma slab_link_outside:
  assumes p: "page_ok p" and x: "\<And>i. 1 \<le> i \<Longrightarrow> i < 64 \<Longrightarrow> x \<notin> region (p + of_nat i * 64) 8"
  shows "slab_link_objs p m x = m x"
proof -
  have "\<not> x - (p + of_nat 63 * 64) < 8" using x [of 63] by (simp only: in_region) simp
  note out = store64_outside [OF this]
  show ?thesis unfolding slab_link_objs_eq out
    using x by (intro store_loop_byte x) simp_all
qed

lemma slab_link_chain:
  assumes p: "page_ok p" and k: "1 \<le> k" "k < 64"
  shows "chain (load64 (slab_link_objs p m)) (p + of_nat k * 64)
    (map (\<lambda>i. p + of_nat i * 64) [k..<64])"
  using k
proof (induction "63 - k" arbitrary: k)
  case 0
  then have "k = 63" by simp
  have "unat (p + of_nat 63 * 64) \<noteq> 0"
    using page_offset [OF p, of "of_nat 63 * 64"] by (simp add: unat_obj_offset)
  then show ?case using slab_link_last [of p m] \<open>k = 63\<close> by (auto simp: upt_rec)
next
  case (Suc d)
  have "unat (p + of_nat k * 64) \<noteq> 0"
    using page_offset [OF p, of "of_nat k * 64"] Suc.prems Suc.hyps(2)
    by (simp add: unat_obj_offset)
  then have "p + of_nat k * 64 \<noteq> 0" by auto
  moreover have "chain (load64 (slab_link_objs p m)) (p + of_nat (Suc k) * 64)
      (map (\<lambda>i. p + of_nat i * 64) [Suc k..<64])"
    using Suc.hyps(2) Suc.prems by (intro Suc.hyps(1)) auto
  moreover have "[k..<64] = k # [Suc k..<64]" using Suc.prems by (simp add: upt_rec)
  ultimately show ?case using slab_link_next [OF p Suc.prems(1), of m] Suc.hyps(2)
    by (simp del: of_nat_Suc)
qed

text \<open>What \<^verbatim>\<open>slab_new\<close> leaves in the header of the page.\<close>

lemma header_not_obj:
  assumes "page_ok p" "k \<in> {0, 8, 80}" "x \<in> region (p + k) 8" "1 \<le> i" "i < 64"
  shows "x \<notin> region (p + of_nat i * 64) 8"
proof -
  have "unat k + unat (8 :: u64) \<le> 4096" using assms(2) by auto
  with page_region [OF assms(1) this, of x] assms(2,3)
  have "unat p \<le> unat x" "unat x < unat p + 16 \<or> unat p + 80 \<le> unat x \<and> unat x < unat p + 88"
    by auto
  then show ?thesis
    unfolding obj_region [OF assms(1,5)] using assms(4) by (cases "i = 1") auto
qed

lemma slab_link_header:
  assumes "page_ok p" "k \<in> {0, 8, 80}"
  shows "load64 (slab_link_objs p m) (p + k) = load64 m (p + k)"
  by (intro load64_cong slab_link_outside [OF assms(1)] header_not_obj [OF assms])

lemma load64_upd_outside: "a \<notin> region b 8 \<Longrightarrow> load64 (m(a := v)) b = load64 m b"
  by (rule load64_cong) auto

text \<open>The slab list as a linked list through the \<^verbatim>\<open>next\<close> fields of the headers.\<close>

lemma aligned8_80: "aligned8 a \<Longrightarrow> aligned8 (a + 80)"
  by (rule aligned8_add) simp_all

interpretation slabs: link_field slab_next set_slab_next aligned8
  by unfold_locales
    (auto simp: slab_next_def set_slab_next_def aligned8_80 intro: load64_store64_aligned)

text \<open>The two walks on a finite list of slabs are searches in that list.\<close>

definition first_such :: "(u64 \<Rightarrow> bool) \<Rightarrow> u64 list \<Rightarrow> u64" where
  "first_such P as = (case find P as of None \<Rightarrow> 0 | Some a \<Rightarrow> a)"

lemma first_such_simps [simp]:
  "first_such P [] = 0" "first_such P (a # as) = (if P a then a else first_such P as)"
  by (simp_all add: first_such_def)

lemma first_such_none: "(\<And>a. a \<in> set as \<Longrightarrow> \<not> P a) \<Longrightarrow> first_such P as = 0"
  by (induction as) auto

lemma slab_with_free_chain:
  "chain (slab_next m) p as \<Longrightarrow>
     slab_with_free m p = Some (first_such (\<lambda>a. slab_free_list m a \<noteq> 0) as)"
  by (induction as arbitrary: p)
    (simp_all add: slab_with_free.simps [of m 0] slab_with_free.simps [of m "_ :: u64"])

lemma slab_of_chain:
  "chain (slab_next m) p as \<Longrightarrow> slab_of m x p = Some (first_such (in_slab_page m x) as)"
  by (induction as arbitrary: p)
    (simp_all add: slab_of.simps [of m x 0] slab_of.simps [of m x "_ :: u64"])

section \<open>What a new slab looks like\<close>

lemma slab_new_frame [simp, frame_simps]:
  "fst (slab_new p s) = p" "klog (snd (slab_new p s)) = klog s"
  "buddy (snd (slab_new p s)) = buddy s"
  "slab (snd (slab_new p s)) = (slab s)\<lparr>slabs := p, used_objs := used_objs (slab s) + 1,
     total_objs := total_objs (slab s) + 64, total_pages := total_pages (slab s) + 1\<rparr>"
  by (simp_all add: slab_new_def Let_def)

lemma slab_new_mem:
  "kmem (snd (slab_new p s)) =
     (slab_link_objs p (store64 (store64 (store64 (kmem s) p p) (p + 80) (slabs (slab s)))
        (p + 8) (p + 64)))(p + 16 := 1)"
  by (simp add: slab_new_def Let_def set_slab_next_def slab_used_def)

lemma used0_outside:
  assumes "page_ok p"
  shows "p + 16 \<notin> region p 8" "p + 16 \<notin> region (p + 8) 8" "p + 16 \<notin> region (p + 80) 8"
    "1 \<le> i \<Longrightarrow> i < 64 \<Longrightarrow> p + 16 \<notin> region (p + of_nat i * 64) 8"
proof -
  have u: "unat (p + 16) = unat p + 16" using page_offset [OF assms, of 16] by simp
  show "1 \<le> i \<Longrightarrow> i < 64 \<Longrightarrow> p + 16 \<notin> region (p + of_nat i * 64) 8"
    unfolding obj_region [OF assms] u by auto
qed simp_all

lemma header_disjoint:
  assumes "page_ok p" "j \<in> {0, 8, 80}" "k \<in> {0, 8, 80}" "j \<noteq> k"
  shows "load64 (store64 m (p + j) v) (p + k) = load64 m (p + k)"
  using assms page_aligned [OF assms(1)] page_aligned [OF assms(1), of 0]
  by (intro load64_store64_aligned) auto

lemma slab_new_header:
  assumes p: "page_ok p"
  shows "slab_page_phys (kmem (snd (slab_new p s))) p = p"
    "slab_free_list (kmem (snd (slab_new p s))) p = p + 64"
    "slab_next (kmem (snd (slab_new p s))) p = slabs (slab s)"
  using slab_link_header [OF p] header_disjoint [OF p] used0_outside [OF p]
  by (simp_all add: slab_new_mem slab_page_phys_def slab_free_list_def slab_next_def
      load64_upd_outside header_disjoint [OF p, of _ 0, simplified]
      header_disjoint [OF p, of 0, simplified] slab_link_header [OF p, of 0, simplified])

lemma slab_new_objs:
  assumes p: "page_ok p"
  shows "chain (peek64 (snd (slab_new p s))) (p + 64) (slab_objs p)"
proof -
  let ?m = "store64 (store64 (store64 (kmem s) p p) (p + 80) (slabs (slab s))) (p + 8) (p + 64)"
  have "chain (load64 (slab_link_objs p ?m)) (p + 64) (slab_objs p)"
    using slab_link_chain [OF p, of 1 ?m] by (simp add: slab_objs_def)
  moreover have "load64 ((slab_link_objs p ?m)(p + 16 := 1)) a = load64 (slab_link_objs p ?m) a"
    if "a \<in> set (slab_objs p)" for a
    using that used0_outside(4) [OF p] by (auto simp: slab_objs_def intro!: load64_upd_outside)
  ultimately show ?thesis unfolding slab_new_mem by (simp cong: chain_cong)
qed

lemma slab_new_outside:
  assumes p: "page_ok p" and x: "x \<notin> region p 4096"
  shows "kmem (snd (slab_new p s)) x = kmem s x"
proof -
  have x': "\<not> (unat p \<le> unat x \<and> unat x < unat p + 4096)"
    using x page_region [OF p, of 0 4096 x] by simp
  have "x \<notin> region (p + k) 8" if "unat k + 8 \<le> 4096" for k
    using x' page_region [OF p, of k 8 x] that by auto
  note this [of 0] this [of 8] this [of 80]
  moreover have "x \<noteq> p + 16" using x by auto
  moreover have "x \<notin> region (p + of_nat i * 64) 8" if "i < 64" for i
    using x' that unfolding obj_region [OF p that] by auto
  ultimately show ?thesis
    by (simp add: slab_new_mem slab_link_outside [OF p] store64_outside)
qed

end
