(* ===== verification/Cpu.thy ===== *)
theory Cpu
  imports KBase
begin

text \<open>
  The inline assembly of \<^verbatim>\<open>save_context\<close> and \<^verbatim>\<open>restore_context\<close> in \<^verbatim>\<open>lib/process.c\<close>, for
  both processors, as lists of instructions over a register file and memory. The operand
  \<^verbatim>\<open>%0\<close> is the register the compiler picks for the address of the saved registers; it is a
  parameter of each list.
\<close>

section \<open>AArch64\<close>

record arm_cpu =
  xr :: "nat \<Rightarrow> u64"
  sp_el0 :: u64

text \<open>
  \<open>ST t b k\<close> stores register \<open>t\<close> at the address in \<open>b\<close> plus \<open>k\<close>; \<open>LD t b\<close> is the
  load with post-index 8.
\<close>

datatype arm_insn = ST nat nat u64 | LD nat nat | MOV nat nat | MRS_SP nat | MSR_SP nat

fun arm_exec :: "arm_insn \<Rightarrow> arm_cpu \<times> mem \<Rightarrow> arm_cpu \<times> mem" where
  "arm_exec (ST t b k) (c, m) = (c, store64 m (xr c b + k) (xr c t))"
| "arm_exec (LD t b) (c, m) =
     (c\<lparr>xr := (xr c)(t := load64 m (xr c b), b := xr c b + 8)\<rparr>, m)"
| "arm_exec (MOV d a) (c, m) = (c\<lparr>xr := (xr c)(d := xr c a)\<rparr>, m)"
| "arm_exec (MRS_SP d) (c, m) = (c\<lparr>xr := (xr c)(d := sp_el0 c)\<rparr>, m)"
| "arm_exec (MSR_SP a) (c, m) = (c\<lparr>sp_el0 := xr c a\<rparr>, m)"

primrec arm_run :: "arm_insn list \<Rightarrow> arm_cpu \<times> mem \<Rightarrow> arm_cpu \<times> mem" where
  "arm_run [] st = st"
| "arm_run (i # is) st = arm_run is (arm_exec i st)"

definition arm_save :: "nat \<Rightarrow> arm_insn list" where
  "arm_save p =
     [ST 0 p 0, ST 1 p 8, ST 2 p 16, ST 3 p 24, ST 4 p 32, ST 5 p 40, ST 6 p 48,
      ST 7 p 56, ST 8 p 64, ST 9 p 72, ST 10 p 80, ST 11 p 88, ST 12 p 96,
      ST 13 p 104, ST 14 p 112, ST 15 p 120, ST 16 p 128, ST 17 p 136, ST 18 p 144,
      ST 19 p 152, ST 20 p 160, ST 21 p 168, ST 22 p 176, ST 23 p 184, ST 24 p 192,
      ST 25 p 200, ST 26 p 208, ST 27 p 216, ST 28 p 224, ST 29 p 232, ST 30 p 240,
      MRS_SP 1, ST 1 p 248]"

definition arm_restore :: "nat \<Rightarrow> arm_insn list" where
  "arm_restore p =
     [MOV 22 p,
      LD 0 22, LD 1 22, LD 2 22, LD 3 22, LD 4 22, LD 5 22, LD 6 22, LD 7 22,
      LD 8 22, LD 9 22, LD 10 22, LD 11 22, LD 12 22, LD 13 22, LD 14 22, LD 15 22,
      LD 16 22, LD 17 22, LD 18 22, LD 19 22, LD 20 22,
      LD 23 22, MOV 21 23, LD 23 22, MOV 22 23,
      LD 23 22, LD 24 22, LD 25 22, LD 26 22, LD 27 22, LD 28 22, LD 29 22, LD 30 22,
      LD 1 22, MSR_SP 1]"

section \<open>x86-64\<close>

datatype x86_reg = RAX | RBX | RCX | RDX | RSI | RDI | RBP | RSP | R8 | R9 | R10 | R11 | R12
  | R13 | R14 | R15

type_synonym x86_cpu = "x86_reg \<Rightarrow> u64"

text \<open>
  \<open>MOVQ r k b\<close> stores \<open>r\<close> at \<open>k(b)\<close>; \<open>LEAQ d k b\<close> loads the address \<open>k(b)\<close>; \<open>PUSHQ k b\<close>
  pushes the word at \<open>k(b)\<close>; \<open>POPQ r\<close> pops into \<open>r\<close>.
\<close>

datatype x86_insn = MOVQ x86_reg u64 x86_reg | LEAQ x86_reg u64 x86_reg | PUSHQ u64 x86_reg | POPQ x86_reg

fun x86_exec :: "x86_insn \<Rightarrow> x86_cpu \<times> mem \<Rightarrow> x86_cpu \<times> mem" where
  "x86_exec (MOVQ r k b) (c, m) = (c, store64 m (c b + k) (c r))"
| "x86_exec (LEAQ d k b) (c, m) = (c(d := c b + k), m)"
| "x86_exec (PUSHQ k b) (c, m) =
     (c(RSP := c RSP - 8), store64 m (c RSP - 8) (load64 m (c b + k)))"
| "x86_exec (POPQ r) (c, m) = (c(RSP := c RSP + 8, r := load64 m (c RSP)), m)"

primrec x86_run :: "x86_insn list \<Rightarrow> x86_cpu \<times> mem \<Rightarrow> x86_cpu \<times> mem" where
  "x86_run [] st = st"
| "x86_run (i # is) st = x86_run is (x86_exec i st)"

definition x86_save :: "x86_reg \<Rightarrow> x86_insn list" where
  "x86_save p =
     [MOVQ RAX 0 p, MOVQ RBX 8 p, MOVQ RCX 16 p, MOVQ RDX 24 p, MOVQ RSI 32 p, MOVQ RDI 40 p,
      MOVQ RBP 48 p, MOVQ R8 56 p, MOVQ R9 64 p, MOVQ R10 72 p, MOVQ R11 80 p, MOVQ R12 88 p,
      MOVQ R13 96 p, MOVQ R14 104 p, MOVQ R15 112 p, LEAQ RAX 8 RSP, MOVQ RAX 120 p]"

definition x86_restore :: "x86_reg \<Rightarrow> x86_insn list" where
  "x86_restore p =
     [PUSHQ 112 p, PUSHQ 104 p, PUSHQ 96 p, PUSHQ 88 p, PUSHQ 80 p, PUSHQ 72 p, PUSHQ 64 p,
      PUSHQ 56 p, PUSHQ 40 p, PUSHQ 32 p, PUSHQ 48 p, PUSHQ 16 p, PUSHQ 24 p, PUSHQ 8 p,
      PUSHQ 0 p,
      POPQ RAX, POPQ RBX, POPQ RDX, POPQ RCX, POPQ RBP, POPQ RSI, POPQ RDI, POPQ R8, POPQ R9,
      POPQ R10, POPQ R11, POPQ R12, POPQ R13, POPQ R14, POPQ R15]"

section \<open>Saving on AArch64\<close>

lemma arm_run_append: "arm_run (xs @ ys) st = arm_run ys (arm_run xs st)"
  by (induction xs arbitrary: st) simp_all

lemma arm_run_stores:
  "arm_run (map (\<lambda>k. ST k p (8 * of_nat k)) [0..<n]) (c, m) =
     (c, for_loop 0 n (\<lambda>i m. store64 m (xr c p + 8 * of_nat i) (xr c i)) m)"
  by (induction n) (simp_all add: arm_run_append for_loop_snoc del: for_loop.simps(2))

lemma arm_save_eq:
  "arm_save p = map (\<lambda>k. ST k p (8 * of_nat k)) [0..<31] @ [MRS_SP 1, ST 1 p 248]"
  by (simp add: arm_save_def upt_rec)

text \<open>
  The 32 words from the address of the saved registers on: \<open>regs[0]\<close> to \<open>regs[30]\<close>, and the
  word behind the array, which is the field \<^verbatim>\<open>entry\<close>.
\<close>

lemma arm_save_words:
  assumes b: "unat (xr c p) + 256 \<le> 2 ^ 64" and p: "p \<noteq> 1"
  shows "k < 31 \<Longrightarrow> load64 (snd (arm_run (arm_save p) (c, m))) (xr c p + 8 * of_nat k) = xr c k"
    "load64 (snd (arm_run (arm_save p) (c, m))) (xr c p + 248) = sp_el0 c"
    "fst (arm_run (arm_save p) (c, m)) = c\<lparr>xr := (xr c)(1 := sp_el0 c)\<rparr>"
    "\<not> (unat (xr c p) \<le> unat x \<and> unat x < unat (xr c p) + 256) \<Longrightarrow>
       snd (arm_run (arm_save p) (c, m)) x = m x"
proof -
  let ?L = "for_loop 0 31 (\<lambda>i m. store64 m (xr c p + 8 * of_nat i) (xr c i)) m"
  have r: "arm_run (arm_save p) (c, m) =
      (c\<lparr>xr := (xr c)(1 := sp_el0 c)\<rparr>, store64 ?L (xr c p + 8 * of_nat 31) (sp_el0 c))"
    using p by (simp add: arm_save_eq arm_run_append arm_run_stores)
  have b': "unat (xr c p) + 8 * 32 \<le> 2 ^ 64" using b by simp
  note disj = word_regions_disjoint [OF b'] and reg = word_region [OF b']
  show "load64 (snd (arm_run (arm_save p) (c, m))) (xr c p + 248) = sp_el0 c"
    using load64_store64 [of ?L "xr c p + 248" "sp_el0 c"] by (simp add: r)
  show "fst (arm_run (arm_save p) (c, m)) = c\<lparr>xr := (xr c)(1 := sp_el0 c)\<rparr>" by (simp add: r)
  show "load64 (snd (arm_run (arm_save p) (c, m))) (xr c p + 8 * of_nat k) = xr c k" if "k < 31"
  proof -
    have "load64 ?L (xr c p + 8 * of_nat k) = xr c k"
      using that by (intro store_loop_inside [where f = "\<lambda>i. xr c p + 8 * of_nat i" and g = "xr c"] disj) simp_all
    moreover have "region (xr c p + 8 * of_nat 31) 8 \<inter> region (xr c p + 8 * of_nat k) 8 = {}"
      using that by (intro disj) simp_all
    ultimately show ?thesis unfolding r snd_conv by (simp only: load64_store64_disjoint)
  qed
  assume x: "\<not> (unat (xr c p) \<le> unat x \<and> unat x < unat (xr c p) + 256)"
  have o: "x \<notin> region (xr c p + 8 * of_nat i) 8" if "i < 32" for i
    using reg [OF that, of x] x that by auto
  from o [of 31] have "\<not> x - (xr c p + 8 * of_nat 31) < 8" by simp
  note out = store64_outside [OF this]
  show "snd (arm_run (arm_save p) (c, m)) x = m x"
    unfolding r snd_conv out using o by (intro store_loop_byte) simp
qed

section \<open>Restoring on AArch64\<close>

lemma arm_restore_regs:
  fixes c :: arm_cpu and m :: mem and p :: nat
  defines "c' \<equiv> fst (arm_run (arm_restore p) (c, m))"
    and "w22 \<equiv> load64 m (xr c p + 176)"
  shows "k \<in> set (0 # [2..<22]) \<Longrightarrow> xr c' k = load64 m (xr c p + 8 * of_nat k)"
    "k \<in> set [23..<31] \<Longrightarrow> xr c' k = load64 m (w22 + 8 * of_nat (k - 23))"
    "xr c' 1 = load64 m (w22 + 64)" "xr c' 22 = w22 + 72" "sp_el0 c' = load64 m (w22 + 64)"
    "snd (arm_run (arm_restore p) (c, m)) = m"
proof -
  have "xr c' = (xr c)
    (0 := load64 m (xr c p), 2 := load64 m (xr c p + 16), 3 := load64 m (xr c p + 24),
     4 := load64 m (xr c p + 32), 5 := load64 m (xr c p + 40), 6 := load64 m (xr c p + 48),
     7 := load64 m (xr c p + 56), 8 := load64 m (xr c p + 64), 9 := load64 m (xr c p + 72),
     10 := load64 m (xr c p + 80), 11 := load64 m (xr c p + 88), 12 := load64 m (xr c p + 96),
     13 := load64 m (xr c p + 104), 14 := load64 m (xr c p + 112), 15 := load64 m (xr c p + 120),
     16 := load64 m (xr c p + 128), 17 := load64 m (xr c p + 136), 18 := load64 m (xr c p + 144),
     19 := load64 m (xr c p + 152), 20 := load64 m (xr c p + 160), 21 := load64 m (xr c p + 168),
     23 := load64 m w22, 24 := load64 m (w22 + 8), 25 := load64 m (w22 + 16),
     26 := load64 m (w22 + 24), 27 := load64 m (w22 + 32), 28 := load64 m (w22 + 40),
     29 := load64 m (w22 + 48), 30 := load64 m (w22 + 56), 1 := load64 m (w22 + 64),
     22 := w22 + 72)"
    by (simp add: c'_def w22_def arm_restore_def ac_simps)
  note x = this
  show "k \<in> set (0 # [2..<22]) \<Longrightarrow> xr c' k = load64 m (xr c p + 8 * of_nat k)"
    by (auto simp: x upt_rec)
  show "k \<in> set [23..<31] \<Longrightarrow> xr c' k = load64 m (w22 + 8 * of_nat (k - 23))"
    by (auto simp: x upt_rec)
  show "xr c' 1 = load64 m (w22 + 64)" "xr c' 22 = w22 + 72" by (simp_all add: x)
  show "sp_el0 c' = load64 m (w22 + 64)" "snd (arm_run (arm_restore p) (c, m)) = m"
    by (simp_all add: c'_def w22_def arm_restore_def ac_simps)
qed

section \<open>x86-64\<close>

lemma x86_run_append: "x86_run (xs @ ys) st = x86_run ys (x86_run xs st)"
  by (induction xs arbitrary: st) simp_all

text \<open>Where the saved words are: the order of the stores, and of the pushes and pops.\<close>

definition saved_order :: "x86_reg list" where
  "saved_order = [RAX, RBX, RCX, RDX, RSI, RDI, RBP, R8, R9, R10, R11, R12, R13, R14, R15]"

definition slot :: "x86_reg \<Rightarrow> u64" where
  "slot r = (case r of RAX \<Rightarrow> 0 | RBX \<Rightarrow> 8 | RCX \<Rightarrow> 16 | RDX \<Rightarrow> 24 | RSI \<Rightarrow> 32 | RDI \<Rightarrow> 40
     | RBP \<Rightarrow> 48 | R8 \<Rightarrow> 56 | R9 \<Rightarrow> 64 | R10 \<Rightarrow> 72 | R11 \<Rightarrow> 80 | R12 \<Rightarrow> 88 | R13 \<Rightarrow> 96 | R14 \<Rightarrow> 104
     | R15 \<Rightarrow> 112 | RSP \<Rightarrow> 120)"

definition pop_order :: "x86_reg list" where
  "pop_order = [RAX, RBX, RDX, RCX, RBP, RSI, RDI, R8, R9, R10, R11, R12, R13, R14, R15]"

lemma x86_save_eq:
  "x86_save p = map (\<lambda>r. MOVQ r (slot r) p) saved_order @ [LEAQ RAX 8 RSP, MOVQ RAX 120 p]"
  by (simp add: x86_save_def saved_order_def slot_def)

lemma x86_restore_eq:
  "x86_restore p = map (\<lambda>r. PUSHQ (slot r) p) (rev pop_order) @ map POPQ pop_order"
  by (simp add: x86_restore_def pop_order_def slot_def)

lemma slot_inj: "slot r = slot q \<longleftrightarrow> r = q"
  by (cases r; cases q) (simp_all add: slot_def)

lemma slot_props: "slot r \<le> 120" "unat (slot r) mod 8 = 0"
  by (cases r; simp add: slot_def)+

lemma all_but_rsp: "set saved_order = - {RSP}" "set pop_order = - {RSP}" "distinct pop_order"
proof -
  have "UNIV = insert RSP (set saved_order)" "UNIV = insert RSP (set pop_order)"
    using x86_reg.nchotomy by (auto simp: saved_order_def pop_order_def)
  then show "set saved_order = - {RSP}" "set pop_order = - {RSP}"
    by (auto simp: saved_order_def pop_order_def)
qed (simp add: pop_order_def)

lemma x86_stores:
  assumes "aligned8 (c p)" "q \<notin> set rs"
  shows "load64 (snd (x86_run (map (\<lambda>r. MOVQ r (slot r) p) rs) (c, m))) (c p + slot q) =
    load64 m (c p + slot q)"
  using assms(2)
proof (induction rs arbitrary: m)
  case (Cons r rs)
  have "aligned8 (c p + slot r)" "aligned8 (c p + slot q)" "c p + slot r \<noteq> c p + slot q"
    using assms(1) slot_props(2) Cons.prems by (auto intro: aligned8_add simp: slot_inj)
  with Cons show ?case by (simp add: load64_store64_aligned)
qed simp


lemma x86_stores_inside:
  assumes "aligned8 (c p)" "r \<in> set rs" "distinct rs"
  shows "load64 (snd (x86_run (map (\<lambda>r. MOVQ r (slot r) p) rs) (c, m))) (c p + slot r) = c r"
  using assms(2,3)
proof (induction rs arbitrary: m)
  case (Cons q rs)
  then show ?case
    using x86_stores [of c p q rs] assms(1) by (cases "r = q") simp_all
qed simp

lemma x86_stores_cpu: "fst (x86_run (map (\<lambda>r. MOVQ r (slot r) p) rs) (c, m)) = c"
  by (induction rs arbitrary: m) simp_all

lemma x86_save_words:
  assumes "aligned8 (c p)" "p \<noteq> RAX"
  shows "r \<noteq> RSP \<Longrightarrow> load64 (snd (x86_run (x86_save p) (c, m))) (c p + slot r) = c r"
    "load64 (snd (x86_run (x86_save p) (c, m))) (c p + slot RSP) = c RSP + 8"
    "fst (x86_run (x86_save p) (c, m)) = c(RAX := c RSP + 8)"
proof -
  define m1 where "m1 = snd (x86_run (map (\<lambda>r. MOVQ r (slot r) p) saved_order) (c, m))"
  have "x86_run (map (\<lambda>r. MOVQ r (slot r) p) saved_order) (c, m) = (c, m1)"
    by (simp add: m1_def x86_stores_cpu prod_eq_iff)
  then have run: "x86_run (x86_save p) (c, m) =
      (c(RAX := c RSP + 8), store64 m1 (c p + slot RSP) (c RSP + 8))"
    using assms(2) by (simp add: x86_save_eq x86_run_append slot_def [of RSP])
  show "r \<noteq> RSP \<Longrightarrow> load64 (snd (x86_run (x86_save p) (c, m))) (c p + slot r) = c r"
  proof -
    assume r: "r \<noteq> RSP"
    have "aligned8 (c p + slot RSP)" "aligned8 (c p + slot r)" "c p + slot RSP \<noteq> c p + slot r"
      using assms(1) slot_props(2) r by (auto intro: aligned8_add simp: slot_inj)
    moreover have "load64 m1 (c p + slot r) = c r"
      unfolding m1_def using assms(1) r all_but_rsp(1)
      by (intro x86_stores_inside) (auto simp: saved_order_def)
    ultimately show ?thesis by (simp add: run load64_store64_aligned)
  qed
  show "load64 (snd (x86_run (x86_save p) (c, m))) (c p + slot RSP) = c RSP + 8"
    "fst (x86_run (x86_save p) (c, m)) = c(RAX := c RSP + 8)" by (simp_all add: run)
qed

text \<open>The stack below the stack pointer, free for the pushes of the restore.\<close>

definition stack_clear :: "x86_cpu \<Rightarrow> u64 \<Rightarrow> bool" where
  "stack_clear c b \<longleftrightarrow> aligned8 (c RSP) \<and> aligned8 b \<and>
     (\<forall>i<15. \<forall>r. c RSP - 8 * of_nat (Suc i) \<noteq> b + slot r)"

lemma aligned8_below: "aligned8 a \<Longrightarrow> aligned8 (a - 8 * of_nat i)"
proof -
  assume a: "aligned8 a"
  have "a - 8 * of_nat i = a + 8 * (- of_nat i)" by simp
  moreover have "8 dvd unat (8 * (- of_nat i) :: u64)"
    unfolding unat_word_ariths by (simp add: dvd_mod)
  ultimately show ?thesis using aligned8_add [OF a, of "8 * (- of_nat i)"] by (simp add: mod_eq_0_iff_dvd)
qed

lemma stack_words_differ:
  assumes "i < 16" "j < 16" "i \<noteq> j"
  shows "a - 8 * of_nat i \<noteq> (a - 8 * of_nat j :: u64)"
proof
  assume "a - 8 * of_nat i = a - 8 * of_nat j"
  then have "(8 * of_nat i :: u64) = 8 * of_nat j" by simp
  then have "unat (8 * of_nat i :: u64) = unat (8 * of_nat j :: u64)" by simp
  then show False using assms unat_word_offset [of i 16] unat_word_offset [of j 16] by simp
qed

lemma x86_pushes:
  fixes m :: mem
  assumes cl: "stack_clear c (c p)" and p: "p \<noteq> RSP" and len: "length rs \<le> 15"
  defines "st \<equiv> x86_run (map (\<lambda>r. PUSHQ (slot r) p) rs) (c, m)"
  shows "fst st = c(RSP := c RSP - 8 * of_nat (length rs)) \<and>
    (\<forall>i<length rs. load64 (snd st) (c RSP - 8 * of_nat (Suc i)) = load64 m (c p + slot (rs ! i))) \<and>
    (\<forall>q. load64 (snd st) (c p + slot q) = load64 m (c p + slot q))"
  using len unfolding st_def
proof (induction rs rule: rev_induct)
  case (snoc r rs)
  let ?st = "x86_run (map (\<lambda>r. PUSHQ (slot r) p) rs) (c, m)" and ?n = "length rs"
  let ?a = "c RSP - 8 * of_nat (Suc ?n)"
  define m1 where "m1 = snd ?st"
  have "length rs \<le> 15" using snoc.prems by simp
  note IH = snoc.IH [OF this, folded m1_def]
  then have st: "?st = (c(RSP := c RSP - 8 * of_nat ?n), m1)" unfolding m1_def by (metis prod.collapse)
  have w: "\<forall>i<?n. load64 m1 (c RSP - 8 * of_nat (Suc i)) = load64 m (c p + slot (rs ! i))"
    and q: "\<forall>q. load64 m1 (c p + slot q) = load64 m (c p + slot q)"
    using IH by blast+
  have al: "aligned8 (c RSP - 8 * of_nat k)" "aligned8 (c p + slot q)" for k q
    using cl slot_props(2) by (auto simp: stack_clear_def intro: aligned8_below aligned8_add)
  let ?m2 = "store64 m1 ?a (load64 m (c p + slot r))"
  have run: "x86_run (map (\<lambda>r. PUSHQ (slot r) p) (rs @ [r])) (c, m) = (c(RSP := ?a), ?m2)"
    using p q by (simp add: x86_run_append st algebra_simps)
  have "load64 ?m2 (c RSP - 8 * of_nat (Suc i)) = load64 m (c p + slot ((rs @ [r]) ! i))"
    if "i < Suc ?n" for i
  proof (cases "i = ?n")
    case False
    then have "?a \<noteq> c RSP - 8 * of_nat (Suc i)"
      using that snoc.prems by (intro stack_words_differ) auto
    note ld = load64_store64_aligned [OF al(1) al(1) this]
    show ?thesis unfolding ld using w False that by (simp add: nth_append del: of_nat_Suc)
  qed simp
  moreover have "load64 ?m2 (c p + slot s) = load64 m (c p + slot s)" for s
  proof -
    have "?a \<noteq> c p + slot s"
      using cl snoc.prems unfolding stack_clear_def by (auto simp del: of_nat_Suc)
    from load64_store64_aligned [OF al(1,2) this] q show ?thesis by simp
  qed
  ultimately show ?case unfolding run by simp
qed simp

lemma x86_pops:
  assumes "distinct rs" "RSP \<notin> set rs"
  shows "snd (x86_run (map POPQ rs) (c, m)) = m \<and>
    fst (x86_run (map POPQ rs) (c, m)) RSP = c RSP + 8 * of_nat (length rs) \<and>
    (\<forall>i<length rs. fst (x86_run (map POPQ rs) (c, m)) (rs ! i) = load64 m (c RSP + 8 * of_nat i)) \<and>
    (\<forall>r. r \<notin> set rs \<and> r \<noteq> RSP \<longrightarrow> fst (x86_run (map POPQ rs) (c, m)) r = c r)"
  using assms
proof (induction rs arbitrary: c)
  case (Cons r rs)
  let ?c = "c(RSP := c RSP + 8, r := load64 m (c RSP))"
  have r: "r \<noteq> RSP" "r \<notin> set rs" and d: "distinct rs" "RSP \<notin> set rs" using Cons.prems by auto
  have IH: "snd (x86_run (map POPQ rs) (?c, m)) = m"
    "fst (x86_run (map POPQ rs) (?c, m)) RSP = ?c RSP + 8 * of_nat (length rs)"
    "\<forall>i<length rs. fst (x86_run (map POPQ rs) (?c, m)) (rs ! i) = load64 m (?c RSP + 8 * of_nat i)"
    "\<forall>q. q \<notin> set rs \<and> q \<noteq> RSP \<longrightarrow> fst (x86_run (map POPQ rs) (?c, m)) q = ?c q"
    using Cons.IH [OF d, of ?c] by blast+
  have "fst (x86_run (map POPQ rs) (?c, m)) ((r # rs) ! i) = load64 m (c RSP + 8 * of_nat i)"
    if "i < Suc (length rs)" for i
    using that IH(3,4) r by (cases i) (auto simp: algebra_simps)
  moreover have "x86_run (map POPQ (r # rs)) (c, m) = x86_run (map POPQ rs) (?c, m)" by simp
  ultimately show ?case unfolding \<open>x86_run (map POPQ (r # rs)) (c, m) = _\<close>
    using IH(1,2,4) r by (simp add: fun_upd_def algebra_simps)
qed simp


lemma x86_restore_regs:
  assumes cl: "stack_clear c (c p)" and p: "p \<noteq> RSP"
  shows "fst (x86_run (x86_restore p) (c, m)) r =
    (if r = RSP then c RSP else load64 m (c p + slot r))"
proof -
  let ?st = "x86_run (map (\<lambda>r. PUSHQ (slot r) p) (rev pop_order)) (c, m)"
  let ?c = "c(RSP := c RSP - 120)"
  have len: "length pop_order = 15" by (simp add: pop_order_def)
  note P = x86_pushes [OF cl p, of "rev pop_order" m, unfolded length_rev len]
  have st: "?st = (?c, snd ?st)" using P by (simp add: prod_eq_iff)
  have "RSP \<notin> set pop_order" by (simp add: all_but_rsp)
  note Q = x86_pops [OF all_but_rsp(3) this, of ?c "snd ?st", unfolded len]
  have run: "x86_run (x86_restore p) (c, m) = x86_run (map POPQ pop_order) (?c, snd ?st)"
    unfolding x86_restore_eq x86_run_append st [symmetric] ..
  show ?thesis
  proof (cases "r = RSP")
    case True
    with Q run show ?thesis by simp
  next
    case False
    then have "r \<in> set pop_order" using all_but_rsp(2) by auto
    then obtain i where i: "i < 15" "r = pop_order ! i" using len by (metis in_set_conv_nth)
    have a: "c RSP - 120 + 8 * of_nat i = c RSP - 8 * of_nat (Suc (14 - i))"
      using i(1) by (simp add: algebra_simps)
    have "rev pop_order ! (14 - i) = r" "14 - i < 15" using i len by (simp_all add: rev_nth)
    then have "load64 (snd ?st) (c RSP - 120 + 8 * of_nat i) = load64 m (c p + slot r)"
      unfolding a using P [THEN conjunct2, THEN conjunct1, rule_format, of "14 - i"]
      by (simp del: of_nat_Suc of_nat_diff)
    moreover have "fst (x86_run (map POPQ pop_order) (?c, snd ?st)) (pop_order ! i) =
        load64 (snd ?st) (?c RSP + 8 * of_nat i)"
      using Q i(1) by blast
    ultimately show ?thesis using False i(2) run by simp
  qed
qed

section \<open>Properties\<close>

text \<open>
  C21: on x86-64 the registers survive a save and a later restore: whatever the processor
  and the memory outside the saved words have become in between, and whichever registers
  the compiler chose for the operand, restoring brings back every general-purpose register
  as it was, except the stack pointer, which stays what it is at the restore.
\<close>

theorem x86_context_roundtrip:
  assumes "p \<noteq> RAX" "q \<noteq> RSP" "c2 q = c p" "stack_clear c2 (c p)"
    and "\<forall>r. load64 m2 (c p + slot r) = load64 (snd (x86_run (x86_save p) (c, m))) (c p + slot r)"
  shows "fst (x86_run (x86_restore q) (c2, m2)) r = (if r = RSP then c2 RSP else c r)"
proof -
  have "aligned8 (c p)" using assms(4) by (simp add: stack_clear_def)
  with assms(1) have save: "r \<noteq> RSP \<Longrightarrow>
      load64 (snd (x86_run (x86_save p) (c, m))) (c p + slot r) = c r"
    by (intro x86_save_words(1))
  have "stack_clear c2 (c2 q)" using assms(3,4) by simp
  from x86_restore_regs [OF this assms(2), of m2 r] save assms(3,5) show ?thesis by simp
qed

definition demo_x86 :: x86_cpu where
  "demo_x86 r = (if r = RSP then 0x9000 else if r = RDI then 0x2000 else slot r + 7)"

theorem x86_context_roundtrip_witness:
  "fst (x86_run (x86_restore RDI) ((\<lambda>_. 0)(RSP := 0x7000, RDI := 0x2000),
      snd (x86_run (x86_save RDI) (demo_x86, \<lambda>_. 0)))) RBX = 15"
proof -
  let ?c2 = "(\<lambda>_. 0)(RSP := 0x7000, RDI := 0x2000) :: x86_cpu"
  have "0x7000 - 8 * of_nat (Suc i) \<noteq> 0x2000 + slot r" if "i < 15" for i r
  proof
    assume e: "0x7000 - 8 * of_nat (Suc i) = 0x2000 + slot r"
    have "unat (8 * of_nat (Suc i) :: u64) = 8 * Suc i" by (rule unat_word_offset [of _ 16]) (use that in simp_all)
    then have "unat (0x7000 - 8 * of_nat (Suc i) :: u64) = 0x7000 - 8 * Suc i"
      using that by (subst unat_minus64) (simp_all add: word_le_nat_alt)
    moreover have "unat (0x2000 + slot r) = 0x2000 + unat (slot r)" "unat (slot r) \<le> 120"
      using slot_props(1) [of r] by (auto simp: word_le_nat_alt intro!: unat_plus64 [of "0x2000", simplified])
    ultimately have "0x7000 - 8 * Suc i = 0x2000 + unat (slot r)" unfolding e by simp
    with that \<open>unat (slot r) \<le> 120\<close> show False by simp
  qed
  then have "stack_clear ?c2 (demo_x86 RDI)" by (simp add: stack_clear_def demo_x86_def aligned8_def)
  with x86_context_roundtrip [of RDI RDI ?c2 demo_x86 _ "\<lambda>_. 0" RBX] show ?thesis
    by (simp add: demo_x86_def slot_def)
qed


text \<open>
  on AArch64 a save and a later restore bring back \<^verbatim>\<open>x0\<close> and \<^verbatim>\<open>x2\<close> to \<^verbatim>\<open>x21\<close>, but the
  restore then takes the saved value of \<^verbatim>\<open>x22\<close> for the address to go on loading from: \<^verbatim>\<open>x23\<close>
  to \<^verbatim>\<open>x30\<close>, \<^verbatim>\<open>x1\<close> and the stack pointer come from whatever memory that value points to, and
  \<^verbatim>\<open>x22\<close> itself ends up 72 too high.
\<close>

theorem arm_context_roundtrip:
  fixes c c2 :: arm_cpu and m m2 :: mem
  assumes "unat (xr c p) + 256 \<le> 2 ^ 64" "p \<noteq> 1" "xr c2 q = xr c p"
    and "\<forall>k<32. load64 m2 (xr c p + 8 * of_nat k) =
      load64 (snd (arm_run (arm_save p) (c, m))) (xr c p + 8 * of_nat k)"
  defines "c' \<equiv> fst (arm_run (arm_restore q) (c2, m2))"
  shows "(\<forall>k\<in>set (0 # [2..<22]). xr c' k = xr c k) \<and>
    (\<forall>k\<in>set [23..<31]. xr c' k = load64 m2 (xr c 22 + 8 * of_nat (k - 23))) \<and>
    xr c' 22 = xr c 22 + 72 \<and> xr c' 1 = load64 m2 (xr c 22 + 64) \<and>
    sp_el0 c' = load64 m2 (xr c 22 + 64)"
proof -
  have w: "load64 m2 (xr c2 q + 8 * of_nat k) = xr c k" if "k < 31" for k
    using assms(3,4) arm_save_words(1) [OF assms(1,2) that, of m] that by simp
  then have w22: "load64 m2 (xr c2 q + 176) = xr c 22" using w [of 22] by simp
  note r = arm_restore_regs [where c = c2 and m = m2 and p = q, folded c'_def, unfolded w22]
  have "xr c' k = xr c k" if "k \<in> set (0 # [2..<22])" for k
    using r(1) [OF that] w [of k] that by auto
  with r(2-5) show ?thesis by blast
qed

definition demo_arm :: arm_cpu where
  "demo_arm = \<lparr>xr = (\<lambda>k. if k = 19 then 0x2000 else of_nat k + 0x100), sp_el0 = 0x8000\<rparr>"

theorem arm_context_roundtrip_witness:
  "xr (fst (arm_run (arm_restore 19) (demo_arm, snd (arm_run (arm_save 19) (demo_arm, \<lambda>_. 0))))) 5 = 0x105 \<and>
   xr (fst (arm_run (arm_restore 19) (demo_arm, snd (arm_run (arm_save 19) (demo_arm, \<lambda>_. 0))))) 30 =
     load64 (snd (arm_run (arm_save 19) (demo_arm, \<lambda>_. 0))) 0x14E"
proof -
  let ?m = "snd (arm_run (arm_save 19) (demo_arm, \<lambda>_. 0))"
  have d: "xr demo_arm 5 = 0x105" "xr demo_arm 22 = 0x116" by (simp_all add: demo_arm_def)
  have "unat (xr demo_arm 19) + 256 \<le> 2 ^ 64" by (simp add: demo_arm_def)
  note r = arm_context_roundtrip [of demo_arm 19 demo_arm 19 ?m "\<lambda>_. 0", OF this _ refl, simplified, unfolded d]
  have "(5 :: nat) \<in> set (0 # [2..<22])" "(30 :: nat) \<in> set [23..<31]" by simp_all
  with r show ?thesis using d by (simp del: of_nat_diff)
qed

end
