(* ===== verification/Process.thy ===== *)
theory Process
  imports Mm Cpu
begin

text \<open>
  Process management (\<^verbatim>\<open>lib/process.c\<close>): the process table, creation, the scheduler and the
  context switch. A process control block is a record, except for its words \<^verbatim>\<open>regs[0]\<close> to
  \<^verbatim>\<open>regs[30]\<close> and \<^verbatim>\<open>entry\<close>, which the inline assembly addresses and which are kept in memory
  at their offsets. Pointers to control blocks are indices into the table. The other members
  (\<^verbatim>\<open>pid\<close>, \<^verbatim>\<open>ppid\<close>, \<^verbatim>\<open>state\<close>, \<^verbatim>\<open>name\<close> and so on) are fields of the record and have no bytes in the memory of
  the model: a statement about memory says nothing of the bytes inside a control block other than
  those words, and a stack that overlaps the table is outside the model.

  The registers of the state (\<open>arm\<close>, \<open>x86\<close>) are those the assembly blocks read and leave. Compiled C code
  between and after the blocks uses registers too (\<^verbatim>\<open>context_switch\<close> calls \<^verbatim>\<open>printk\<close> after the restore),
  which the model does not follow.
\<close>

section \<open>State\<close>

datatype proc_status = PROC_RUNNING | PROC_SLEEPING | PROC_ZOMBIE | PROC_STOPPED

definition MAX_PROCESSES :: nat where
  "MAX_PROCESSES = 64"

record process_t =
  pid :: int
  ppid :: int
  pstate :: proc_status
  pname :: "u8 list"
  user_stack :: u64
  user_space :: u64
  user_space_size :: u64
  exit_code :: int

definition process_zero :: process_t where
  "process_zero = \<lparr>pid = 0, ppid = 0, pstate = PROC_RUNNING, pname = replicate 16 0, user_stack = 0,
     user_space = 0, user_space_size = 0, exit_code = 0\<rparr>"

text \<open>
  The globals of the file, the address of the table, and the processor. \<open>target\<close> is the
  architecture the kernel is built for, with the registers the compiler picks for the operand
  of the two assembly blocks.
\<close>

datatype target = AArch64 nat nat | X86_64 x86_reg x86_reg

record proc_state = mm_state +
  process_table :: "process_t list"
  table_base :: u64
  current_process :: "nat option"
  next_pid :: int
  last_idx :: nat
  arm :: arm_cpu
  x86 :: x86_cpu

text \<open>
  The layout of \<^verbatim>\<open>process_t\<close>: 8520 bytes, the kernel stack at offset 32, \<^verbatim>\<open>regs\<close> at 8232 and
  \<^verbatim>\<open>entry\<close>, the word after \<^verbatim>\<open>regs[30]\<close>, at 8480.
\<close>

definition process_addr :: "'a proc_state_scheme \<Rightarrow> nat \<Rightarrow> u64" where
  "process_addr s i = table_base s + of_nat i * 8520"

definition regs_addr :: "'a proc_state_scheme \<Rightarrow> nat \<Rightarrow> u64" where
  "regs_addr s i = process_addr s i + 8232"

definition entry_addr :: "'a proc_state_scheme \<Rightarrow> nat \<Rightarrow> u64" where
  "entry_addr s i = process_addr s i + 8480"

abbreviation proc :: "'a proc_state_scheme \<Rightarrow> nat \<Rightarrow> process_t" where
  "proc s i \<equiv> process_table s ! i"

definition upd_proc ::
  "nat \<Rightarrow> (process_t \<Rightarrow> process_t) \<Rightarrow> 'a proc_state_scheme \<Rightarrow> 'a proc_state_scheme" where
  "upd_proc i f s = s\<lparr>process_table := (process_table s)[i := f (proc s i)]\<rparr>"

section \<open>Names\<close>

text \<open>
  \<^verbatim>\<open>strncpy\<close> of the C string \<open>xs\<close> into the array \<open>arr\<close>; the C string in an array, as an
  argument of \<^verbatim>\<open>printk\<close>.
\<close>

definition strncpy_array :: "nat \<Rightarrow> u8 list \<Rightarrow> u8 list \<Rightarrow> u8 list" where
  "strncpy_array n xs arr =
     (let w = (if length xs < n then xs @ replicate (n - length xs + 1) 0 else take n xs)
      in w @ drop (length w) arr)"

definition name_arg :: "process_t \<Rightarrow> va" where
  "name_arg p = VStr (Some (map (\<lambda>b. char_of (unat b)) (takeWhile (\<lambda>b. b \<noteq> 0) (pname p))))"

abbreviation int_arg :: "int \<Rightarrow> va" where
  "int_arg n \<equiv> VWord (of_int n)"

text \<open>The name of a process created without one: the decimal pid, then \<^verbatim>\<open>proc\<close>.\<close>

fun pid_digits :: "nat \<Rightarrow> int \<Rightarrow> u8 list" where
  "pid_digits 0 p = []"
| "pid_digits (Suc n) p = (if 0 < p then of_int (48 + p mod 10) # pid_digits n (p div 10) else [])"

definition pid_name :: "int \<Rightarrow> u8 list" where
  "pid_name p = (let tmp = rev (pid_digits 15 p) in tmp @ take (15 - length tmp) (map of_char ''proc''))"

definition set_name :: "u8 list \<Rightarrow> process_t \<Rightarrow> process_t" where
  "set_name nm p = p\<lparr>pname := (strncpy_array 15 nm (pname p))[15 := 0]\<rparr>"

section \<open>Saving and restoring\<close>

text \<open>The compiler loads the address of \<^verbatim>\<open>regs\<close> into the operand register first.\<close>

definition save_context :: "target \<Rightarrow> nat \<Rightarrow> 'a proc_state_scheme \<Rightarrow> 'a proc_state_scheme" where
  "save_context T i s =
     (case T of
        AArch64 r _ \<Rightarrow>
          let c = (arm s)\<lparr>xr := (xr (arm s))(r := regs_addr s i)\<rparr>;
              (c', m') = arm_run (arm_save r) (c, kmem s)
          in s\<lparr>arm := c', kmem := m'\<rparr>
      | X86_64 r _ \<Rightarrow>
          let (c', m') = x86_run (x86_save r) ((x86 s)(r := regs_addr s i), kmem s)
          in s\<lparr>x86 := c', kmem := m'\<rparr>)"

definition restore_context :: "target \<Rightarrow> nat \<Rightarrow> 'a proc_state_scheme \<Rightarrow> 'a proc_state_scheme" where
  "restore_context T i s =
     (case T of
        AArch64 _ r \<Rightarrow>
          let c = (arm s)\<lparr>xr := (xr (arm s))(r := regs_addr s i)\<rparr>;
              (c', m') = arm_run (arm_restore r) (c, kmem s)
          in s\<lparr>arm := c', kmem := m'\<rparr>
      | X86_64 _ r \<Rightarrow>
          let (c', m') = x86_run (x86_restore r) ((x86 s)(r := regs_addr s i), kmem s)
          in s\<lparr>x86 := c', kmem := m'\<rparr>)"

definition setup_context :: "nat \<Rightarrow> 'a proc_state_scheme \<Rightarrow> 'a proc_state_scheme" where
  "setup_context i s =
     (let s1 = kmemset (regs_addr s i) 0 248 s;
          s2 = poke64 (regs_addr s1 i) (peek64 s1 (entry_addr s1 i)) s1;
          s3 = poke64 (regs_addr s2 i + 240) (peek64 s2 (entry_addr s2 i)) s2;
          s4 = (if user_space (proc s3 i) \<noteq> 0 then
                  let us = ((user_space (proc s3 i) + user_space_size (proc s3 i)) AND NOT 7) - 16;
                      t1 = upd_proc i (user_stack_update (\<lambda>_. us)) s3;
                      t2 = poke64 (us + 8) 0 t1
                  in poke64 us (peek64 t2 (entry_addr t2 i)) t2
                else upd_proc i (user_stack_update (\<lambda>_. process_addr s3 i + 32 + 8192)) s3)
      in emit ''[CTX] Setup context for pid %d ('%s'), entry=%p, stack=%p\<newline>''
           [int_arg (pid (proc s4 i)), name_arg (proc s4 i), VWord (peek64 s4 (entry_addr s4 i)),
            VWord (user_stack (proc s4 i))] s4)"

section \<open>Creation\<close>

text \<open>The zeroed frame below the top of the new stack: 30 words under the entry point.\<close>

fun zero_down :: "nat \<Rightarrow> u64 \<Rightarrow> 'a kbase_scheme \<Rightarrow> 'a kbase_scheme" where
  "zero_down 0 stk s = s"
| "zero_down (Suc n) stk s = zero_down n (stk - 8) (poke64 (stk - 8) 0 s)"

definition find_slot :: "process_t list \<Rightarrow> nat option" where
  "find_slot ps = find (\<lambda>i. pid (ps ! i) = 0) [0..<MAX_PROCESSES]"

definition create_process ::
  "u64 \<Rightarrow> u64 \<Rightarrow> u64 \<Rightarrow> u8 list option \<Rightarrow> 'a proc_state_scheme \<Rightarrow> nat option \<times> 'a proc_state_scheme" where
  "create_process entry stack stack_size name s =
     (case find_slot (process_table s) of
        None \<Rightarrow> (None, emit ''[PROC] Cannot create process: table full\<newline>'' [] s)
      | Some i \<Rightarrow>
          let s1 = upd_proc i (pid_update (\<lambda>_. next_pid s)) (s\<lparr>next_pid := next_pid s + 1\<rparr>);
              s2 = upd_proc i (ppid_update (\<lambda>_. case current_process s1 of None \<Rightarrow> 0 | Some c \<Rightarrow> pid (proc s1 c))) s1;
              s3 = upd_proc i (pstate_update (\<lambda>_. PROC_RUNNING)) s2;
              s4 = poke64 (entry_addr s3 i) entry s3;
              s5 = upd_proc i (\<lambda>p. p\<lparr>user_space := stack, user_space_size := stack_size, exit_code := 0\<rparr>) s4;
              s6 = upd_proc i (\<lambda>p. set_name (case name of Some nm \<Rightarrow> nm | None \<Rightarrow> pid_name (pid p)) p) s5;
              s7 = (if stack \<noteq> 0 \<and> 0 < stack_size then
                      let stk = stack + stack_size - 256;
                          t1 = zero_down 30 stk (poke64 stk entry s6);
                          t2 = upd_proc i (user_stack_update (\<lambda>_. stack + stack_size)) t1;
                          t3 = poke64 (regs_addr t2 i) entry t2
                      in poke64 (regs_addr t3 i + 240) 0 t3
                    else s6)
          in (Some i, emit ''[PROC] Created process '%s' (pid=%d, entry=%p)\<newline>''
                        [name_arg (proc s7 i), int_arg (pid (proc s7 i)), VWord entry] s7))"

section \<open>The scheduler\<close>

definition context_switch ::
  "target \<Rightarrow> nat option \<Rightarrow> nat option \<Rightarrow> 'a proc_state_scheme \<Rightarrow> 'a proc_state_scheme" where
  "context_switch T prev nxt s =
     (if prev = None \<and> nxt = None then emit ''[CTX] Both prev and next are NULL!\<newline>'' [] s
      else
        let s1 = (case prev of
                    None \<Rightarrow> s
                  | Some p \<Rightarrow>
                      let t1 = save_context T p s;
                          t2 = upd_proc p (pstate_update (\<lambda>_. PROC_SLEEPING)) t1
                      in emit ''[CTX] Saved context for pid %d ('%s')\<newline>''
                           [int_arg (pid (proc t2 p)), name_arg (proc t2 p)] t2);
            s2 = (case nxt of
                    None \<Rightarrow> s1
                  | Some n \<Rightarrow>
                      let t1 = (if pstate (proc s1 n) \<noteq> PROC_RUNNING then setup_context n s1 else s1);
                          t2 = upd_proc n (pstate_update (\<lambda>_. PROC_RUNNING)) t1;
                          t3 = restore_context T n t2
                      in emit ''[CTX] Restored context for pid %d ('%s')\<newline>''
                           [int_arg (pid (proc t3 n)), name_arg (proc t3 n)] t3)
        in s2\<lparr>current_process := nxt\<rparr>)"

text \<open>The circular scan from the slot after \<^verbatim>\<open>last_idx\<close>.\<close>

definition runnable :: "process_t \<Rightarrow> bool" where
  "runnable p \<longleftrightarrow> pid p \<noteq> 0 \<and> pstate p = PROC_RUNNING"

definition next_runnable :: "process_t list \<Rightarrow> nat \<Rightarrow> nat option" where
  "next_runnable ps lst =
     find (\<lambda>idx. runnable (ps ! idx)) (map (\<lambda>i. (lst + i) mod MAX_PROCESSES) [1..<Suc MAX_PROCESSES])"

definition schedule :: "target \<Rightarrow> 'a proc_state_scheme \<Rightarrow> 'a proc_state_scheme" where
  "schedule T s =
     (case current_process s of
        None \<Rightarrow> emit ''[SCHED] No current process, skipping schedule\<newline>'' [] s
      | Some c \<Rightarrow>
          (case next_runnable (process_table s) (last_idx s) of
             None \<Rightarrow> emit ''[SCHED] No runnable processes!\<newline>'' [] s
           | Some n \<Rightarrow>
               let s1 = s\<lparr>last_idx := n\<rparr> in
               if n = c then s1
               else
                 context_switch T (Some c) (Some n)
                   (emit ''[SCHED] Switching from pid %d ('%s') to pid %d ('%s')\<newline>''
                      [int_arg (pid (proc s1 c)), name_arg (proc s1 c),
                       int_arg (pid (proc s1 n)), name_arg (proc s1 n)] s1)))"

section \<open>The init process\<close>

text \<open>\<open>init_entry\<close> is the address of the function \<^verbatim>\<open>init_process\<close> itself.\<close>

definition init_process :: "target \<Rightarrow> u64 \<Rightarrow> 'a proc_state_scheme \<Rightarrow> 'a proc_state_scheme" where
  "init_process T init_entry s =
     (let s1 = emit ''[INIT] Creating init process...\<newline>'' [] s;
          s2 = upd_proc 0 (\<lambda>p. p\<lparr>pid := 1, ppid := 0, pstate := PROC_RUNNING\<rparr>) s1;
          s3 = poke64 (entry_addr s2 0) init_entry s2;
          s4 = upd_proc 0 (\<lambda>p. p\<lparr>user_space := 0, user_space_size := 0, exit_code := 0,
                                 pname := strncpy_array 15 (map of_char ''init'') (pname p)\<rparr>) s3;
          s5 = setup_context 0 s4;
          s6 = s5\<lparr>current_process := Some 0\<rparr>;
          s7 = emit ''[INIT] Init process started (pid=1, '%s')\<newline>'' [name_arg (proc s6 0)] s6;
          s8 = emit ''[INIT] Waiting for init to complete...\<newline>'' [] s7;
          s9 = for_loop 0 10 (\<lambda>i s. schedule T (emit ''[INIT] Init tick %d\<newline>'' [int_arg (int i)] s)) s8
      in emit ''[INIT] Init completed\<newline>'' [] s9)"

definition usr_init :: "'a proc_state_scheme \<Rightarrow> 'a proc_state_scheme" where
  "usr_init s = emit ''[USR] User space initialized.\<newline>'' [] s"

end
