(* ===== verification/Format.thy ===== *)
theory Format
  imports KBase CString "HOL-Library.Char_ord"
begin

text \<open>
  The formatted output of \<^verbatim>\<open>lib/string.c\<close> (lines 179 to 319): \<^verbatim>\<open>vsprintf\<close> and the functions on
  top of it. The format string and the string arguments are character lists without
  their terminator; the buffer written to is memory.
\<close>

section \<open>Errors\<close>

text \<open>
  What makes the behaviour of a call undefined: reading the format string beyond its
  terminator, an argument that is missing or of the wrong kind, overflow of a signed integer, writing over
  the end of an array.
\<close>

datatype fmt_error = FmtOverrun | VaExhausted | VaType | SignedOverflow | BufOverrun

text \<open>\<^verbatim>\<open>VA_ARG\<close> for an integer and for a string pointer.\<close>

fun va_word :: "va list \<Rightarrow> fmt_error + u64 \<times> va list" where
  "va_word (VWord w # ap) = Inr (w, ap)"
| "va_word (VStr s # ap) = Inl VaType"
| "va_word [] = Inl VaExhausted"

fun va_string :: "va list \<Rightarrow> fmt_error + string option \<times> va list" where
  "va_string (VStr s # ap) = Inr (s, ap)"
| "va_string (VWord w # ap) = (if w = 0 then Inr (None, ap) else Inl VaType)"
| "va_string [] = Inl VaExhausted"

section \<open>Digits\<close>

text \<open>\<^verbatim>\<open>'0' + d\<close>, and the hexadecimal digit of \<open>d\<close>.\<close>

definition dec_char :: "u64 \<Rightarrow> char" where
  "dec_char d = char_of (48 + unat d)"

definition hex_char :: "u64 \<Rightarrow> char" where
  "hex_char d = (if d < 10 then char_of (48 + unat d) else char_of (97 + unat d - 10))"

text \<open>
  The \<^verbatim>\<open>do ... while\<close> loops that fill a local buffer from its end: \<open>room\<close> is the distance
  of \<^verbatim>\<open>bp\<close> from the start of the buffer and \<open>acc\<close> what is already there.
\<close>

fun dec_loop :: "nat \<Rightarrow> u64 \<Rightarrow> string \<Rightarrow> string" where
  "dec_loop 0 val acc = acc"
| "dec_loop (Suc room) val acc =
     (let acc' = dec_char (val mod 10) # acc; val' = val div 10 in
      if 0 < val' \<and> 0 < room then dec_loop room val' acc' else acc')"

fun hex_loop :: "nat \<Rightarrow> u64 \<Rightarrow> string \<Rightarrow> string" where
  "hex_loop 0 val acc = acc"
| "hex_loop (Suc room) val acc =
     (let acc' = hex_char (val AND 0xF) # acc; val' = drop_bit 4 val in
      if 0 < val' \<and> 0 < room then hex_loop room val' acc' else acc')"

text \<open>The two constant loops of \<^verbatim>\<open>%p\<close>: eight digits from bit 28 downwards.\<close>

fun ptr_loop :: "nat \<Rightarrow> u64 \<Rightarrow> string \<Rightarrow> string" where
  "ptr_loop 0 val out = out"
| "ptr_loop (Suc n) val out =
     (if 1023 \<le> length out then out
      else ptr_loop n val (out @ [hex_char (drop_bit (4 * n) val AND 0xF)]))"

section \<open>\<^verbatim>\<open>vsprintf\<close>\<close>

text \<open>
  Copying a piece into the buffer, cut off at offset 1023; \<open>out\<close> is what is in the buffer
  so far, so its length is the index \<^verbatim>\<open>i\<close>.
\<close>

definition put_piece :: "string \<Rightarrow> string \<Rightarrow> string" where
  "put_piece out s = out @ (if 1023 < length out + length s then take (1023 - length out) s else s)"

text \<open>One conversion: \<open>c\<close> is the character after the percent sign.\<close>

definition conv :: "char \<Rightarrow> va list \<Rightarrow> string \<Rightarrow> fmt_error + string \<times> va list" where
  "conv c ap out =
     (if c = CHR ''s'' then
        (case va_string ap of
           Inl e \<Rightarrow> Inl e
         | Inr (s, ap') \<Rightarrow>
             Inr (put_piece out (case s of None \<Rightarrow> ''(null)'' | Some t \<Rightarrow> t), ap'))
      else if c = CHR ''d'' \<or> c = CHR ''i'' then
        (case va_word ap of
           Inl e \<Rightarrow> Inl e
         | Inr (w, ap') \<Rightarrow>
             if w = push_bit 63 1 then Inl SignedOverflow
             else if sint w < 0 then Inr (put_piece out (CHR ''-'' # dec_loop 31 (- w) []), ap')
             else Inr (put_piece out (dec_loop 31 w []), ap'))
      else if c = CHR ''u'' then
        (case va_word ap of
           Inl e \<Rightarrow> Inl e
         | Inr (w, ap') \<Rightarrow> Inr (put_piece out (dec_loop 31 w []), ap'))
      else if c = CHR ''x'' \<or> c = CHR ''X'' then
        (case va_word ap of
           Inl e \<Rightarrow> Inl e
         | Inr (w, ap') \<Rightarrow> Inr (put_piece out (hex_loop 31 w []), ap'))
      else if c = CHR ''p'' then
        (case va_word ap of
           Inl e \<Rightarrow> Inl e
         | Inr (w, ap') \<Rightarrow>
             Inr (ptr_loop 8 w (if length out + 2 \<le> 1023 then out @ ''0x'' else out), ap'))
      else if c = CHR ''c'' then
        (case va_word ap of
           Inl e \<Rightarrow> Inl e
         | Inr (w, ap') \<Rightarrow> Inr (out @ [char_of (unat w mod 256)], ap'))
      else if c = CHR ''%'' then Inr (out @ ''%'', ap)
      else Inr (out @ [CHR ''%'', c], ap))"

fun vsprintf_loop :: "string \<Rightarrow> va list \<Rightarrow> string \<Rightarrow> fmt_error + string" where
  "vsprintf_loop [] ap out = Inr out"
| "vsprintf_loop (c # p) ap out =
     (if 1023 \<le> length out then Inr out
      else if c = CHR ''%'' then
        (case p of
           [] \<Rightarrow> Inl FmtOverrun
         | d # p' \<Rightarrow>
             (case conv d ap out of Inl e \<Rightarrow> Inl e | Inr (out', ap') \<Rightarrow> vsprintf_loop p' ap' out'))
      else vsprintf_loop p ap (out @ [c]))"

text \<open>
  \<^verbatim>\<open>vsprintf\<close> writes the pieces one after the other from \<open>str\<close> on, and then the terminator
  at the index, cut off at 1023.
\<close>

definition vsprintf :: "mem \<Rightarrow> u64 \<Rightarrow> string \<Rightarrow> va list \<Rightarrow> fmt_error + mem \<times> nat" where
  "vsprintf m str fmt ap =
     (case vsprintf_loop fmt ap [] of
        Inl e \<Rightarrow> Inl e
      | Inr out \<Rightarrow>
          let m' = write_bytes m str (map of_char out);
              i = (if 1023 < length out then 1023 else length out)
          in Inr (m'(str + of_nat i := 0), i))"

definition vsnprintf :: "mem \<Rightarrow> u64 \<Rightarrow> u64 \<Rightarrow> string \<Rightarrow> va list \<Rightarrow> fmt_error + mem \<times> nat" where
  "vsnprintf m str sz fmt ap =
     (if sz = 0 then Inr (m, 0)
      else case vsprintf m str fmt ap of
             Inl e \<Rightarrow> Inl e
           | Inr (m', ret) \<Rightarrow>
               if unat sz \<le> ret then Inr (m'(str + (sz - 1) := 0), unat sz - 1)
               else Inr (m', ret))"

definition sprintf :: "mem \<Rightarrow> u64 \<Rightarrow> string \<Rightarrow> va list \<Rightarrow> fmt_error + mem \<times> nat" where
  "sprintf m str fmt args = vsprintf m str fmt args"

definition snprintf :: "mem \<Rightarrow> u64 \<Rightarrow> u64 \<Rightarrow> string \<Rightarrow> va list \<Rightarrow> fmt_error + mem \<times> nat" where
  "snprintf m str sz fmt args = vsnprintf m str sz fmt args"

section \<open>What the digits denote\<close>

abbreviation bytes :: "string \<Rightarrow> u8 list" where
  "bytes xs \<equiv> map of_char xs"

lemma dec_value_append: "dec_value a (xs @ ys) = dec_value (dec_value a xs) ys"
  by (induction xs arbitrary: a) simp_all

lemma of_char_small: "n < 256 \<Longrightarrow> (of_char (char_of n :: char) :: u8) = of_nat n"
  by (metis of_nat_of_char of_char_of mod_less)

lemma dec_char_digit:
  assumes "d < 10"
  shows "is_digit (of_char (dec_char d))" "unat (of_char (dec_char d) :: u8) = 48 + unat d"
proof -
  have d: "unat d < 10" using assms by (simp add: word_less_nat_alt)
  then have b: "(of_char (dec_char d) :: u8) = of_nat (48 + unat d)"
    unfolding dec_char_def by (intro of_char_small) simp
  have u: "unat (of_nat (48 + unat d) :: u8) = 48 + unat d"
    using d by (subst unat_of_nat) (simp add: take_bit_nat_eq_self)
  show "unat (of_char (dec_char d) :: u8) = 48 + unat d" unfolding b u ..
  show "is_digit (of_char (dec_char d))" unfolding b is_digit_def word_le_nat_alt u using d by simp
qed

text \<open>
  A decimal numeral of \<open>n\<close>: digits only, not empty, of value \<open>n\<close>, and without a leading
  zero unless it is the numeral \<open>0\<close>.
\<close>

definition numeral_of :: "nat \<Rightarrow> string \<Rightarrow> bool" where
  "numeral_of n ds \<longleftrightarrow> ds \<noteq> [] \<and> (\<forall>c\<in>set (bytes ds). is_digit c) \<and>
     dec_value 0 (bytes ds) = n \<and> (hd ds = CHR ''0'' \<longrightarrow> ds = ''0'')"

lemma dec_char_zero: "d < 10 \<Longrightarrow> dec_char d = CHR ''0'' \<longleftrightarrow> d = 0"
proof -
  assume d: "d < 10"
  have "dec_char d = CHR ''0'' \<longleftrightarrow> (of_char (dec_char d) :: nat) = of_char (CHR ''0'')"
    by (simp only: of_char_eq_iff)
  also have "\<dots> \<longleftrightarrow> unat d = 0" using d by (simp add: dec_char_def word_less_nat_alt)
  finally show ?thesis by (simp add: unat_eq_0)
qed

lemma numeral_of_digit: "d < 10 \<Longrightarrow> numeral_of (unat d) [dec_char d]"
  using dec_char_digit [of d] by (auto simp: numeral_of_def)

lemma numeral_of_snoc:
  assumes "numeral_of n ds" "0 < n" "d < 10"
  shows "numeral_of (10 * n + unat d) (ds @ [dec_char d])"
  using assms dec_char_digit [OF assms(3)]
  by (auto simp: numeral_of_def dec_value_append)

lemma unat_div10: "unat (v div 10 :: u64) = unat v div 10" "unat (v mod 10 :: u64) = unat v mod 10"
  by (simp_all add: unat_div_distrib unat_mod_distrib)

lemma dec_loop_numeral:
  assumes "unat val < 10 ^ room" "0 < room"
  shows "\<exists>ds. dec_loop room val acc = ds @ acc \<and> numeral_of (unat val) ds \<and> length ds \<le> room"
  using assms
proof (induction room arbitrary: val acc)
  case (Suc room)
  have d: "val mod 10 < 10" by (simp add: word_less_nat_alt unat_div10)
  show ?case
  proof (cases "0 < val div 10 \<and> 0 < room")
    case True
    have "unat (val div 10) < 10 ^ room" using Suc.prems(1) by (simp add: unat_div10 div_less_iff_less_mult ac_simps)
    with True Suc.IH [of "val div 10" "dec_char (val mod 10) # acc"]
    obtain ds where ds: "dec_loop room (val div 10) (dec_char (val mod 10) # acc) =
        ds @ dec_char (val mod 10) # acc" "numeral_of (unat (val div 10)) ds" "length ds \<le> room"
      by auto
    have "0 < unat (val div 10)" using True by (simp add: word_less_nat_alt)
    from numeral_of_snoc [OF ds(2) this d] have "numeral_of (unat val) (ds @ [dec_char (val mod 10)])"
      by (simp add: unat_div10)
    with True ds show ?thesis by (auto simp: Let_def intro!: exI [of _ "ds @ [dec_char (val mod 10)]"])
  next
    case False
    have "unat val div 10 = 0"
    proof (cases "room = 0")
      case True
      with Suc.prems(1) show ?thesis by simp
    next
      case nz: False
      with False have "unat (val div 10) = 0" by (simp add: word_less_nat_alt)
      then show ?thesis by (simp add: unat_div10)
    qed
    then have "unat (val mod 10) = unat val" by (simp add: unat_div10)
    with numeral_of_digit [OF d] False show ?thesis
      by (auto simp: Let_def intro!: exI [of _ "[dec_char (val mod 10)]"])
  qed
qed simp

lemma dec_loop_word: "numeral_of (unat val) (dec_loop 31 val []) \<and> length (dec_loop 31 val []) \<le> 31"
proof -
  have "unat val < 10 ^ 31"
    using unat_less_2p64 [of val] by (rule less_trans) simp
  from dec_loop_numeral [OF this, of "[]"] show ?thesis by auto
qed

end
