(* ===== verification/Uart.thy ===== *)
theory Uart
  imports Prelude "HOL-Library.Char_ord"
begin

text \<open>
  The two serial drivers of \<^verbatim>\<open>lib/printk.c\<close> (lines 17 to 196): the PL011 of the ARM machine,
  whose registers are memory, and the 16550 of the PC, behind I/O ports. What a device
  answers to a volatile read is a parameter: the value each access of a run returns. Busy
  waiting on a device that never gets ready does not return, which is the value \<open>None\<close>.
\<close>

section \<open>Device accesses\<close>

record ('r, 'v) dev =
  reads :: "nat \<Rightarrow> 'r \<Rightarrow> 'v"
  nread :: nat
  writes :: "('r \<times> 'v) list"

definition dev_read :: "'r \<Rightarrow> ('r, 'v, 'z) dev_scheme \<Rightarrow> 'v \<times> ('r, 'v, 'z) dev_scheme" where
  "dev_read r d = (reads d (nread d) r, d\<lparr>nread := Suc (nread d)\<rparr>)"

definition dev_write :: "'r \<Rightarrow> 'v \<Rightarrow> ('r, 'v, 'z) dev_scheme \<Rightarrow> ('r, 'v, 'z) dev_scheme" where
  "dev_write r v d = d\<lparr>writes := writes d @ [(r, v)]\<rparr>"

text \<open>\<^verbatim>\<open>while (busy(read(r))) ;\<close>\<close>

partial_function (option) wait_while ::
  "('v \<Rightarrow> bool) \<Rightarrow> 'r \<Rightarrow> ('r, 'v, 'z) dev_scheme \<Rightarrow> ('r, 'v, 'z) dev_scheme option" where
  "wait_while busy r d =
     (let (v, d') = dev_read r d in if busy v then wait_while busy r d' else Some d')"

section \<open>PL011\<close>

definition UART_BASE :: u64 where "UART_BASE = 0x09000000"
definition UART_DR :: u64 where "UART_DR = 0x000"
definition UART_FR :: u64 where "UART_FR = 0x018"
definition UART_CR :: u64 where "UART_CR = 0x030"
definition UART_IMSC :: u64 where "UART_IMSC = 0x038"
definition UART_ICR :: u64 where "UART_ICR = 0x044"
definition UART_FR_TXFF :: u32 where "UART_FR_TXFF = push_bit 5 1"
definition UART_FR_RXFE :: u32 where "UART_FR_RXFE = push_bit 4 1"
definition UART_FR_BUSY :: u32 where "UART_FR_BUSY = push_bit 3 1"
definition UART_CR_UARTEN :: u32 where "UART_CR_UARTEN = push_bit 0 1"
definition UART_CR_TXE :: u32 where "UART_CR_TXE = push_bit 9 1"
definition UART_CR_RXE :: u32 where "UART_CR_RXE = push_bit 8 1"

lemmas pl011_regs = UART_BASE_def UART_DR_def UART_FR_def UART_CR_def UART_IMSC_def UART_ICR_def

text \<open>The driver's state: the device and the global \<^verbatim>\<open>uart_base\<close>.\<close>

record pl011 = "(u64, u32) dev" +
  uart_base :: u64

definition uart_reg :: "pl011 \<Rightarrow> u64 \<Rightarrow> u64" where
  "uart_reg d reg = uart_base d + 4 * drop_bit 2 reg"

definition uart_read :: "u64 \<Rightarrow> pl011 \<Rightarrow> u32 \<times> pl011" where
  "uart_read reg d = dev_read (uart_reg d reg) d"

definition uart_write :: "u64 \<Rightarrow> u32 \<Rightarrow> pl011 \<Rightarrow> pl011" where
  "uart_write reg val d = dev_write (uart_reg d reg) val d"

definition uart_wait :: "u64 \<Rightarrow> u32 \<Rightarrow> pl011 \<Rightarrow> pl011 option" where
  "uart_wait reg bits d = wait_while (\<lambda>v. v AND bits \<noteq> 0) (uart_reg d reg) d"

definition pl011_init :: "pl011 \<Rightarrow> pl011 option" where
  "pl011_init d =
     map_option
       (\<lambda>d. uart_write UART_CR (UART_CR_UARTEN OR UART_CR_TXE OR UART_CR_RXE)
             (uart_write UART_ICR 0x7FF (uart_write UART_IMSC 0 (uart_write UART_CR 0 d))))
       (uart_wait UART_FR UART_FR_BUSY (d\<lparr>uart_base := UART_BASE\<rparr>))"

definition pl011_ensure :: "pl011 \<Rightarrow> pl011 option" where
  "pl011_ensure d = (if uart_base d = 0 then pl011_init d else Some d)"

definition pl011_putc :: "char \<Rightarrow> pl011 \<Rightarrow> pl011 option" where
  "pl011_putc c d =
     Option.bind (pl011_ensure d) (\<lambda>d.
     Option.bind (uart_wait UART_FR UART_FR_TXFF d) (\<lambda>d.
     Option.bind
       (if c = CHR 0x0A then
          map_option (uart_write UART_DR 0x0D) (uart_wait UART_FR UART_FR_TXFF d)
        else Some d) (\<lambda>d.
     Some (uart_write UART_DR (of_char c) d))))"

definition pl011_getc :: "pl011 \<Rightarrow> (u8 \<times> pl011) option" where
  "pl011_getc d =
     Option.bind (pl011_ensure d) (\<lambda>d.
     Option.bind (uart_wait UART_FR UART_FR_RXFE d) (\<lambda>d.
     Some (let (v, d') = uart_read UART_DR d in (ucast v, d'))))"

text \<open>\<open>None\<close> as a value is the return value -1.\<close>

definition pl011_getc_nonblock :: "pl011 \<Rightarrow> (u32 option \<times> pl011) option" where
  "pl011_getc_nonblock d =
     Option.bind (pl011_ensure d) (\<lambda>d.
     Some (let (v, d1) = uart_read UART_FR d in
           if v AND UART_FR_RXFE \<noteq> 0 then (None, d1)
           else let (w, d2) = uart_read UART_DR d1 in (Some w, d2)))"

section \<open>16550\<close>

definition COM1_PORT :: u16 where "COM1_PORT = 0x3F8"

type_synonym com1 = "(u16, u8) dev"

definition inb :: "u16 \<Rightarrow> com1 \<Rightarrow> u8 \<times> com1" where
  "inb port d = dev_read port d"

definition outb :: "u16 \<Rightarrow> u8 \<Rightarrow> com1 \<Rightarrow> com1" where
  "outb port val d = dev_write port val d"

definition com1_init :: "com1 \<Rightarrow> com1" where
  "com1_init d =
     outb (COM1_PORT + 4) 0x0B
       (outb (COM1_PORT + 2) 0xC7
         (outb (COM1_PORT + 3) 0x03
           (outb (COM1_PORT + 1) 0x00
             (outb (COM1_PORT + 0) 0x01
               (outb (COM1_PORT + 3) 0x80
                 (outb (COM1_PORT + 1) 0x00 d))))))"

definition com1_wait :: "u8 \<Rightarrow> com1 \<Rightarrow> com1 option" where
  "com1_wait bits d = wait_while (\<lambda>v. v AND bits = 0) (COM1_PORT + 5) d"

definition com1_putc :: "char \<Rightarrow> com1 \<Rightarrow> com1 option" where
  "com1_putc c d =
     Option.bind (com1_wait 0x20 d) (\<lambda>d.
     Option.bind
       (if c = CHR 0x0A then map_option (outb COM1_PORT 0x0D) (com1_wait 0x20 d) else Some d) (\<lambda>d.
     Some (outb COM1_PORT (of_char c) d)))"

definition com1_getc :: "com1 \<Rightarrow> (u8 \<times> com1) option" where
  "com1_getc d = Option.bind (com1_wait 0x01 d) (\<lambda>d. Some (inb COM1_PORT d))"

definition com1_getc_nonblock :: "com1 \<Rightarrow> u8 option \<times> com1" where
  "com1_getc_nonblock d =
     (let (v, d1) = inb (COM1_PORT + 5) d in
      if v AND 0x01 = 0 then (None, d1) else let (w, d2) = inb COM1_PORT d1 in (Some w, d2))"

section \<open>\<^verbatim>\<open>uart_puts\<close>\<close>

text \<open>The same loop in both drivers, over the driver's \<^verbatim>\<open>uart_putc\<close>.\<close>

primrec uart_puts :: "(char \<Rightarrow> 's \<Rightarrow> 's option) \<Rightarrow> string \<Rightarrow> 's \<Rightarrow> 's option" where
  "uart_puts putc [] d = Some d"
| "uart_puts putc (c # s) d = Option.bind (putc c d) (uart_puts putc s)"

section \<open>The line as the other end sees it\<close>

text \<open>A line feed goes out as carriage return and line feed.\<close>

definition crlf :: "char \<Rightarrow> u8 list" where
  "crlf c = (if c = CHR 0x0A then [0x0D, 0x0A] else [of_char c])"

locale serial_port =
  fixes putc :: "char \<Rightarrow> 's \<Rightarrow> 's option"
    and sent :: "'s \<Rightarrow> u8 list"
    and live :: "'s \<Rightarrow> bool"
  assumes putc_sends: "live d \<Longrightarrow> \<exists>d'. putc c d = Some d' \<and> live d' \<and> sent d' = sent d @ crlf c"
begin

lemma puts_sends:
  "live d \<Longrightarrow> \<exists>d'. uart_puts putc s d = Some d' \<and> live d' \<and> sent d' = sent d @ concat (map crlf s)"
proof (induction s arbitrary: d)
  case (Cons c s)
  from putc_sends [OF Cons.prems, of c]
  obtain d1 where "putc c d = Some d1" "live d1" "sent d1 = sent d @ crlf c" by blast
  with Cons.IH [of d1] show ?case by auto
qed simp

end

lemma wait_while_returns:
  assumes "nread d \<le> k" "\<not> busy (reads d k r)"
  shows "\<exists>n. nread d < n \<and> wait_while busy r d = Some (d\<lparr>nread := n\<rparr>) \<and> \<not> busy (reads d (n - 1) r)"
  using assms
proof (induction "k - nread d" arbitrary: d)
  case 0
  then have k: "k = nread d" by simp
  from 0 show ?case unfolding k
    by (intro exI [of _ "Suc (nread d)"]) (simp add: wait_while.simps [of busy r d] dev_read_def)
next
  case (Suc j)
  show ?case
  proof (cases "busy (reads d (nread d) r)")
    case True
    let ?d = "d\<lparr>nread := Suc (nread d)\<rparr>"
    have "nread ?d \<le> k" "j = k - nread ?d" using Suc.hyps(2) by simp_all
    from Suc.hyps(1) [OF this(2,1)] Suc.prems(2) True show ?thesis
      by (auto simp: wait_while.simps [of busy r d] dev_read_def dest: Suc_lessD)
  next
    case False
    then show ?thesis
      by (intro exI [of _ "Suc (nread d)"]) (simp add: wait_while.simps [of busy r d] dev_read_def)
  qed
qed

section \<open>PL011 transmits\<close>

text \<open>The bytes written to the data register, and a device that gets ready again and again.\<close>

definition pl011_sent :: "pl011 \<Rightarrow> u8 list" where
  "pl011_sent d = [ucast v. (a, v) \<leftarrow> writes d, a = UART_BASE]"

definition pl011_live :: "pl011 \<Rightarrow> bool" where
  "pl011_live d \<longleftrightarrow> (uart_base d = 0 \<or> uart_base d = UART_BASE) \<and>
     (\<forall>n. \<exists>k\<ge>n. reads d k (UART_BASE + UART_FR) AND UART_FR_TXFF = 0) \<and>
     (\<forall>n. \<exists>k\<ge>n. reads d k (UART_BASE + UART_FR) AND UART_FR_BUSY = 0)"

lemma uart_write_sent:
  "pl011_sent (uart_write reg v d) =
     pl011_sent d @ (if uart_reg d reg = UART_BASE then [ucast v] else [])"
  by (simp add: pl011_sent_def uart_write_def dev_write_def)

lemma uart_write_frame [simp]:
  "uart_base (uart_write reg v d) = uart_base d" "reads (uart_write reg v d) = reads d"
  "uart_reg (uart_write reg v d) = uart_reg d"
  by (simp_all add: uart_write_def dev_write_def uart_reg_def fun_eq_iff)

lemma pl011_live_write [simp]: "pl011_live (uart_write reg v d) = pl011_live d"
  by (simp add: pl011_live_def)

lemma uart_wait_live:
  assumes "pl011_live d" "uart_base d = UART_BASE" "bits = UART_FR_TXFF \<or> bits = UART_FR_BUSY"
  shows "\<exists>d'. uart_wait UART_FR bits d = Some d' \<and> pl011_live d' \<and> uart_base d' = UART_BASE \<and>
    pl011_sent d' = pl011_sent d"
proof -
  have r: "uart_reg d UART_FR = UART_BASE + UART_FR"
    using assms(2) by (simp add: uart_reg_def pl011_regs)
  obtain k where "nread d \<le> k" "reads d k (UART_BASE + UART_FR) AND bits = 0"
    using assms(1,3) unfolding pl011_live_def by blast
  with wait_while_returns [of d k "\<lambda>v. v AND bits \<noteq> 0" "UART_BASE + UART_FR"]
  obtain n where "uart_wait UART_FR bits d = Some (d\<lparr>nread := n\<rparr>)"
    by (auto simp: uart_wait_def r)
  then show ?thesis using assms(1,2) by (simp add: pl011_live_def pl011_sent_def)
qed

lemma pl011_ensure_live:
  assumes "pl011_live d"
  shows "\<exists>d'. pl011_ensure d = Some d' \<and> pl011_live d' \<and> uart_base d' = UART_BASE \<and>
    pl011_sent d' = pl011_sent d"
proof (cases "uart_base d = 0")
  case True
  let ?d = "d\<lparr>uart_base := UART_BASE\<rparr>"
  have "pl011_live ?d" "pl011_sent ?d = pl011_sent d"
    using assms by (simp_all add: pl011_live_def pl011_sent_def)
  with uart_wait_live [of ?d UART_FR_BUSY] show ?thesis using True
    by (auto simp: pl011_ensure_def pl011_init_def uart_write_sent uart_reg_def pl011_regs)
next
  case False
  with assms show ?thesis by (simp add: pl011_ensure_def pl011_live_def)
qed

lemma ucast_of_char: "(ucast (of_char c :: u32) :: u8) = of_char c"
proof -
  have w: "(of_char c :: u32) = of_nat (of_char c)" "(of_char c :: u8) = of_nat (of_char c)"
    by (simp_all only: of_nat_of_char)
  have "(of_char c :: nat) < 2 ^ 32" by (rule less_trans [OF nat_of_char_less_256]) simp
  then have "(ucast (of_nat (of_char c) :: u32) :: u8) = of_nat (of_char c)"
    by (simp only: unsigned_of_nat) (simp add: take_bit_nat_eq_self)
  then show ?thesis unfolding w .
qed

lemma pl011_putc_sends:
  assumes "pl011_live d"
  shows "\<exists>d'. pl011_putc c d = Some d' \<and> pl011_live d' \<and> pl011_sent d' = pl011_sent d @ crlf c"
proof -
  have dr: "uart_reg e UART_DR = UART_BASE" if "uart_base e = UART_BASE" for e
    using that by (simp add: uart_reg_def pl011_regs)
  from pl011_ensure_live [OF assms] obtain d1 where d1: "pl011_ensure d = Some d1" "pl011_live d1"
    "uart_base d1 = UART_BASE" "pl011_sent d1 = pl011_sent d" by blast
  from uart_wait_live [OF d1(2,3), of UART_FR_TXFF] obtain d2 where
    d2: "uart_wait UART_FR UART_FR_TXFF d1 = Some d2" "pl011_live d2" "uart_base d2 = UART_BASE"
    "pl011_sent d2 = pl011_sent d" using d1(4) by auto
  from uart_wait_live [OF d2(2,3), of UART_FR_TXFF] obtain d3 where
    d3: "uart_wait UART_FR UART_FR_TXFF d2 = Some d3" "pl011_live d3" "uart_base d3 = UART_BASE"
    "pl011_sent d3 = pl011_sent d" using d2(4) by auto
  show ?thesis
  proof (cases "c = CHR 0x0A")
    case True
    with d1 d2 d3 show ?thesis by (simp add: pl011_putc_def uart_write_sent dr crlf_def)
  next
    case False
    with d1 d2 show ?thesis
      by (simp add: pl011_putc_def uart_write_sent dr crlf_def ucast_of_char)
  qed
qed

interpretation pl011: serial_port pl011_putc pl011_sent pl011_live
  by unfold_locales (rule pl011_putc_sends)

section \<open>16550 transmits\<close>

text \<open>
  The registers behind the ports: bit 7 of the line control register switches the first port
  from the transmitter to the low byte of the divisor.
\<close>

definition com1_step :: "bool \<times> u8 list \<Rightarrow> u16 \<times> u8 \<Rightarrow> bool \<times> u8 list" where
  "com1_step st w =
     (let (dlab, out) = st; (port, v) = w in
      if port = COM1_PORT + 3 then (bit v 7, out)
      else if port = COM1_PORT \<and> \<not> dlab then (dlab, out @ [v]) else (dlab, out))"

definition com1_line :: "com1 \<Rightarrow> bool \<times> u8 list" where
  "com1_line d = foldl com1_step (False, []) (writes d)"

definition com1_sent :: "com1 \<Rightarrow> u8 list" where
  "com1_sent d = snd (com1_line d)"

definition com1_live :: "com1 \<Rightarrow> bool" where
  "com1_live d \<longleftrightarrow> \<not> fst (com1_line d) \<and>
     (\<forall>n. \<exists>k\<ge>n. reads d k (COM1_PORT + 5) AND 0x20 \<noteq> 0)"

lemma com1_line_outb: "com1_line (outb p v d) = com1_step (com1_line d) (p, v)"
  by (simp add: com1_line_def outb_def dev_write_def)

lemma com1_live_data:
  assumes "com1_live d"
  shows "com1_live (outb COM1_PORT v d)" "com1_sent (outb COM1_PORT v d) = com1_sent d @ [v]"
  using assms
  by (auto simp: com1_live_def com1_sent_def com1_line_outb com1_step_def split_def Let_def
      COM1_PORT_def outb_def [of _ _ d, THEN arg_cong, of reads] dev_write_def)

lemma com1_wait_live:
  assumes "com1_live d"
  shows "\<exists>d'. com1_wait 0x20 d = Some d' \<and> com1_live d' \<and> com1_sent d' = com1_sent d"
proof -
  obtain k where "nread d \<le> k" "reads d k (COM1_PORT + 5) AND 0x20 \<noteq> 0"
    using assms unfolding com1_live_def by blast
  with wait_while_returns [of d k "\<lambda>v. v AND 0x20 = 0" "COM1_PORT + 5"]
  obtain n where "com1_wait 0x20 d = Some (d\<lparr>nread := n\<rparr>)" by (auto simp: com1_wait_def)
  then show ?thesis using assms by (simp add: com1_live_def com1_sent_def com1_line_def)
qed

lemma com1_putc_sends:
  assumes "com1_live d"
  shows "\<exists>d'. com1_putc c d = Some d' \<and> com1_live d' \<and> com1_sent d' = com1_sent d @ crlf c"
proof -
  from com1_wait_live [OF assms] obtain d1 where
    d1: "com1_wait 0x20 d = Some d1" "com1_live d1" "com1_sent d1 = com1_sent d" by blast
  from com1_wait_live [OF d1(2)] obtain d2 where
    d2: "com1_wait 0x20 d1 = Some d2" "com1_live d2" "com1_sent d2 = com1_sent d" using d1(3) by auto
  note w = com1_live_data [OF d1(2)] com1_live_data [OF d2(2)]
    com1_live_data [OF com1_live_data(1) [OF d2(2)]]
  show ?thesis
    using d1 d2 w by (cases "c = CHR 0x0A") (simp_all add: com1_putc_def crlf_def)
qed

interpretation com1: serial_port com1_putc com1_sent com1_live
  by unfold_locales (rule com1_putc_sends)

lemma com1_init_live:
  assumes "\<forall>n. \<exists>k\<ge>n. reads d k (COM1_PORT + 5) AND 0x20 \<noteq> 0"
  shows "com1_live (com1_init d)" "com1_sent (com1_init d) = com1_sent d"
proof -
  have "reads (com1_init d) = reads d" by (simp add: com1_init_def outb_def dev_write_def)
  moreover have "com1_line (com1_init d) = (False, com1_sent d)"
    by (simp add: com1_init_def com1_line_outb com1_step_def com1_sent_def split_def Let_def
        COM1_PORT_def bit_numeral_rec)
  ultimately show "com1_live (com1_init d)" "com1_sent (com1_init d) = com1_sent d"
    using assms by (simp_all add: com1_live_def com1_sent_def)
qed

section \<open>Properties\<close>

text \<open>
  on a PL011 that keeps getting ready, \<^verbatim>\<open>uart_puts\<close> returns, initialises the device if
  that has not been done yet, and sends exactly the bytes of the string, with a carriage
  return before every line feed.
\<close>

theorem pl011_puts_transmits:
  assumes "pl011_live d"
  shows "\<exists>d'. uart_puts pl011_putc s d = Some d' \<and>
    pl011_sent d' = pl011_sent d @ concat (map crlf s)"
  using pl011.puts_sends [OF assms] by blast

text \<open>A PL011 that is never busy.\<close>

definition idle_pl011 :: pl011 where
  "idle_pl011 = \<lparr>reads = \<lambda>_ _. 0, nread = 0, writes = [], uart_base = 0\<rparr>"

theorem pl011_puts_transmits_witness:
  "\<exists>d'. uart_puts pl011_putc ''ok\<newline>'' idle_pl011 = Some d' \<and> pl011_sent d' = [0x6F, 0x6B, 0x0D, 0x0A]"
proof -
  have "pl011_live idle_pl011" by (auto simp: idle_pl011_def pl011_live_def)
  from pl011_puts_transmits [OF this, of "''ok\<newline>''"] show ?thesis
    by (simp add: pl011_sent_def idle_pl011_def crlf_def)
qed

text \<open>
  on a PC whose 16550 keeps getting ready, initialising the port and printing a string
  returns and sends exactly the bytes of the string, with a carriage return before every
  line feed: the initialisation itself sends nothing and leaves the divisor latch closed.
\<close>

theorem com1_init_puts_transmits:
  assumes "\<forall>n. \<exists>k\<ge>n. reads d k (COM1_PORT + 5) AND 0x20 \<noteq> 0"
  shows "\<exists>d'. uart_puts com1_putc s (com1_init d) = Some d' \<and>
    com1_sent d' = com1_sent d @ concat (map crlf s)"
  using com1.puts_sends [OF com1_init_live(1) [OF assms], of s] by (auto simp: com1_init_live(2) [OF assms])

definition idle_com1 :: com1 where
  "idle_com1 = \<lparr>reads = \<lambda>_ _. 0x60, nread = 0, writes = []\<rparr>"

theorem com1_init_puts_transmits_witness:
  "\<exists>d'. uart_puts com1_putc ''ok\<newline>'' (com1_init idle_com1) = Some d' \<and>
     com1_sent d' = [0x6F, 0x6B, 0x0D, 0x0A]"
proof -
  have "\<forall>n. \<exists>k\<ge>n. reads idle_com1 k (COM1_PORT + 5) AND 0x20 \<noteq> 0"
    by (auto simp: idle_com1_def)
  from com1_init_puts_transmits [OF this, of "''ok\<newline>''"] show ?thesis
    by (simp add: com1_sent_def com1_line_def idle_com1_def crlf_def)
qed

text \<open>
  \<^verbatim>\<open>uart_getc\<close> returns as soon as the receiver has a byte, with the byte the data
  register gives at the access after the flag was seen; \<^verbatim>\<open>uart_getc_nonblock\<close> looks at the
  flag once and returns -1 exactly when the receiver is empty then. Neither sends anything.
\<close>

theorem com1_receive:
  assumes "nread d \<le> k" "reads d k (COM1_PORT + 5) AND 1 \<noteq> 0"
  shows "(\<exists>n d'. com1_getc d = Some (reads d n COM1_PORT, d') \<and> nread d < n \<and>
      reads d (n - 1) (COM1_PORT + 5) AND 1 \<noteq> 0 \<and> writes d' = writes d) \<and>
    (fst (com1_getc_nonblock d) = None \<longleftrightarrow> reads d (nread d) (COM1_PORT + 5) AND 1 = 0) \<and>
    writes (snd (com1_getc_nonblock d)) = writes d"
proof (intro conjI)
  from wait_while_returns [OF assms(1), of "\<lambda>v. v AND 1 = 0" "COM1_PORT + 5"] assms(2)
  obtain n where "nread d < n" "com1_wait 1 d = Some (d\<lparr>nread := n\<rparr>)"
    "reads d (n - 1) (COM1_PORT + 5) AND 1 \<noteq> 0" by (auto simp: com1_wait_def)
  then show "\<exists>n d'. com1_getc d = Some (reads d n COM1_PORT, d') \<and> nread d < n \<and>
      reads d (n - 1) (COM1_PORT + 5) AND 1 \<noteq> 0 \<and> writes d' = writes d"
    by (intro exI [of _ n]) (simp add: com1_getc_def inb_def dev_read_def)
qed (auto simp: com1_getc_nonblock_def inb_def dev_read_def)

theorem com1_receive_witness:
  "\<exists>d'. com1_getc (idle_com1\<lparr>reads := \<lambda>k r. if k < 3 then 0 else 0x41\<rparr>) = Some (0x41, d')"
proof -
  let ?d = "idle_com1\<lparr>reads := \<lambda>k r. if k < 3 then 0 else 0x41\<rparr>"
  have "nread ?d \<le> 3" "reads ?d 3 (COM1_PORT + 5) AND 1 \<noteq> 0" by (simp_all add: idle_com1_def)
  from com1_receive [OF this] obtain n d' where "com1_getc ?d = Some (reads ?d n COM1_PORT, d')"
    "reads ?d (n - 1) (COM1_PORT + 5) AND 1 \<noteq> 0" by blast
  then show ?thesis by (auto split: if_splits)
qed

end
