(* ===== verification/Printk.thy ===== *)
theory Printk
  imports Format Uart
begin

text \<open>
  The kernel's own formatter and \<^verbatim>\<open>printk\<close> (\<^verbatim>\<open>lib/printk.c\<close> from line 198 on). The buffer is
  a function from offsets to characters: it starts with whatever the stack held, offsets the
  code skips keep that, and stores beyond the end of the array are visible as such.
\<close>

section \<open>Flags and length modifiers\<close>

definition F_PLUS :: u32 where "F_PLUS = 0x01"
definition F_SPACE :: u32 where "F_SPACE = 0x02"
definition F_HASH :: u32 where "F_HASH = 0x04"
definition F_ZERO :: u32 where "F_ZERO = 0x08"
definition F_LEFT :: u32 where "F_LEFT = 0x10"

datatype len_mod = LEN_NONE | LEN_SHORT | LEN_LONG | LEN_LONGLONG

section \<open>\<^verbatim>\<open>format_number\<close>\<close>

definition digits :: string where
  "digits = ''0123456789abcdef''"

text \<open>
  The loop that generates the digits, lowest first. Both callers pass base 10 or 16; for a
  base below 2 the code has no meaning (it divides by zero or does not end).
\<close>

function gen_digits :: "u64 \<Rightarrow> u64 \<Rightarrow> string" where
  "gen_digits val base =
     (if 0 < val \<and> 1 < base then digits ! unat (val mod base) # gen_digits (val div base) base
      else [])"
  by pat_completeness auto
termination
  by (relation "measure (\<lambda>(v, b). unat v)")
    (auto simp: word_less_nat_alt unat_div_distrib intro!: div_less_dividend)

declare gen_digits.simps [simp del]

text \<open>The reversal in place.\<close>

definition swap_ends :: "nat \<Rightarrow> nat \<Rightarrow> 'a list \<Rightarrow> 'a list" where
  "swap_ends n i xs = (let tmp = xs ! i in (xs[i := xs ! (n - 1 - i)])[n - 1 - i := tmp])"

definition reverse_digits :: "'a list \<Rightarrow> 'a list" where
  "reverse_digits xs = for_loop 0 (length xs div 2) (swap_ends (length xs)) xs"

text \<open>The C string \<^verbatim>\<open>format_number\<close> leaves in its buffer; no sign is \<open>None\<close>.\<close>

definition format_number ::
  "u64 \<Rightarrow> u64 \<Rightarrow> bool \<Rightarrow> char option \<Rightarrow> u32 \<Rightarrow> int \<Rightarrow> string" where
  "format_number val base is_signed sign flags precision =
     (if val = 0 \<and> precision \<le> 0 then
        if is_signed \<and> sign \<noteq> None then (if sign = Some (CHR ''-'') then ''-0'' else ''+0'')
        else if flags AND F_HASH \<noteq> 0 \<and> base = 16 then ''0x0''
        else ''0''
      else reverse_digits (gen_digits val base))"

section \<open>The output buffer\<close>

record obuf =
  ob :: "nat \<Rightarrow> char"
  pos :: nat
  written :: int

text \<open>\<^verbatim>\<open>str - start < (int)size - 1\<close>\<close>

definition room :: "u64 \<Rightarrow> obuf \<Rightarrow> bool" where
  "room sz st \<longleftrightarrow> int (pos st) < sint (ucast sz :: u32) - 1"

definition put_char :: "char \<Rightarrow> obuf \<Rightarrow> obuf" where
  "put_char c st = st\<lparr>ob := (ob st)(pos st := c), pos := Suc (pos st)\<rparr>"

definition count :: "obuf \<Rightarrow> obuf" where
  "count st = st\<lparr>written := written st + 1\<rparr>"

text \<open>\<^verbatim>\<open>if (room) *str++ = c; written++;\<close> and the form with both under the guard.\<close>

definition put_counted :: "u64 \<Rightarrow> char \<Rightarrow> obuf \<Rightarrow> obuf" where
  "put_counted sz c st = count (if room sz st then put_char c st else st)"

definition put_guarded :: "u64 \<Rightarrow> char \<Rightarrow> obuf \<Rightarrow> obuf" where
  "put_guarded sz c st = (if room sz st then count (put_char c st) else st)"

fun put_string :: "u64 \<Rightarrow> string \<Rightarrow> obuf \<Rightarrow> obuf" where
  "put_string sz [] st = st"
| "put_string sz (c # s) st = put_string sz s (put_counted sz c st)"

text \<open>The loop over the digits advances through the buffer and stores nothing.\<close>

fun skip_digits :: "u64 \<Rightarrow> string \<Rightarrow> obuf \<Rightarrow> obuf" where
  "skip_digits sz [] st = st"
| "skip_digits sz (c # s) st =
     (if room sz st then skip_digits sz s (count (st\<lparr>pos := Suc (pos st)\<rparr>)) else st)"

section \<open>Parsing a conversion\<close>

record conv_spec =
  cflags :: u32
  cwidth :: int
  cprec :: int
  clen :: len_mod

fun parse_flags :: "u32 \<Rightarrow> string \<Rightarrow> u32 \<times> string" where
  "parse_flags flags [] = (flags, [])"
| "parse_flags flags (c # fmt) =
     (if c = CHR ''+'' then parse_flags (flags OR F_PLUS) fmt
      else if c = CHR '' '' then parse_flags (flags OR F_SPACE) fmt
      else if c = CHR ''#'' then parse_flags (flags OR F_HASH) fmt
      else if c = CHR ''0'' then parse_flags (flags OR F_ZERO) fmt
      else if c = CHR ''-'' then parse_flags (flags OR F_LEFT) fmt
      else (flags, c # fmt))"

definition is_dig :: "char \<Rightarrow> bool" where
  "is_dig c \<longleftrightarrow> CHR ''0'' \<le> c \<and> c \<le> CHR ''9''"

definition dig :: "char \<Rightarrow> int" where
  "dig c = of_char c - 48"

text \<open>\<open>None\<close> when the value no longer fits an \<^verbatim>\<open>int\<close>.\<close>

fun parse_int :: "int \<Rightarrow> string \<Rightarrow> (int \<times> string) option" where
  "parse_int n [] = Some (n, [])"
| "parse_int n (c # fmt) =
     (if is_dig c then
        let n' = n * 10 + dig c in if 2147483647 < n' then None else parse_int n' fmt
      else Some (n, c # fmt))"

definition parse_width :: "string \<Rightarrow> (int \<times> string) option" where
  "parse_width fmt =
     (case fmt of
        c # rest \<Rightarrow> if CHR ''1'' \<le> c \<and> c \<le> CHR ''9'' then parse_int (dig c) rest else Some (0, fmt)
      | [] \<Rightarrow> Some (0, fmt))"

definition parse_precision :: "string \<Rightarrow> (int \<times> string) option" where
  "parse_precision fmt =
     (case fmt of
        c # rest \<Rightarrow> if c = CHR ''.'' then parse_int 0 rest else Some (- 1, fmt)
      | [] \<Rightarrow> Some (- 1, fmt))"

fun parse_len :: "string \<Rightarrow> len_mod \<times> string" where
  "parse_len (c # fmt) =
     (if c = CHR ''l'' then
        (case fmt of
           d # rest \<Rightarrow> if d = CHR ''l'' then (LEN_LONGLONG, rest) else (LEN_LONG, fmt)
         | [] \<Rightarrow> (LEN_LONG, fmt))
      else if c = CHR ''h'' then (LEN_SHORT, fmt)
      else (LEN_NONE, c # fmt))"
| "parse_len [] = (LEN_NONE, [])"

definition parse_spec :: "string \<Rightarrow> fmt_error + conv_spec \<times> string" where
  "parse_spec fmt =
     (let (flags, fmt1) = parse_flags 0 fmt in
      case parse_width fmt1 of
        None \<Rightarrow> Inl SignedOverflow
      | Some (width, fmt2) \<Rightarrow>
          (case parse_precision fmt2 of
             None \<Rightarrow> Inl SignedOverflow
           | Some (precision, fmt3) \<Rightarrow>
               let (len, fmt4) = parse_len fmt3 in
               Inr (\<lparr>cflags = flags, cwidth = width, cprec = precision, clen = len\<rparr>, fmt4)))"

section \<open>Conversions\<close>

definition left :: "conv_spec \<Rightarrow> bool" where
  "left sp \<longleftrightarrow> cflags sp AND F_LEFT \<noteq> 0"

text \<open>\<^verbatim>\<open>for (i = 0; i < pad && ...; i++)\<close> around one guarded store.\<close>

definition put_pad :: "u64 \<Rightarrow> int \<Rightarrow> char \<Rightarrow> obuf \<Rightarrow> obuf" where
  "put_pad sz pad c st = put_string sz (replicate (nat pad) c) st"

definition put_number :: "u64 \<Rightarrow> conv_spec \<Rightarrow> char option \<Rightarrow> string \<Rightarrow> obuf \<Rightarrow> obuf" where
  "put_number sz sp sign num_buf st =
     (let num_len = int (length num_buf);
          pad = cwidth sp - num_len - (if sign \<noteq> None then 1 else 0);
          st1 = (if left sp then st else put_pad sz pad (CHR ''0'') st);
          st2 = (case sign of None \<Rightarrow> st1 | Some c \<Rightarrow> put_guarded sz c st1);
          st3 = skip_digits sz num_buf st2
      in if left sp then put_pad sz pad (CHR '' '') st3 else st3)"

definition put_text :: "u64 \<Rightarrow> conv_spec \<Rightarrow> string \<Rightarrow> obuf \<Rightarrow> obuf" where
  "put_text sz sp s st =
     (let slen = (if 0 \<le> cprec sp \<and> cprec sp < int (length s) then nat (cprec sp) else length s);
          pad = cwidth sp - int slen;
          st1 = (if left sp then st else put_pad sz pad (CHR '' '') st);
          st2 = put_string sz (take slen s) st1
      in if left sp then put_pad sz pad (CHR '' '') st2 else st2)"

text \<open>The values \<^verbatim>\<open>%d\<close> and \<^verbatim>\<open>%u\<close> convert: 64 bits only with \<^verbatim>\<open>ll\<close>, else the low 32.\<close>

definition signed_arg :: "len_mod \<Rightarrow> u64 \<Rightarrow> u64" where
  "signed_arg len w = (if len = LEN_LONGLONG then w else scast (ucast w :: u32))"

definition unsigned_arg :: "len_mod \<Rightarrow> u64 \<Rightarrow> u64" where
  "unsigned_arg len w = (if len = LEN_LONGLONG then w else ucast (ucast w :: u32))"

definition sign_of :: "u32 \<Rightarrow> u64 \<Rightarrow> char option" where
  "sign_of flags val =
     (if sint val < 0 then Some (CHR ''-'')
      else if flags AND F_PLUS \<noteq> 0 then Some (CHR ''+'')
      else if flags AND F_SPACE \<noteq> 0 then Some (CHR '' '')
      else None)"

text \<open>
  The text \<^verbatim>\<open>%p\<close> puts into the number buffer of 32 bytes: the C string \<^verbatim>\<open>snprintf\<close> leaves
  there.
\<close>

definition pointer_text :: "u64 \<Rightarrow> fmt_error + string" where
  "pointer_text w =
     (case vsprintf_loop ''0x%lx'' [VWord w] [] of Inl e \<Rightarrow> Inl e | Inr out \<Rightarrow> Inr (take 31 out))"

definition print_conv ::
  "u64 \<Rightarrow> conv_spec \<Rightarrow> char \<Rightarrow> va list \<Rightarrow> obuf \<Rightarrow> fmt_error + va list \<times> obuf" where
  "print_conv sz sp c ap st =
     (if c = CHR ''d'' \<or> c = CHR ''i'' then
        (case va_word ap of
           Inl e \<Rightarrow> Inl e
         | Inr (w, ap') \<Rightarrow>
             let val = signed_arg (clen sp) w; sign = sign_of (cflags sp) val in
             if val = push_bit 63 1 then Inl SignedOverflow
             else Inr (ap', put_number sz sp sign
                    (format_number (if sint val < 0 then - val else val) 10 True sign (cflags sp)
                       (cprec sp)) st))
      else if c = CHR ''u'' then
        (case va_word ap of
           Inl e \<Rightarrow> Inl e
         | Inr (w, ap') \<Rightarrow>
             Inr (ap', put_number sz sp None
                    (format_number (unsigned_arg (clen sp) w) 10 False None (cflags sp) (cprec sp)) st))
      else if c = CHR ''x'' \<or> c = CHR ''X'' then
        (case va_word ap of
           Inl e \<Rightarrow> Inl e
         | Inr (w, ap') \<Rightarrow>
             Inr (ap', put_number sz sp None
                    (format_number (unsigned_arg (clen sp) w) 16 False None (cflags sp) (cprec sp)) st))
      else if c = CHR ''p'' then
        (case va_word ap of
           Inl e \<Rightarrow> Inl e
         | Inr (w, ap') \<Rightarrow>
             (case pointer_text w of
                Inl e \<Rightarrow> Inl e
              | Inr num_buf \<Rightarrow> Inr (ap', put_number sz sp None num_buf st)))
      else if c = CHR ''s'' then
        (case va_string ap of
           Inl e \<Rightarrow> Inl e
         | Inr (s, ap') \<Rightarrow>
             Inr (ap', put_text sz sp (case s of None \<Rightarrow> ''(null)'' | Some t \<Rightarrow> t) st))
      else if c = CHR ''c'' then
        (case va_word ap of
           Inl e \<Rightarrow> Inl e
         | Inr (w, ap') \<Rightarrow> Inr (ap', count (put_char (char_of (unat w mod 256)) st)))
      else Inr (ap, put_counted sz c st))"

section \<open>The main loop\<close>

lemma parse_flags_length: "length (snd (parse_flags fl fmt)) \<le> length fmt"
  by (induction fl fmt rule: parse_flags.induct) auto

lemma parse_int_length: "parse_int n fmt = Some (k, rest) \<Longrightarrow> length rest \<le> length fmt"
  by (induction n fmt rule: parse_int.induct) (auto simp: Let_def split: if_splits)

lemma parse_spec_length:
  assumes "parse_spec fmt = Inr (sp, rest)"
  shows "length rest \<le> length fmt"
proof -
  obtain fl f1 w f2 pr f3 l where e: "parse_flags 0 fmt = (fl, f1)" "parse_width f1 = Some (w, f2)"
    "parse_precision f2 = Some (pr, f3)" "parse_len f3 = (l, rest)"
    using assms by (auto simp: parse_spec_def Let_def split: prod.splits option.splits)
  have "length f1 \<le> length fmt" using parse_flags_length [of 0 fmt] e(1) by simp
  moreover have "length f2 \<le> length f1"
    using e(2) by (auto simp: parse_width_def split: list.splits if_splits dest: parse_int_length)
  moreover have "length f3 \<le> length f2"
    using e(3) by (auto simp: parse_precision_def split: list.splits if_splits dest: parse_int_length)
  moreover have "length rest \<le> length f3"
    using e(4) by (cases f3) (auto split: list.splits if_splits)
  ultimately show ?thesis by linarith
qed

function print_loop :: "u64 \<Rightarrow> string \<Rightarrow> va list \<Rightarrow> obuf \<Rightarrow> fmt_error + obuf" where
  "print_loop sz [] ap st = Inr st"
| "print_loop sz (c # fmt) ap st =
     (if c \<noteq> CHR ''%'' then print_loop sz fmt ap (put_guarded sz c st)
      else case parse_spec fmt of
             Inl e \<Rightarrow> Inl e
           | Inr (sp, []) \<Rightarrow> Inl FmtOverrun
           | Inr (sp, d # rest) \<Rightarrow>
               (case print_conv sz sp d ap st of
                  Inl e \<Rightarrow> Inl e
                | Inr (ap', st') \<Rightarrow> print_loop sz rest ap' st'))"
  by pat_completeness auto
termination
  by (relation "measure (\<lambda>(sz, fmt, ap, st). length fmt)") (auto dest: parse_spec_length)

text \<open>
  The terminating store behind the loop. The second one is relative to the advanced pointer, as in
  the source.
\<close>

definition terminate_text :: "u64 \<Rightarrow> obuf \<Rightarrow> nat \<Rightarrow> char" where
  "terminate_text sz st =
     (if room sz st then (ob st)(pos st := CHR 0x00)
      else if 0 < sz then (ob st)(pos st + unat (sz - 1) := CHR 0x00)
      else ob st)"

text \<open>\<^verbatim>\<open>vsprintf_impl\<close> on a buffer that holds \<open>g\<close>: the buffer and the return value.\<close>

definition vsprintf_impl ::
  "u64 \<Rightarrow> string \<Rightarrow> va list \<Rightarrow> (nat \<Rightarrow> char) \<Rightarrow> fmt_error + (nat \<Rightarrow> char) \<times> int" where
  "vsprintf_impl sz fmt ap g =
     (case print_loop sz fmt ap \<lparr>ob = g, pos = 0, written = 0\<rparr> of
        Inl e \<Rightarrow> Inl e
      | Inr st \<Rightarrow> Inr (terminate_text sz st, written st))"

section \<open>\<^verbatim>\<open>printk\<close> and \<^verbatim>\<open>panic\<close>\<close>

text \<open>The C string in a buffer; no value when it has no terminator.\<close>

partial_function (option) until_nul :: "(nat \<Rightarrow> char) \<Rightarrow> nat \<Rightarrow> string option" where
  "until_nul b i =
     (if b i = CHR 0x00 then Some []
      else Option.bind (until_nul b (Suc i)) (\<lambda>s. Some (b i # s)))"

text \<open>
  \<^verbatim>\<open>printk\<close> over a driver's \<^verbatim>\<open>uart_putc\<close>; \<open>g\<close> is what the stack held where the buffer is.
\<close>

definition printk ::
  "(char \<Rightarrow> 's \<Rightarrow> 's option) \<Rightarrow> (nat \<Rightarrow> char) \<Rightarrow> string \<Rightarrow> va list \<Rightarrow> 's \<Rightarrow>
   (fmt_error + int \<times> 's) option" where
  "printk putc g fmt ap d =
     (case vsprintf_impl 512 fmt ap g of
        Inl e \<Rightarrow> Some (Inl e)
      | Inr (b, ret) \<Rightarrow>
          Option.bind (until_nul b 0) (\<lambda>s.
          Option.bind (uart_puts putc s d) (\<lambda>d'. Some (Inr (ret, d')))))"

fun printk_all ::
  "(char \<Rightarrow> 's \<Rightarrow> 's option) \<Rightarrow> ((nat \<Rightarrow> char) \<times> string \<times> va list) list \<Rightarrow> 's \<Rightarrow>
   (fmt_error + 's) option" where
  "printk_all putc [] d = Some (Inr d)"
| "printk_all putc ((g, fmt, ap) # cs) d =
     (case printk putc g fmt ap d of
        None \<Rightarrow> None
      | Some (Inl e) \<Rightarrow> Some (Inl e)
      | Some (Inr (ret, d')) \<Rightarrow> printk_all putc cs d')"

text \<open>
  \<^verbatim>\<open>panic\<close> prints five lines and then stops the processor for good; its value is the state in
  which it does so. \<open>g i\<close> is the stack's contents at the \<open>i\<close>-th call of \<^verbatim>\<open>printk\<close>.
\<close>

definition panic_calls :: "(nat \<Rightarrow> nat \<Rightarrow> char) \<Rightarrow> string \<Rightarrow> ((nat \<Rightarrow> char) \<times> string \<times> va list) list" where
  "panic_calls g msg =
     [(g 0, ''\<newline>'', []),
      (g 1, ''************************ PANIC ************************\<newline>'', []),
      (g 2, ''PANIC: %s\<newline>'', [VStr (Some msg)]),
      (g 3, ''************************************************************\<newline>'', []),
      (g 4, ''System halted.\<newline>\<newline>'', [])]"

definition panic ::
  "(char \<Rightarrow> 's \<Rightarrow> 's option) \<Rightarrow> (nat \<Rightarrow> nat \<Rightarrow> char) \<Rightarrow> string \<Rightarrow> 's \<Rightarrow> (fmt_error + 's) option" where
  "panic putc g msg d = printk_all putc (panic_calls g msg) d"

end
