(* ===== verification/Irq.thy ===== *)
theory Irq
  imports Process Printk
begin

text \<open>
  Interrupts and exceptions: the dispatch table of \<^verbatim>\<open>lib/interrupt_dispatch.c\<close>, the interrupt
  controllers of \<^verbatim>\<open>arch/arm64/interrupt/interrupt.c\<close> (GIC) and
  \<^verbatim>\<open>arch/x86_64/interrupt/interrupt.c\<close> (8259A), and the exception handlers of both
  architectures. The controllers are devices as the serial ports are: reads answer from a
  stream, writes are recorded. Handlers are code addresses; what running one does is a
  parameter.
\<close>

section \<open>State\<close>

definition MAX_IRQ_HANDLERS :: nat where
  "MAX_IRQ_HANDLERS = 256"

record irq_state = proc_state +
  irq_dispatch_table :: "u64 list"
  gic :: "(u64, u32) dev"
  ports :: "(u16, u8) dev"

text \<open>
  A call returns, or stops the processor for good, or reads behind the end of a table, which C
  leaves undefined.
\<close>

datatype 's outcome = Returns 's | Halts 's | OutOfBounds 's

section \<open>The dispatch table\<close>

definition irq_register :: "int \<Rightarrow> u64 \<Rightarrow> 'a irq_state_scheme \<Rightarrow> int \<times> 'a irq_state_scheme" where
  "irq_register irq_num handler s =
     (if irq_num < 0 \<or> int MAX_IRQ_HANDLERS \<le> irq_num then
        (-1, emit ''[IRQ] Invalid IRQ number: %d\<newline>'' [int_arg irq_num] s)
      else
        (0, emit ''[IRQ] Registered handler for IRQ %d\<newline>'' [int_arg irq_num]
              (s\<lparr>irq_dispatch_table := (irq_dispatch_table s)[nat irq_num := handler]\<rparr>)))"

definition irq_unregister :: "int \<Rightarrow> 'a irq_state_scheme \<Rightarrow> int \<times> 'a irq_state_scheme" where
  "irq_unregister irq_num s =
     (if irq_num < 0 \<or> int MAX_IRQ_HANDLERS \<le> irq_num then (-1, s)
      else
        (0, emit ''[IRQ] Unregistered handler for IRQ %d\<newline>'' [int_arg irq_num]
              (s\<lparr>irq_dispatch_table := (irq_dispatch_table s)[nat irq_num := 0]\<rparr>)))"

definition irq_enable :: "int \<Rightarrow> 'a irq_state_scheme \<Rightarrow> 'a irq_state_scheme" where
  "irq_enable irq_num s = emit ''[IRQ] Enabled IRQ %d\<newline>'' [int_arg irq_num] s"

definition irq_disable :: "int \<Rightarrow> 'a irq_state_scheme \<Rightarrow> 'a irq_state_scheme" where
  "irq_disable irq_num s = emit ''[IRQ] Disabled IRQ %d\<newline>'' [int_arg irq_num] s"

section \<open>The GIC\<close>

definition GICD_BASE :: u64 where "GICD_BASE = 0x08000000"
definition GICC_BASE :: u64 where "GICC_BASE = 0x08010000"
definition GICD_CTLR :: u64 where "GICD_CTLR = 0x0000"
definition GICD_TYPER :: u64 where "GICD_TYPER = 0x0004"
definition GICD_ISENABLER :: u64 where "GICD_ISENABLER = 0x0100"
definition GICD_IPRIORITYR :: u64 where "GICD_IPRIORITYR = 0x0400"
definition GICC_CTLR :: u64 where "GICC_CTLR = 0x0000"
definition GICC_PMR :: u64 where "GICC_PMR = 0x0004"
definition GICC_IAR :: u64 where "GICC_IAR = 0x000C"
definition GICC_EOIAR :: u64 where "GICC_EOIAR = 0x0010"
definition GIC_MAX_INTERRUPTS :: u32 where "GIC_MAX_INTERRUPTS = 1020"

lemmas gic_regs = GICD_BASE_def GICC_BASE_def GICD_CTLR_def GICD_TYPER_def GICD_ISENABLER_def
  GICD_IPRIORITYR_def GICC_CTLR_def GICC_PMR_def GICC_IAR_def GICC_EOIAR_def

text \<open>\<open>base + (reg / 4)\<close> on a pointer to 32-bit words.\<close>

definition gic_reg :: "u64 \<Rightarrow> u64 \<Rightarrow> u64" where
  "gic_reg base reg = base + 4 * (reg div 4)"

definition gic_read :: "u64 \<Rightarrow> 'a irq_state_scheme \<Rightarrow> u32 \<times> 'a irq_state_scheme" where
  "gic_read reg s = (let (v, d) = dev_read reg (gic s) in (v, s\<lparr>gic := d\<rparr>))"

definition gic_write :: "u64 \<Rightarrow> u32 \<Rightarrow> 'a irq_state_scheme \<Rightarrow> 'a irq_state_scheme" where
  "gic_write reg val s = s\<lparr>gic := dev_write reg val (gic s)\<rparr>"

text \<open>\<open>run h n\<close> is what the handler at address \<open>h\<close> does when called with \<open>n\<close>.\<close>

definition arm_handle_irq ::
  "(u64 \<Rightarrow> u32 \<Rightarrow> 'a irq_state_scheme \<Rightarrow> 'a irq_state_scheme) \<Rightarrow> u64 \<Rightarrow> 'a irq_state_scheme \<Rightarrow>
   'a irq_state_scheme outcome" where
  "arm_handle_irq run vec s =
     (let (irq_num, s1) = gic_read (gic_reg GICC_BASE GICC_IAR) s in
      if irq_num \<noteq> 1020 \<and> irq_num \<noteq> 1021 then
        let s2 = gic_write (gic_reg GICC_BASE GICC_EOIAR) irq_num s1 in
        if irq_num < GIC_MAX_INTERRUPTS then
          if unat irq_num < length (irq_dispatch_table s2) then
            let handler = irq_dispatch_table s2 ! unat irq_num in
            Returns (if handler \<noteq> 0 then run handler irq_num s2 else s2)
          else OutOfBounds s2
        else Returns s2
      else Returns s1)"

definition arm_interrupt_init :: "'a irq_state_scheme \<Rightarrow> 'a irq_state_scheme" where
  "arm_interrupt_init s =
     (let (typer, s1) = gic_read (gic_reg GICD_BASE GICD_TYPER) s;
          num_irqs = ((typer AND 0x1F) + 1) * 32;
          s2 = emit ''[GIC] Type=%u, IRQs=%d\<newline>'' [VWord (ucast (typer AND 0x1F)), VWord (ucast num_irqs)] s1;
          s3 = for_loop 0 32 (\<lambda>i. gic_write (gic_reg GICD_BASE (GICD_IPRIORITYR + of_nat i * 16)) 0x80808080) s2;
          s4 = for_loop 0 4 (\<lambda>i. gic_write (gic_reg GICD_BASE (GICD_ISENABLER + of_nat i * 16)) 0xFFFFFFFF) s3;
          s5 = gic_write (gic_reg GICC_BASE GICC_PMR) 0xFF s4;
          s6 = gic_write (gic_reg GICC_BASE GICC_CTLR) 0x01 s5
      in emit ''[GIC] Interrupt controller initialized.\<newline>'' [] s6)"

section \<open>The 8259A\<close>

definition PIC1_CMD :: u16 where "PIC1_CMD = 0x20"
definition PIC1_DATA :: u16 where "PIC1_DATA = 0x21"
definition PIC2_CMD :: u16 where "PIC2_CMD = 0xA0"
definition PIC2_DATA :: u16 where "PIC2_DATA = 0xA1"
definition PIC_EOI :: u8 where "PIC_EOI = 0x20"
definition ICW1_ICW4 :: u8 where "ICW1_ICW4 = 0x01"
definition ICW1_INIT :: u8 where "ICW1_INIT = 0x10"
definition ICW4_8086 :: u8 where "ICW4_8086 = 0x01"

lemmas pic_regs = PIC1_CMD_def PIC1_DATA_def PIC2_CMD_def PIC2_DATA_def PIC_EOI_def
  ICW1_ICW4_def ICW1_INIT_def ICW4_8086_def

definition pic_send_eoi :: "u8 \<Rightarrow> com1 \<Rightarrow> com1" where
  "pic_send_eoi irq d = outb PIC1_CMD PIC_EOI (outb PIC2_CMD PIC_EOI d)"

definition pic_remap :: "com1 \<Rightarrow> com1" where
  "pic_remap d =
     (let (mask1, d) = inb PIC1_DATA d;
          (mask2, d) = inb PIC2_DATA d;
          d = outb PIC1_CMD (ICW1_INIT OR ICW1_ICW4) d;
          d = outb PIC2_CMD (ICW1_INIT OR ICW1_ICW4) d;
          d = outb PIC1_DATA 0x20 d;
          d = outb PIC2_DATA 0x28 d;
          d = outb PIC1_DATA 0x04 d;
          d = outb PIC2_DATA 0x02 d;
          d = outb PIC1_DATA ICW4_8086 d;
          d = outb PIC2_DATA ICW4_8086 d;
          d = outb PIC1_DATA mask1 d
      in outb PIC2_DATA mask2 d)"

definition pic_mask_all :: "com1 \<Rightarrow> com1" where
  "pic_mask_all d = outb PIC2_DATA 0xFF (outb PIC1_DATA 0xFF d)"

definition pic_unmask :: "u8 \<Rightarrow> com1 \<Rightarrow> com1" where
  "pic_unmask irq d =
     (let (port, irq) = (if irq < 8 then (PIC1_DATA, irq) else (PIC2_DATA, irq - 8));
          (v, d) = inb port d
      in outb port (v AND NOT (push_bit (unat irq) 1)) d)"

definition x86_handle_irq :: "u64 \<Rightarrow> 'a irq_state_scheme \<Rightarrow> 'a irq_state_scheme" where
  "x86_handle_irq vec s = emit ''[IRQ] x86_64 IRQ received (vector 0x%lx)\<newline>'' [VWord vec] s"

definition x86_interrupt_init :: "'a irq_state_scheme \<Rightarrow> 'a irq_state_scheme" where
  "x86_interrupt_init s =
     (let s1 = emit ''[PIC] Initializing 8259A PIC...\<newline>'' [] s;
          s2 = s1\<lparr>ports := pic_unmask 1 (pic_mask_all (pic_remap (ports s1)))\<rparr>
      in emit ''[PIC] Initialized. IRQ vectors: 0x20-0x2F\<newline>'' [] s2)"

section \<open>Exceptions\<close>

text \<open>\<^verbatim>\<open>panic\<close> on the kernel's state: its requests to \<^verbatim>\<open>printk\<close>, then the processor stops.\<close>

definition kpanic :: "string \<Rightarrow> 'a kbase_scheme \<Rightarrow> 'a kbase_scheme outcome" where
  "kpanic msg s = Halts (fold (\<lambda>(_, fmt, args). emit fmt args) (panic_calls (\<lambda>_ _. CHR 0x00) msg) s)"

definition arm_handle_exception ::
  "(u64 \<Rightarrow> u32 \<Rightarrow> 'a irq_state_scheme \<Rightarrow> 'a irq_state_scheme) \<Rightarrow> u64 \<Rightarrow> u64 \<Rightarrow> u64 \<Rightarrow>
   'a irq_state_scheme \<Rightarrow> 'a irq_state_scheme outcome" where
  "arm_handle_exception run esr far sp s =
     (let ec = drop_bit 26 esr AND 0x3F;
          s1 = emit ''[EXC] ESR=0x%lx, FAR=0x%lx\<newline>'' [VWord esr, VWord far] s
      in
        if ec = 0x00 then Returns (emit ''[EXC] Unknown exception\<newline>'' [] s1)
        else if ec = 0x15 \<or> ec = 0x16 then
          kpanic ''Instruction abort exception'' (emit ''[EXC] Instruction abort at 0x%lx\<newline>'' [VWord far] s1)
        else if ec = 0x22 \<or> ec = 0x23 then
          kpanic ''Data abort exception'' (emit ''[EXC] Data abort at 0x%lx\<newline>'' [VWord far] s1)
        else if ec = 0x24 then arm_handle_irq run 0 (emit ''[EXC] IRQ\<newline>'' [] s1)
        else if ec = 0x25 then Returns (emit ''[EXC] FIQ (ignored)\<newline>'' [] s1)
        else Returns (emit ''[EXC] Exception class 0x%x\<newline>'' [VWord ec] s1))"

definition exception_names :: "string option list" where
  "exception_names =
     [Some ''Division Error'', Some ''Debug'', Some ''NMI'', Some ''Breakpoint'', Some ''Overflow'',
      Some ''Bound Range Exceeded'', Some ''Invalid Opcode'', Some ''Device Not Available'',
      Some ''Double Fault'', Some ''Coprocessor Segment Overrun'', Some ''Invalid TSS'',
      Some ''Segment Not Present'', Some ''Stack-Segment Fault'', Some ''General Protection Fault'',
      Some ''Page Fault'', None, Some ''x87 FPU Error'', Some ''Alignment Check'',
      Some ''Machine Check'', Some ''SIMD FP Exception'', Some ''Virtualization Exception'']"

text \<open>\<open>cr2\<close> is what the register holds when the handler reads it.\<close>

definition x86_handle_exception ::
  "u64 \<Rightarrow> u64 \<Rightarrow> u64 \<Rightarrow> u64 \<Rightarrow> 'a kbase_scheme \<Rightarrow> 'a kbase_scheme outcome" where
  "x86_handle_exception cr2 vec error_code rip s =
     (let name = (if vec < of_nat (length exception_names) then
                    (case exception_names ! unat vec of Some n \<Rightarrow> n | None \<Rightarrow> ''Unknown'')
                  else ''Unknown'');
          s1 = emit ''[EXC] #%s (vector %lu), code=0x%lx, RIP=0x%lx\<newline>''
                 [VStr (Some name), VWord vec, VWord error_code, VWord rip] s
      in
        if vec = 0 \<or> vec = 6 \<or> vec = 13 then kpanic ''Fatal exception'' s1
        else if vec = 14 then
          kpanic ''Page fault exception'' (emit ''[EXC] Page fault at virtual address 0x%lx\<newline>'' [VWord cr2] s1)
        else if vec = 8 then kpanic ''Double fault exception'' s1
        else Returns (emit ''[EXC] Unhandled exception %lu\<newline>'' [VWord vec] s1))"

end
