(* ===== verification/Mmu.thy ===== *)
theory Mmu
  imports Irq
begin

text \<open>
  The page tables of both architectures (\<^verbatim>\<open>arch/arm64/mm/mmu.c\<close>, \<^verbatim>\<open>arch/x86_64/mm/mmu.c\<close>) and the
  early bump allocators there. The tables are arrays in memory; where the linker puts them
  is an argument. Barriers and TLB maintenance have no effect on this state.
\<close>

section \<open>State\<close>

record mmu_state = irq_state +
  ttbr0_el1 :: u64
  sctlr_el1 :: u64
  cr3 :: u64
  alloc_ptr :: u64

section \<open>AArch64\<close>

definition PT_TABLE :: u64 where "PT_TABLE = 0x3"
definition MT_NORMAL_WB :: u32 where "MT_NORMAL_WB = 0x0C"
definition ATTR_NORMAL_WB :: u32 where "ATTR_NORMAL_WB = push_bit 2 MT_NORMAL_WB OR push_bit 0 1"
definition BLOCK_SIZE_2MB :: u64 where "BLOCK_SIZE_2MB = 2 * 1024 * 1024"

definition pt_block_2mb :: "u64 \<Rightarrow> u32 \<Rightarrow> u64" where
  "pt_block_2mb phys_addr mem_attr =
     (let entry = phys_addr AND NOT 0x1FFFFF;
          entry = entry OR push_bit 2 (ucast (mem_attr AND 0xF))
      in entry OR (push_bit 0 1 OR push_bit 1 1 OR push_bit 10 1 OR push_bit 8 3))"

definition arm_mmu_init :: "u64 \<Rightarrow> u64 \<Rightarrow> u64 \<Rightarrow> 'a mmu_state_scheme \<Rightarrow> 'a mmu_state_scheme" where
  "arm_mmu_init pt_table_l0 pt_table_l1 dtb_phys s =
     (let s1 = for_loop 0 512 (\<lambda>i s. poke64 (pt_table_l1 + 8 * of_nat i) 0
                                      (poke64 (pt_table_l0 + 8 * of_nat i) 0 s)) s;
          s2 = poke64 pt_table_l0 (pt_table_l1 OR PT_TABLE) s1;
          s3 = for_loop 0 512 (\<lambda>i s. poke64 (pt_table_l1 + 8 * of_nat i)
                                      (pt_block_2mb (of_nat i * BLOCK_SIZE_2MB) ATTR_NORMAL_WB) s) s2;
          s4 = s3\<lparr>ttbr0_el1 := pt_table_l0\<rparr>;
          s5 = s4\<lparr>sctlr_el1 := sctlr_el1 s4 OR push_bit 0 1 OR push_bit 1 1 OR push_bit 12 1\<rparr>
      in emit ''[MMU] Enabled, TTBR0=%p\<newline>'' [VWord pt_table_l0] s5)"

section \<open>x86-64\<close>

definition PTE_PRESENT :: u64 where "PTE_PRESENT = push_bit 0 1"
definition PTE_RW :: u64 where "PTE_RW = push_bit 1 1"
definition PTE_HUGE :: u64 where "PTE_HUGE = push_bit 7 1"
definition PTE_GLOBAL :: u64 where "PTE_GLOBAL = push_bit 8 1"
definition HUGE_PAGE_2MB :: u64 where "HUGE_PAGE_2MB = 2 * 1024 * 1024"

definition x86_mmu_init :: "u64 \<Rightarrow> u64 \<Rightarrow> u64 \<Rightarrow> u64 \<Rightarrow> 'a mmu_state_scheme \<Rightarrow> 'a mmu_state_scheme" where
  "x86_mmu_init pml4 pdpt pd multiboot_info s =
     (let s1 = kmemset pd 0 (4 * 512 * 8) (kmemset pdpt 0 (512 * 8) (kmemset pml4 0 (512 * 8) s));
          s2 = poke64 pml4 (pdpt OR PTE_PRESENT OR PTE_RW) s1;
          s3 = for_loop 0 4 (\<lambda>i s.
                 for_loop 0 512 (\<lambda>j s.
                   let phys = of_nat (i * 512 + j) * HUGE_PAGE_2MB
                   in poke64 (pd + of_nat i * 4096 + 8 * of_nat j)
                        (phys OR PTE_PRESENT OR PTE_RW OR PTE_HUGE OR PTE_GLOBAL) s)
                   (poke64 (pdpt + 8 * of_nat i)
                     ((pd + of_nat i * 4096) OR PTE_PRESENT OR PTE_RW) s)) s2;
          s4 = s3\<lparr>cr3 := pml4\<rparr>
      in emit ''[MMU] x86_64 page tables initialized, PML4=%p\<newline>'' [VWord pml4] s4)"

section \<open>The early allocators\<close>

text \<open>Both start from their own constant; \<open>alloc_ptr\<close> is the static variable.\<close>

definition ARM_ALLOC_START :: u64 where "ARM_ALLOC_START = 0x10000000"
definition X86_ALLOC_START :: u64 where "X86_ALLOC_START = 0x20000000"

definition kmalloc_simple :: "u64 \<Rightarrow> 'a mmu_state_scheme \<Rightarrow> u64 \<times> 'a mmu_state_scheme" where
  "kmalloc_simple sz s =
     (let sz1 = (sz + 0xFFF) AND NOT 0xFFF
      in (alloc_ptr s, s\<lparr>alloc_ptr := alloc_ptr s + sz1\<rparr>))"

end
