(* ===== verification/Services.thy ===== *)
theory Services
  imports Mmu Format Printk
begin

text \<open>
  System calls (\<^verbatim>\<open>lib/syscall.c\<close>), the file system stubs (\<^verbatim>\<open>lib/fs.c\<close>) and standard output
  (\<^verbatim>\<open>lib/stdio.c\<close>). System calls and standard output write to the serial line themselves, between
  the lines they report with \<^verbatim>\<open>printk\<close>: both go through the driver's \<^verbatim>\<open>uart_putc\<close>, an argument
  here, over the state of its device, in the order of the source. No value means that
  the device never becomes ready.
\<close>

section \<open>Requests on the line\<close>

text \<open>
  Carrying out requests to \<^verbatim>\<open>printk\<close>. \<open>g i\<close> is what the stack holds where the buffer of the \<open>i\<close>-th
  request is. A request whose arguments do not fit its format has no defined effect and leaves the
  line as it is; it stays in the log, where it is seen.
\<close>

definition print_msg ::
  "(char \<Rightarrow> 'd \<Rightarrow> 'd option) \<Rightarrow> (nat \<Rightarrow> char) \<Rightarrow> string \<times> va list \<Rightarrow> 'd \<Rightarrow> 'd option" where
  "print_msg putc g m d =
     map_option (\<lambda>r. case r of Inl e \<Rightarrow> d | Inr (_, d') \<Rightarrow> d') (printk putc g (fst m) (snd m) d)"

primrec print_msgs ::
  "(char \<Rightarrow> 'd \<Rightarrow> 'd option) \<Rightarrow> (nat \<Rightarrow> nat \<Rightarrow> char) \<Rightarrow> nat \<Rightarrow> (string \<times> va list) list \<Rightarrow> 'd \<Rightarrow> 'd option" where
  "print_msgs putc g n [] d = Some d"
| "print_msgs putc g n (m # ms) d = Option.bind (print_msg putc (g n) m d) (print_msgs putc g (Suc n) ms)"

text \<open>The requests made between two states.\<close>

definition flush ::
  "(char \<Rightarrow> 'd \<Rightarrow> 'd option) \<Rightarrow> (nat \<Rightarrow> nat \<Rightarrow> char) \<Rightarrow> 'a kbase_scheme \<Rightarrow> 'a kbase_scheme \<Rightarrow> 'd \<Rightarrow> 'd option" where
  "flush putc g s s' d = print_msgs putc g (length (klog s)) (drop (length (klog s)) (klog s')) d"

definition kprint ::
  "(char \<Rightarrow> 'd \<Rightarrow> 'd option) \<Rightarrow> (nat \<Rightarrow> nat \<Rightarrow> char) \<Rightarrow> string \<Rightarrow> va list \<Rightarrow> 'a kbase_scheme \<times> 'd \<Rightarrow>
   ('a kbase_scheme \<times> 'd) option" where
  "kprint putc g fmt args st =
     (let s1 = emit fmt args (fst st) in map_option (Pair s1) (flush putc g (fst st) s1 (snd st)))"

section \<open>File system\<close>

definition vfs_mount :: "string \<Rightarrow> string \<Rightarrow> string \<Rightarrow> 'a kbase_scheme \<Rightarrow> int \<times> 'a kbase_scheme" where
  "vfs_mount device mountpoint fstype s =
     (-1, emit ''[FS] Mount %s -> %s (%s) - not implemented\<newline>''
            [VStr (Some device), VStr (Some mountpoint), VStr (Some fstype)] s)"

definition vfs_read :: "int \<Rightarrow> u64 \<Rightarrow> u64 \<Rightarrow> 'a kbase_scheme \<Rightarrow> int \<times> 'a kbase_scheme" where
  "vfs_read fd buf cnt s =
     (-1, emit ''[FS] read(fd=%d, count=%zu) - not implemented\<newline>'' [int_arg fd, VWord cnt] s)"

definition vfs_write :: "int \<Rightarrow> u64 \<Rightarrow> u64 \<Rightarrow> 'a kbase_scheme \<Rightarrow> int \<times> 'a kbase_scheme" where
  "vfs_write fd buf cnt s =
     (-1, emit ''[FS] write(fd=%d, count=%zu) - not implemented\<newline>'' [int_arg fd, VWord cnt] s)"

definition vfs_open :: "string \<Rightarrow> int \<Rightarrow> 'a kbase_scheme \<Rightarrow> int \<times> 'a kbase_scheme" where
  "vfs_open pathname flags s =
     (-1, emit (''[FS] open('' @ [CHR 0x22] @ ''%s'' @ [CHR 0x22] @ '', 0x%x) - not implemented\<newline>'')
            [VStr (Some pathname), int_arg flags] s)"

definition vfs_close :: "int \<Rightarrow> 'a kbase_scheme \<Rightarrow> int \<times> 'a kbase_scheme" where
  "vfs_close fd s = (0, emit ''[FS] close(%d)\<newline>'' [int_arg fd] s)"

definition vfs_lseek :: "int \<Rightarrow> int \<Rightarrow> int \<Rightarrow> 'a kbase_scheme \<Rightarrow> int \<times> 'a kbase_scheme" where
  "vfs_lseek fd offset whence s =
     (-1, emit ''[FS] lseek(fd=%d, offset=%ld, whence=%d) - not implemented\<newline>''
            [int_arg fd, int_arg offset, int_arg whence] s)"

definition fs_init :: "'a kbase_scheme \<Rightarrow> 'a kbase_scheme" where
  "fs_init s = emit ''[FS] Filesystem initialized (stub)\<newline>'' [] s"

section \<open>Writing a buffer to the serial line\<close>

primrec put_buffer ::
  "(char \<Rightarrow> 'd \<Rightarrow> 'd option) \<Rightarrow> mem \<Rightarrow> u64 \<Rightarrow> nat \<Rightarrow> 'd \<Rightarrow> 'd option" where
  "put_buffer putc m buf 0 d = Some d"
| "put_buffer putc m buf (Suc n) d =
     Option.bind (putc (char_of (unat (m buf))) d) (put_buffer putc m (buf + 1) n)"

section \<open>Standard output\<close>

text \<open>
  \<open>buf\<close> is the address of the local array of 256 bytes, \<open>stdout_ptr\<close> the global \<^verbatim>\<open>stdout\<close>. A
  text of 256 characters or more is written over the end of the array, which C leaves undefined.
\<close>

definition printf ::
  "(char \<Rightarrow> 'd \<Rightarrow> 'd option) \<Rightarrow> (nat \<Rightarrow> nat \<Rightarrow> char) \<Rightarrow> u64 \<Rightarrow> u64 \<Rightarrow> string \<Rightarrow> va list \<Rightarrow> 'a kbase_scheme \<times> 'd \<Rightarrow>
   (fmt_error + nat \<times> 'a kbase_scheme \<times> 'd) option" where
  "printf putc g buf stdout_ptr fmt ap st =
     (let (s, d) = st in
      case vsprintf (kmem s) buf fmt ap of
        Inl e \<Rightarrow> Some (Inl e)
      | Inr (m, ret) \<Rightarrow>
          if 256 \<le> ret then Some (Inl BufOverrun)
          else
            let s1 = s\<lparr>kmem := m\<rparr> in
            if stdout_ptr \<noteq> 0 then
              let s2 = snd (vfs_write 1 buf (of_nat ret) s1)
              in map_option (\<lambda>d'. Inr (ret, s2, d')) (flush putc g s1 s2 d)
            else map_option (\<lambda>d'. Inr (ret, s1, d')) (put_buffer putc m buf ret d))"

definition fprintf :: "u64 \<Rightarrow> string \<Rightarrow> 'a kbase_scheme \<Rightarrow> int \<times> 'a kbase_scheme" where
  "fprintf stream fmt s = (-1, emit ''[STDIO] fprintf not fully implemented\<newline>'' [] s)"

definition fgets :: "u64 \<Rightarrow> int \<Rightarrow> u64 \<Rightarrow> 'a kbase_scheme \<Rightarrow> u64 \<times> 'a kbase_scheme" where
  "fgets p sz stream s = (0, emit ''[STDIO] fgets not implemented\<newline>'' [] s)"

definition getchar :: "('d \<Rightarrow> (u8 \<times> 'd) option) \<Rightarrow> 'd \<Rightarrow> (int \<times> 'd) option" where
  "getchar getc d = map_option (\<lambda>(c, d'). (uint c, d')) (getc d)"

definition putchar :: "(char \<Rightarrow> 'd \<Rightarrow> 'd option) \<Rightarrow> u32 \<Rightarrow> 'd \<Rightarrow> (u32 \<times> 'd) option" where
  "putchar putc c d = map_option (\<lambda>d'. (c, d')) (putc (char_of (unat (ucast c :: u8))) d)"

section \<open>System calls\<close>

definition SYS_EXIT :: u64 where "SYS_EXIT = 0"
definition SYS_FORK :: u64 where "SYS_FORK = 1"
definition SYS_READ :: u64 where "SYS_READ = 2"
definition SYS_WRITE :: u64 where "SYS_WRITE = 3"
definition SYS_OPEN :: u64 where "SYS_OPEN = 4"
definition SYS_CLOSE :: u64 where "SYS_CLOSE = 5"
definition SYS_GETPID :: u64 where "SYS_GETPID = 8"
definition SYS_MALLOC :: u64 where "SYS_MALLOC = 11"
definition SYS_FREE :: u64 where "SYS_FREE = 12"
definition SYS_TIME :: u64 where "SYS_TIME = 14"

lemmas syscall_numbers = SYS_EXIT_def SYS_FORK_def SYS_READ_def SYS_WRITE_def SYS_OPEN_def
  SYS_CLOSE_def SYS_GETPID_def SYS_MALLOC_def SYS_FREE_def SYS_TIME_def

text \<open>
  The switch: the value of \<^verbatim>\<open>ret\<close>, a 32-bit integer, and the new state, for every number but
  that of exit.
\<close>

definition syscall_body ::
  "(char \<Rightarrow> 'd \<Rightarrow> 'd option) \<Rightarrow> (nat \<Rightarrow> nat \<Rightarrow> char) \<Rightarrow> u64 \<Rightarrow> u64 \<Rightarrow> u64 \<Rightarrow> u64 \<Rightarrow> 'a mmu_state_scheme \<times> 'd \<Rightarrow>
   (u32 \<times> 'a mmu_state_scheme \<times> 'd) option" where
  "syscall_body putc g num arg1 arg2 arg3 st =
     (if num = SYS_FORK then map_option (Pair (-1)) (kprint putc g ''[SYSCALL] fork()\<newline>'' [] st)
      else if num = SYS_READ then
        map_option (Pair (-1))
          (kprint putc g ''[SYSCALL] read(fd=%ld, buf=%p, count=%ld)\<newline>'' [VWord arg1, VWord arg2, VWord arg3] st)
      else if num = SYS_WRITE then
        Option.bind (kprint putc g ''[SYSCALL] write(fd=%ld, buf=%p, count=%ld)\<newline>'' [VWord arg1, VWord arg2, VWord arg3] st)
          (\<lambda>(s, d).
             if arg1 = 1 \<or> arg1 = 2 then
               map_option (\<lambda>d'. (ucast arg3, s, d')) (put_buffer putc (kmem s) arg2 (unat arg3) d)
             else Some (0, s, d))
      else if num = SYS_OPEN then
        map_option (Pair (-1)) (kprint putc g ''[SYSCALL] open(%p, 0x%lx)\<newline>'' [VWord arg1, VWord arg2] st)
      else if num = SYS_CLOSE then map_option (Pair 0) (kprint putc g ''[SYSCALL] close(%ld)\<newline>'' [VWord arg1] st)
      else if num = SYS_GETPID then Some (1, st)
      else if num = SYS_MALLOC then
        Option.bind (kprint putc g ''[SYSCALL] malloc(%ld)\<newline>'' [VWord arg1] st)
          (\<lambda>(s, d). let (p, s1) = kmalloc_simple arg1 s in Some (ucast p, s1, d))
      else if num = SYS_FREE then map_option (Pair 0) (kprint putc g ''[SYSCALL] free(%p)\<newline>'' [VWord arg1] st)
      else if num = SYS_TIME then map_option (Pair 0) (kprint putc g ''[SYSCALL] time()\<newline>'' [] st)
      else map_option (Pair (-1)) (kprint putc g ''[SYSCALL] Unknown syscall %ld\<newline>'' [VWord num] st))"

definition syscall_handler ::
  "(char \<Rightarrow> 'd \<Rightarrow> 'd option) \<Rightarrow> (nat \<Rightarrow> nat \<Rightarrow> char) \<Rightarrow> u64 \<Rightarrow> u64 \<Rightarrow> u64 \<Rightarrow> u64 \<Rightarrow> u64 \<Rightarrow> u64 \<Rightarrow> u64 \<Rightarrow>
   'a mmu_state_scheme \<times> 'd \<Rightarrow> ('a mmu_state_scheme \<times> 'd) outcome option" where
  "syscall_handler putc g syscall_num arg1 arg2 arg3 arg4 arg5 arg6 st =
     (if syscall_num = SYS_EXIT then
        map_option Halts (kprint putc g ''[SYSCALL] exit(%ld)\<newline>'' [VWord arg1] st)
      else
        Option.bind (syscall_body putc g syscall_num arg1 arg2 arg3 st)
          (\<lambda>(ret, st1). map_option Returns
             (kprint putc g ''[SYSCALL] syscall %ld returned %ld\<newline>'' [VWord syscall_num, VWord (scast ret)] st1)))"

section \<open>Lines and logs\<close>

lemma print_msgs_append:
  "print_msgs putc g n (ms @ ms') d =
     Option.bind (print_msgs putc g n ms d) (print_msgs putc g (n + length ms) ms')"
proof (induction ms arbitrary: n d)
  case (Cons m ms)
  have "print_msgs putc g (Suc n) (ms @ ms') =
      (\<lambda>d. Option.bind (print_msgs putc g (Suc n) ms d) (print_msgs putc g (Suc n + length ms) ms'))"
    by (rule ext) (rule Cons.IH)
  then show ?case by simp
qed simp

lemma flush_refl [simp]: "flush putc g s s d = Some d"
  by (simp add: flush_def)

lemma flush_emit: "flush putc g s (emit fmt args s) d = print_msg putc (g (length (klog s))) (fmt, args) d"
  by (cases "print_msg putc (g (length (klog s))) (fmt, args) d") (simp_all add: flush_def)

lemma flush_trans:
  assumes "klog s' = klog s @ ms" "klog s'' = klog s' @ ms'"
  shows "flush putc g s s'' d = Option.bind (flush putc g s s' d) (flush putc g s' s'')"
proof -
  have "flush putc g s' s'' = print_msgs putc g (length (klog s) + length ms) ms'"
    by (rule ext) (simp add: flush_def assms)
  then show ?thesis using assms by (simp add: flush_def [of _ _ s] print_msgs_append)
qed

lemma kprint_cases:
  assumes "kprint putc g fmt args st = Some st'"
  shows "fst st' = emit fmt args (fst st)" "flush putc g (fst st) (fst st') (snd st) = Some (snd st')"
  using assms by (auto simp: kprint_def Let_def)

end
