(* ===== verification/Kernel.thy ===== *)
theory Kernel
  imports Services
begin

text \<open>
  The start of the kernel on both architectures (\<^verbatim>\<open>arch/arm64/kernel.c\<close>,
  \<^verbatim>\<open>arch/x86_64/kernel.c\<close> and the \<^verbatim>\<open>mmu_enable\<close> of the two \<^verbatim>\<open>mmu.c\<close>). Neither
  \<^verbatim>\<open>kernel_main\<close> returns; its value is the state in which it stops. The addresses the linker and
  the loader choose, and the date and time of the build, are arguments.
\<close>

definition arm_kernel_main ::
  "target \<Rightarrow> u64 \<Rightarrow> u64 \<Rightarrow> u64 \<Rightarrow> u64 \<Rightarrow> u64 \<Rightarrow> 'a mmu_state_scheme \<Rightarrow> 'a mmu_state_scheme outcome" where
  "arm_kernel_main T main_addr bss_start bss_end init_addr dtb_ptr s =
     (let s = emit ''\<newline>'' [] s;
          s = emit ''========================================\<newline>'' [] s;
          s = emit ''   Shlte OS v0.1 - ARM64 Microkernel   \<newline>'' [] s;
          s = emit ''========================================\<newline>'' [] s;
          s = emit ''\<newline>'' [] s;
          s = emit ''[INIT] Initializing interrupt subsystem...\<newline>'' [] s;
          s = arm_interrupt_init s;
          s = emit ''[INIT] Interrupt subsystem initialized.\<newline>'' [] s;
          s = emit ''[INIT] Initializing filesystem...\<newline>'' [] s;
          s = fs_init s;
          s = emit ''[INIT] Filesystem initialized.\<newline>'' [] s;
          s = emit ''\<newline>'' [] s;
          s = emit ''[SYS] Kernel loaded at physical address 0x%lx\<newline>'' [VWord main_addr] s;
          s = emit ''[SYS] Device tree at 0x%lx\<newline>'' [VWord dtb_ptr] s;
          s = emit ''[SYS] BSS: __bss_start=%p, __bss_end=%p\<newline>'' [VWord bss_start, VWord bss_end] s;
          s = emit ''\<newline>'' [] s;
          s = emit ''[INIT] Starting user space initialization...\<newline>'' [] s;
          s = usr_init s;
          s = emit ''[INIT] User space initialized.\<newline>'' [] s;
          s = emit ''[INIT] Starting init process...\<newline>'' [] s;
          s = init_process T init_addr s
      in Halts (emit ''[FATAL] Init process exited! Halting...\<newline>'' [] s))"

definition x86_kernel_main ::
  "target \<Rightarrow> string \<Rightarrow> string \<Rightarrow> u64 \<Rightarrow> u64 \<Rightarrow> u64 \<Rightarrow> u64 \<Rightarrow> 'a mmu_state_scheme \<Rightarrow> 'a mmu_state_scheme outcome" where
  "x86_kernel_main T date time kernel_end static_bitmap init_addr multiboot_info s =
     (let s = emit ''\<newline>'' [] s;
          s = emit ''=====================================================\<newline>'' [] s;
          s = emit ''  Shlte OS Kernel (x86_64)\<newline>'' [] s;
          s = emit ''  Built: %s %s\<newline>'' [VStr (Some date), VStr (Some time)] s;
          s = emit ''=====================================================\<newline>\<newline>'' [] s;
          s = emit ''[KERN] Initializing memory manager...\<newline>'' [] s;
          s = mm_init kernel_end static_bitmap s;
          s = emit ''[KERN] Initializing interrupts...\<newline>'' [] s;
          s = x86_interrupt_init s;
          s = emit ''[KERN] Initializing filesystem...\<newline>'' [] s;
          s = fs_init s;
          s = emit ''[KERN] Initializing user space...\<newline>'' [] s;
          s = usr_init s;
          s = emit ''[KERN] Starting init process...\<newline>'' [] s;
          s = init_process T init_addr s
      in Halts (emit ''[KERN] Kernel initialized successfully.\<newline>'' [] s))"

text \<open>The lines after the call of \<^verbatim>\<open>kernel_main\<close> are reached only if that returned.\<close>

definition after_main :: "'a mmu_state_scheme outcome \<Rightarrow> 'a mmu_state_scheme outcome" where
  "after_main r =
     (case r of Returns s \<Rightarrow> Halts (emit ''[FATAL] mmu_enable: kernel_main returned!\<newline>'' [] s) | _ \<Rightarrow> r)"

definition arm_mmu_enable ::
  "target \<Rightarrow> u64 \<Rightarrow> u64 \<Rightarrow> u64 \<Rightarrow> u64 \<Rightarrow> u64 \<Rightarrow> u64 \<Rightarrow> 'a mmu_state_scheme \<Rightarrow> 'a mmu_state_scheme outcome" where
  "arm_mmu_enable T pt_table_l0 pt_table_l1 main_addr bss_start bss_end init_addr s =
     (let s = arm_mmu_init pt_table_l0 pt_table_l1 0 s;
          s = emit ''[BOOT] MMU enabled, entering kernel_main...\<newline>'' [] s
      in after_main (arm_kernel_main T main_addr bss_start bss_end init_addr 0 s))"

definition x86_mmu_enable ::
  "target \<Rightarrow> u64 \<Rightarrow> u64 \<Rightarrow> u64 \<Rightarrow> string \<Rightarrow> string \<Rightarrow> u64 \<Rightarrow> u64 \<Rightarrow> u64 \<Rightarrow> 'a mmu_state_scheme \<Rightarrow>
   'a mmu_state_scheme outcome" where
  "x86_mmu_enable T pml4 pdpt pd date time kernel_end static_bitmap init_addr s =
     (let s = x86_mmu_init pml4 pdpt pd 0 s;
          s = emit ''[BOOT] MMU enabled, entering kernel_main...\<newline>'' [] s
      in after_main (x86_kernel_main T date time kernel_end static_bitmap init_addr 0 s))"

end
