(* ===== verification/Printk_Spec.thy ===== *)
theory Printk_Spec
  imports Printk
begin

text \<open>
  What \<^verbatim>\<open>printk\<close> puts on the line: the digits \<^verbatim>\<open>format_number\<close> produces, text and string
  arguments verbatim, numbers not at all, and what happens to a text that does not fit.
\<close>

section \<open>Numbers\<close>

lemma swap_ends_length [simp]: "length (swap_ends n i xs) = length xs"
  by (simp add: swap_ends_def Let_def)

lemma swap_ends_nth:
  assumes "length xs = n" "Suc i \<le> n div 2" "j < n"
  shows "swap_ends n i xs ! j = (if j = i then xs ! (n - 1 - i) else if j = n - 1 - i then xs ! i else xs ! j)"
proof -
  have "i < n" "n - 1 - i < n" "i \<noteq> n - 1 - i" using assms by linarith+
  then show ?thesis using assms(1,3) by (simp add: swap_ends_def Let_def nth_list_update)
qed

lemma reverse_digits_rev: "reverse_digits xs = rev xs"
proof -
  define n where "n = length xs"
  let ?P = "\<lambda>i ys. length ys = n \<and> (\<forall>j<n. ys ! j = (if j < i \<or> n - i \<le> j then xs ! (n - 1 - j) else xs ! j))"
  have "?P (0 + n div 2) (for_loop 0 (n div 2) (swap_ends n) xs)"
  proof (rule for_loop_inv)
    show "?P 0 xs" by (simp add: n_def)
    fix i ys assume i: "i < 0 + n div 2" and P: "?P i ys"
    have b: "Suc i \<le> n div 2" "i < n - 1 - i" "n - 1 - i < n" using i by linarith+
    show "?P (Suc i) (swap_ends n i ys)"
    proof (intro conjI allI impI)
      fix j assume j: "j < n"
      consider "j = i" | "j = n - 1 - i" | "j \<noteq> i" "j \<noteq> n - 1 - i" by blast
      then show "swap_ends n i ys ! j =
          (if j < Suc i \<or> n - Suc i \<le> j then xs ! (n - 1 - j) else xs ! j)"
      proof cases
        case 1
        then show ?thesis using P b swap_ends_nth [of ys n i j] j by (simp split: if_splits)
      next
        case 2
        then show ?thesis using P b swap_ends_nth [of ys n i j] j by (simp split: if_splits)
      next
        case 3
        then have "j < i \<or> n - i \<le> j \<longleftrightarrow> j < Suc i \<or> n - Suc i \<le> j" using b j by linarith
        then show ?thesis using 3 P b swap_ends_nth [of ys n i j] j by simp
      qed
    qed (use P in simp)
  qed
  then have P: "?P (n div 2) (reverse_digits xs)" by (simp add: reverse_digits_def n_def)
  show ?thesis
  proof (rule nth_equalityI)
    show "length (reverse_digits xs) = length (rev xs)" using P by (simp add: n_def)
    fix j assume "j < length (reverse_digits xs)"
    then have j: "j < n" using P by simp
    have "j < n div 2 \<or> n - n div 2 \<le> j \<or> n - 1 - j = j" using j by linarith
    then show "reverse_digits xs ! j = rev xs ! j" using P j by (auto simp: rev_nth n_def)
  qed
qed

lemma digits_dec: "d < 10 \<Longrightarrow> digits ! unat d = dec_char d"
proof -
  assume "d < 10"
  then have "unat d \<in> set [0..<10]" by (simp add: word_less_nat_alt)
  then have "digits ! unat d = char_of (48 + unat d)" by (auto simp: digits_def upt_rec char_of_def bit_simps)
  then show ?thesis by (simp add: dec_char_def)
qed

lemma digits_hex: "d < 16 \<Longrightarrow> digits ! unat d = hex_char d"
proof -
  assume "d < 16"
  then have "unat d \<in> set [0..<16]" by (simp add: word_less_nat_alt)
  then have "digits ! unat d = (if unat d < 10 then char_of (48 + unat d) else char_of (97 + unat d - 10))"
    by (auto simp: digits_def upt_rec char_of_def bit_simps)
  then show ?thesis by (simp add: hex_char_def word_less_nat_alt)
qed

lemma dec_loop_gen:
  assumes "unat val < 10 ^ n" "0 < val"
  shows "dec_loop n val acc = rev (gen_digits val 10) @ acc"
  using assms
proof (induction n arbitrary: val acc)
  case 0
  then show ?case by (simp add: word_less_nat_alt)
next
  case (Suc n)
  have d: "digits ! unat (val mod 10) = dec_char (val mod 10)"
    by (rule digits_dec) (simp add: word_less_nat_alt unat_div10)
  have lt: "unat (val div 10) < 10 ^ n" using Suc.prems(1) by (simp add: unat_div10 div_less_iff_less_mult ac_simps)
  have g: "gen_digits val 10 = dec_char (val mod 10) # gen_digits (val div 10) 10"
    using Suc.prems(2) d by (subst gen_digits.simps) simp
  show ?case
  proof (cases "0 < val div 10")
    case True
    with lt have "0 < n" by (cases n) (auto simp: word_less_nat_alt)
    with True Suc.IH [OF lt True] g show ?thesis by simp
  next
    case False
    then have "gen_digits (val div 10) 10 = []" by (subst gen_digits.simps) simp
    with False g show ?thesis by simp
  qed
qed

lemma hex_loop_gen:
  assumes "unat val < 16 ^ n" "0 < val"
  shows "hex_loop n val acc = rev (gen_digits val 16) @ acc"
  using assms
proof (induction n arbitrary: val acc)
  case 0
  then show ?case by (simp add: word_less_nat_alt)
next
  case (Suc n)
  have m: "val AND 0xF = val mod 16" "drop_bit 4 val = val div 16"
    using take_bit_eq_mask [of 4 val] take_bit_eq_mod [of 4 val]
    by (simp_all add: drop_bit_eq_div mask_eq_exp_minus_1)
  have d: "digits ! unat (val mod 16) = hex_char (val mod 16)"
    by (rule digits_hex) (simp add: word_less_nat_alt unat_mod_distrib)
  have u: "unat (val div 16) = unat val div 16" by (simp add: unat_div_distrib)
  have lt: "unat (val div 16) < 16 ^ n" using Suc.prems(1) by (simp add: u div_less_iff_less_mult ac_simps)
  have g: "gen_digits val 16 = hex_char (val mod 16) # gen_digits (val div 16) 16"
    using Suc.prems(2) d by (subst gen_digits.simps) simp
  show ?case
  proof (cases "0 < val div 16")
    case True
    with lt have "0 < n" by (cases n) (auto simp: word_less_nat_alt)
    with True Suc.IH [OF lt True] g show ?thesis by (simp add: m)
  next
    case False
    then have "gen_digits (val div 16) 16 = []" by (subst gen_digits.simps) simp
    with False g show ?thesis by (simp add: m)
  qed
qed


text \<open>
  C31: \<^verbatim>\<open>printk\<close>'s \<^verbatim>\<open>format_number\<close> and the number loops of \<^verbatim>\<open>vsprintf\<close> in the string
  library produce the same digits for every non-zero value, in both bases, and in base 10
  these are the decimal numeral of the value.
\<close>

theorem format_number_digits:
  assumes "val \<noteq> 0"
  shows "format_number val 10 sg sign fl prec = dec_loop 31 val [] \<and>
    format_number val 16 sg sign fl prec = hex_loop 31 val [] \<and>
    numeral_of (unat val) (format_number val 10 sg sign fl prec)"
proof -
  have v: "0 < val" using assms by (simp add: word_neq_0_conv)
  have "unat val < 10 ^ 31" "unat val < 16 ^ 31"
    by (rule less_trans [OF unat_less_2p64], simp)+
  note dec_loop_gen [OF this(1) v, of "[]"] hex_loop_gen [OF this(2) v, of "[]"]
  with assms dec_loop_word [of val] show ?thesis
    by (simp add: format_number_def reverse_digits_rev)
qed

theorem format_number_digits_witness:
  "format_number 4096 10 True None 0 (- 1) = ''4096'' \<and> format_number 4096 16 False None 0 (- 1) = ''1000''"
proof -
  have "dec_loop 31 4096 [] = ''4096''" "hex_loop 31 4096 [] = ''1000''" by code_simp+
  with format_number_digits [of 4096] show ?thesis by simp
qed

section \<open>Text and strings\<close>

text \<open>
  Formats without numbers, as the kernel uses them for its messages: literal characters,
  percent signs and string arguments; the format, the arguments and the text they mean.
\<close>

datatype piece = Lit char | Pct | Str string

primrec piece_fmt :: "piece \<Rightarrow> string" where
  "piece_fmt (Lit c) = [c]"
| "piece_fmt Pct = ''%%''"
| "piece_fmt (Str s) = ''%s''"

primrec piece_args :: "piece \<Rightarrow> va list" where
  "piece_args (Lit c) = []"
| "piece_args Pct = []"
| "piece_args (Str s) = [VStr (Some s)]"

primrec piece_text :: "piece \<Rightarrow> string" where
  "piece_text (Lit c) = [c]"
| "piece_text Pct = ''%''"
| "piece_text (Str s) = s"

abbreviation fmt_of :: "piece list \<Rightarrow> string" where "fmt_of ps \<equiv> concat (map piece_fmt ps)"
abbreviation args_of :: "piece list \<Rightarrow> va list" where "args_of ps \<equiv> concat (map piece_args ps)"
abbreviation text_of :: "piece list \<Rightarrow> string" where "text_of ps \<equiv> concat (map piece_text ps)"

abbreviation bare :: conv_spec where
  "bare \<equiv> \<lparr>cflags = 0, cwidth = 0, cprec = - 1, clen = LEN_NONE\<rparr>"

lemma room_512: "room 512 st \<longleftrightarrow> pos st < 511"
  by (simp add: room_def)

lemma put_counted_pos: "pos (put_counted 512 c st) = (if pos st < 511 then Suc (pos st) else pos st)"
  by (simp add: put_counted_def room_512 count_def put_char_def)

lemma put_guarded_eq: "pos st < 511 \<Longrightarrow> put_guarded 512 c st = put_counted 512 c st"
  by (simp add: put_guarded_def put_counted_def room_512)

lemma put_string_append: "put_string sz (s @ t) st = put_string sz t (put_string sz s st)"
  by (induction s arbitrary: st) simp_all

lemma put_string_pos:
  "pos st + length s \<le> 511 \<Longrightarrow> pos (put_string 512 s st) = pos st + length s"
  by (induction s arbitrary: st) (simp_all add: put_counted_pos)

text \<open>What the buffer holds after a string that fits.\<close>

definition overlay :: "nat \<Rightarrow> string \<Rightarrow> (nat \<Rightarrow> char) \<Rightarrow> nat \<Rightarrow> char" where
  "overlay p s g = (\<lambda>i. if p \<le> i \<and> i < p + length s then s ! (i - p) else g i)"

lemma overlay_Nil [simp]: "overlay p [] g = g"
  by (auto simp: overlay_def fun_eq_iff)

lemma overlay_Cons: "overlay p (c # s) g = overlay (Suc p) s (g(p := c))"
  by (auto simp: overlay_def fun_eq_iff nth_Cons' Suc_diff_Suc not_le)

lemma put_string_fits:
  assumes "pos st + length s \<le> 511"
  shows "put_string 512 s st = st\<lparr>ob := overlay (pos st) s (ob st), pos := pos st + length s,
    written := written st + int (length s)\<rparr>"
  using assms
proof (induction s arbitrary: st)
  case Nil
  then show ?case by simp
next
  case (Cons c s)
  have "put_counted 512 c st =
      st\<lparr>ob := (ob st)(pos st := c), pos := Suc (pos st), written := written st + 1\<rparr>"
    using Cons.prems by (simp add: put_counted_def room_512 count_def put_char_def)
  with Cons show ?case by (simp add: overlay_Cons fun_upd_def algebra_simps)
qed

lemma print_loop_piece:
  assumes "p \<noteq> Lit (CHR ''%'')" "pos st + length (piece_text p) \<le> 511"
  shows "print_loop 512 (piece_fmt p @ fmt) (piece_args p @ ap) st =
    print_loop 512 fmt ap (put_string 512 (piece_text p) st)"
proof (cases p)
  case (Lit c)
  with assms show ?thesis by (simp add: put_guarded_eq)
next
  case Pct
  have "parse_spec (CHR ''%'' # fmt) = Inr (bare, CHR ''%'' # fmt)"
    by (simp add: parse_spec_def parse_width_def parse_precision_def)
  with Pct show ?thesis by (simp add: print_conv_def)
next
  case (Str s)
  have "parse_spec (CHR ''s'' # fmt) = Inr (bare, CHR ''s'' # fmt)"
    by (simp add: parse_spec_def parse_width_def parse_precision_def)
  with Str show ?thesis
    by (simp add: print_conv_def put_text_def put_pad_def left_def Let_def)
qed

lemma print_loop_pieces:
  assumes "Lit (CHR ''%'') \<notin> set ps" "pos st + length (text_of ps) \<le> 511"
  shows "print_loop 512 (fmt_of ps) (args_of ps) st = Inr (put_string 512 (text_of ps) st)"
  using assms
proof (induction ps arbitrary: st)
  case (Cons p ps)
  from Cons.prems have "pos st + length (piece_text p) \<le> 511" by simp
  with Cons print_loop_piece [of p st "fmt_of ps" "args_of ps"] show ?case
    by (auto simp: put_string_pos put_string_append)
qed simp

lemma until_nul_overlay:
  assumes "CHR 0x00 \<notin> set s" "b (p + length s) = CHR 0x00"
  shows "until_nul (overlay p s b) p = Some s"
  using assms
proof (induction s arbitrary: p b)
  case Nil
  then show ?case by (subst until_nul.simps) (simp add: overlay_def)
next
  case (Cons c s)
  have "until_nul (overlay (Suc p) s (b(p := c))) (Suc p) = Some s"
    using Cons.prems by (intro Cons.IH) auto
  moreover have "overlay (Suc p) s (b(p := c)) p = c" by (simp add: overlay_def)
  ultimately show ?case
    using Cons.prems unfolding overlay_Cons by (subst until_nul.simps) auto
qed

lemma printk_pieces:
  assumes "Lit (CHR ''%'') \<notin> set ps" "length (text_of ps) \<le> 510" "CHR 0x00 \<notin> set (text_of ps)"
  shows "printk putc g (fmt_of ps) (args_of ps) d =
    Option.bind (uart_puts putc (text_of ps) d) (\<lambda>d'. Some (Inr (int (length (text_of ps)), d')))"
proof -
  let ?t = "text_of ps" and ?st = "\<lparr>ob = g, pos = 0, written = 0\<rparr>"
  have "print_loop 512 (fmt_of ps) (args_of ps) ?st = Inr (put_string 512 ?t ?st)"
    using assms(1,2) by (intro print_loop_pieces) simp_all
  moreover have "put_string 512 ?t ?st =
      ?st\<lparr>ob := overlay 0 ?t g, pos := length ?t, written := int (length ?t)\<rparr>"
    using put_string_fits [of ?st ?t] assms(2) by simp
  moreover have "(overlay 0 ?t g)(length ?t := CHR 0x00) = overlay 0 ?t (g(length ?t := CHR 0x00))"
    by (auto simp: overlay_def fun_eq_iff)
  moreover have "until_nul (overlay 0 ?t (g(length ?t := CHR 0x00))) 0 = Some ?t"
    using assms(3) by (intro until_nul_overlay) simp_all
  ultimately show ?thesis using assms(2)
    by (simp add: printk_def vsprintf_impl_def terminate_text_def room_512)
qed


text \<open>On any serial port the text of a message goes out as it is.\<close>

context serial_port
begin

lemma printk_sends:
  assumes "live d" "Lit (CHR ''%'') \<notin> set ps" "length (text_of ps) \<le> 510"
    "CHR 0x00 \<notin> set (text_of ps)"
  shows "\<exists>d'. printk putc g (fmt_of ps) (args_of ps) d = Some (Inr (int (length (text_of ps)), d')) \<and>
    live d' \<and> sent d' = sent d @ concat (map crlf (text_of ps))"
  using puts_sends [OF assms(1), of "text_of ps"] printk_pieces [OF assms(2-4), of putc g d] by auto

lemma printk_all_sends:
  assumes "live d"
    "\<forall>ps\<in>set pss. Lit (CHR ''%'') \<notin> set ps \<and> length (text_of ps) \<le> 510 \<and> CHR 0x00 \<notin> set (text_of ps)"
    "map snd cs = map (\<lambda>ps. (fmt_of ps, args_of ps)) pss"
  shows "\<exists>d'. printk_all putc cs d = Some (Inr d') \<and>
    sent d' = sent d @ concat (map crlf (concat (map text_of pss)))"
  using assms
proof (induction pss arbitrary: cs d)
  case (Cons ps pss)
  then obtain g cs' where cs: "cs = (g, fmt_of ps, args_of ps) # cs'"
    "map snd cs' = map (\<lambda>ps. (fmt_of ps, args_of ps)) pss"
    by (cases cs) auto
  from printk_sends [of d ps g] Cons.prems obtain d1 where
    "printk putc g (fmt_of ps) (args_of ps) d = Some (Inr (int (length (text_of ps)), d1))"
    "live d1" "sent d1 = sent d @ concat (map crlf (text_of ps))" by auto
  with Cons.IH [of d1 cs'] Cons.prems cs show ?case by simp
qed simp

end

text \<open>
  C14: a message made of text, percent signs and string arguments that comes to at most 510
  characters is printed verbatim by \<^verbatim>\<open>printk\<close> on the PL011 and on the 16550, whatever the
  stack held before, and \<^verbatim>\<open>printk\<close> returns its length.
\<close>

theorem printk_prints_text:
  assumes "Lit (CHR ''%'') \<notin> set ps" "length (text_of ps) \<le> 510" "CHR 0x00 \<notin> set (text_of ps)"
  shows "(pl011_live d \<longrightarrow>
      (\<exists>d'. printk pl011_putc g (fmt_of ps) (args_of ps) d = Some (Inr (int (length (text_of ps)), d')) \<and>
        pl011_sent d' = pl011_sent d @ concat (map crlf (text_of ps)))) \<and>
    (com1_live e \<longrightarrow>
      (\<exists>e'. printk com1_putc g (fmt_of ps) (args_of ps) e = Some (Inr (int (length (text_of ps)), e')) \<and>
        com1_sent e' = com1_sent e @ concat (map crlf (text_of ps))))"
  using pl011.printk_sends [OF _ assms, of d g] com1.printk_sends [OF _ assms, of e g] by blast

theorem printk_prints_text_witness:
  "\<exists>d'. printk pl011_putc (\<lambda>_. CHR ''Z'') ''100%% %s\<newline>'' [VStr (Some ''ok'')] idle_pl011 =
       Some (Inr (8, d')) \<and>
     pl011_sent d' = [0x31, 0x30, 0x30, 0x25, 0x20, 0x6F, 0x6B, 0x0D, 0x0A]"
proof -
  let ?ps = "[Lit (CHR ''1''), Lit (CHR ''0''), Lit (CHR ''0''), Pct, Lit (CHR '' ''), Str ''ok'', Lit (CHR 0x0A)]"
  have "pl011_live idle_pl011" by (auto simp: idle_pl011_def pl011_live_def)
  with printk_prints_text [of ?ps idle_pl011 "\<lambda>_. CHR ''Z''"] show ?thesis
    by (simp add: crlf_def pl011_sent_def idle_pl011_def)
qed

text \<open>The five messages of \<^verbatim>\<open>panic\<close> as pieces.\<close>

definition panic_pieces :: "string \<Rightarrow> piece list list" where
  "panic_pieces msg =
     [map Lit ''\<newline>'',
      map Lit ''************************ PANIC ************************\<newline>'',
      map Lit ''PANIC: '' @ [Str msg, Lit (CHR 0x0A)],
      map Lit ''************************************************************\<newline>'',
      map Lit ''System halted.\<newline>\<newline>'']"

text \<open>
  \<^verbatim>\<open>panic\<close> gets all its five messages out before it stops the processor, with the given
  message between the banners, if that has at most 500 characters.
\<close>

theorem panic_prints:
  assumes "com1_live d" "length msg \<le> 500" "CHR 0x00 \<notin> set msg"
  shows "\<exists>d'. panic com1_putc g msg d = Some (Inr d') \<and>
    com1_sent d' = com1_sent d @ concat (map crlf (concat (map text_of (panic_pieces msg))))"
proof -
  have "map snd (panic_calls g msg) = map (\<lambda>ps. (fmt_of ps, args_of ps)) (panic_pieces msg)"
    by (simp add: panic_calls_def panic_pieces_def)
  moreover have "\<forall>ps\<in>set (panic_pieces msg). Lit (CHR ''%'') \<notin> set ps \<and>
      length (text_of ps) \<le> 510 \<and> CHR 0x00 \<notin> set (text_of ps)"
    using assms(2,3) by (simp add: panic_pieces_def)
  ultimately show ?thesis using com1.printk_all_sends [OF assms(1)] by (simp add: panic_def)
qed

theorem panic_prints_witness:
  "\<exists>d'. panic com1_putc (\<lambda>_ _. CHR ''Z'') ''no init'' idle_com1 = Some (Inr d') \<and>
     com1_sent d' = concat (map crlf (concat (map text_of (panic_pieces ''no init''))))"
proof -
  have "com1_live idle_com1" by (auto simp: com1_live_def com1_line_def idle_com1_def)
  from panic_prints [OF this, of "''no init''"] show ?thesis
    by (simp add: com1_sent_def com1_line_def idle_com1_def del: concat.simps list.map)
qed

section \<open>Numbers are not printed\<close>

lemma skip_digits_fits:
  "pos st + length s \<le> 511 \<Longrightarrow>
     skip_digits 512 s st = st\<lparr>pos := pos st + length s, written := written st + int (length s)\<rparr>"
  by (induction s arbitrary: st) (simp_all add: room_512 count_def algebra_simps)

lemma hex_loop_length: "length (hex_loop n val acc) \<le> n + length acc"
  by (induction n val acc rule: hex_loop.induct) (auto simp: Let_def)

lemma format_number_length:
  assumes "base = 10 \<or> base = 16"
  shows "length (format_number val base False None 0 (- 1)) \<le> 31"
proof (cases "val = 0")
  case False
  then have v: "0 < val" by (simp add: word_neq_0_conv)
  have "unat val < 10 ^ 31" "unat val < 16 ^ 31"
    by (rule less_trans [OF unat_less_2p64], simp)+
  note gen = dec_loop_gen [OF this(1) v, of "[]"] hex_loop_gen [OF this(2) v, of "[]"]
  show ?thesis
    using assms False dec_loop_word [of val] hex_loop_length [of 31 val "[]"]
    by (auto simp: format_number_def reverse_digits_rev gen)
qed (simp add: format_number_def)

text \<open>The characters of a number in base 10 or 16 without flags, as \<^verbatim>\<open>%u\<close> and \<^verbatim>\<open>%x\<close> make them.\<close>

abbreviation digits_for :: "char \<Rightarrow> u64 \<Rightarrow> string" where
  "digits_for c w \<equiv>
     format_number (unsigned_arg LEN_NONE w) (if c = CHR ''u'' then 10 else 16) False None 0 (- 1)"

lemma vsprintf_impl_number:
  fixes w :: u64
  assumes "c \<in> {CHR ''u'', CHR ''x''}"
  defines "n \<equiv> length (digits_for c w)"
  shows "vsprintf_impl 512 [CHR ''%'', c] [VWord w] g = Inr (g(n := CHR 0x00), int n)"
proof -
  let ?num = "digits_for c w"
  have len: "length ?num \<le> 31" using assms by (intro format_number_length) auto
  have ps: "parse_spec [c] = Inr (bare, [c])"
    using assms by (auto simp: parse_spec_def parse_width_def parse_precision_def)
  have "put_number 512 bare None ?num \<lparr>ob = g, pos = 0, written = 0\<rparr> =
      \<lparr>ob = g, pos = length ?num, written = int (length ?num)\<rparr>"
    using len skip_digits_fits [of "\<lparr>ob = g, pos = 0, written = 0\<rparr>" ?num]
    by (simp add: put_number_def left_def Let_def put_pad_def)
  moreover have "print_conv 512 bare c [VWord w] \<lparr>ob = g, pos = 0, written = 0\<rparr> =
      Inr ([], put_number 512 bare None ?num \<lparr>ob = g, pos = 0, written = 0\<rparr>)"
    using assms by (auto simp: print_conv_def)
  ultimately show ?thesis using ps len by (simp add: vsprintf_impl_def terminate_text_def room_512 n_def)
qed

lemma until_nul_terminated:
  assumes "i \<le> n"
  shows "until_nul (g(n := CHR 0x00)) i = Some (takeWhile (\<lambda>x. x \<noteq> CHR 0x00) (map g [i..<n]))"
  using assms
proof (induction "n - i" arbitrary: i)
  case 0
  then show ?case by (subst until_nul.simps) simp
next
  case (Suc k)
  then have i: "i < n" "k = n - Suc i" "Suc i \<le> n" by linarith+
  from Suc.hyps(1) [OF i(2,3)] i(1) show ?case
    by (subst until_nul.simps) (simp add: upt_conv_Cons)
qed

context serial_port
begin

lemma printk_number_sends:
  fixes w :: u64
  assumes "live d" "c \<in> {CHR ''u'', CHR ''x''}"
  defines "n \<equiv> length (digits_for c w)"
  shows "\<exists>d'. printk putc g [CHR ''%'', c] [VWord w] d = Some (Inr (int n, d')) \<and> live d' \<and>
    sent d' = sent d @ concat (map crlf (takeWhile (\<lambda>x. x \<noteq> CHR 0x00) (map g [0..<n])))"
  using puts_sends [OF assms(1), of "takeWhile (\<lambda>x. x \<noteq> CHR 0x00) (map g [0..<n])"]
    vsprintf_impl_number [OF assms(2), of w g] until_nul_terminated [of 0 n g]
  by (auto simp: printk_def n_def)

end

text \<open>
  C32: \<^verbatim>\<open>printk\<close> with the format \<^verbatim>\<open>%u\<close> or \<^verbatim>\<open>%x\<close> alone returns the number \<open>n\<close> of digits of its
  argument, but what it puts on the line, on both serial ports, are the first \<open>n\<close> characters that the
  stack happened to hold where its buffer is, up to a terminator among them: no digit is ever stored
  in the buffer.
\<close>

theorem printk_drops_digits:
  fixes w :: u64 and g :: "nat \<Rightarrow> char"
  assumes "c \<in> {CHR ''u'', CHR ''x''}"
  defines "n \<equiv> length (digits_for c w)"
  defines "stale \<equiv> concat (map crlf (takeWhile (\<lambda>x. x \<noteq> CHR 0x00) (map g [0..<n])))"
  shows "(pl011_live d \<longrightarrow> (\<exists>d'. printk pl011_putc g [CHR ''%'', c] [VWord w] d = Some (Inr (int n, d')) \<and>
      pl011_sent d' = pl011_sent d @ stale)) \<and>
    (com1_live e \<longrightarrow> (\<exists>e'. printk com1_putc g [CHR ''%'', c] [VWord w] e = Some (Inr (int n, e')) \<and>
      com1_sent e' = com1_sent e @ stale))"
  using pl011.printk_number_sends [OF _ assms(1), of d g w] com1.printk_number_sends [OF _ assms(1), of e g w]
  unfolding n_def stale_def by blast

theorem printk_drops_digits_witness:
  "\<exists>e'. printk com1_putc (\<lambda>_. CHR ''Z'') ''%u'' [VWord 4096] idle_com1 = Some (Inr (4, e')) \<and>
     com1_sent e' = [0x5A, 0x5A, 0x5A, 0x5A]"
proof -
  have "com1_live idle_com1" "com1_sent idle_com1 = []"
    by (auto simp: com1_live_def com1_line_def idle_com1_def com1_sent_def)
  moreover have "digits_for (CHR ''u'') 4096 = ''4096''" by code_simp
  moreover have "map (\<lambda>_. CHR ''Z'') [0..<4] = ''ZZZZ''" by (simp add: upt_rec)
  ultimately show ?thesis
    using printk_drops_digits [where c = "CHR ''u''" and w = 4096 and g = "\<lambda>_. CHR ''Z''" and e = idle_com1] by (simp add: crlf_def)
qed

text \<open>
  a text of more than 510 characters fills the buffer of \<^verbatim>\<open>printk\<close> up to its last byte
  and is not terminated there: the terminating store goes to offset 1022, beyond the 512
  bytes of the buffer.
\<close>

theorem printk_long_text_overruns:
  assumes "CHR ''%'' \<notin> set s" "511 \<le> length s"
  shows "vsprintf_impl 512 s [] g = Inr ((overlay 0 (take 511 s) g)(1022 := CHR 0x00), 511)"
proof -
  let ?st = "\<lparr>ob = g, pos = 0, written = 0\<rparr>"
  have full: "print_loop 512 t [] st = Inr st" if "CHR ''%'' \<notin> set t" "pos st = 511" for t st
    using that by (induction t) (auto simp: put_guarded_def room_512)
  have "print_loop 512 (t @ u) [] st = print_loop 512 u [] (put_string 512 t st)"
    if "CHR ''%'' \<notin> set t" "pos st + length t \<le> 511" for t u st
    using that by (induction t arbitrary: st) (auto simp: put_guarded_eq put_counted_pos)
  from this [of "take 511 s" ?st "drop 511 s"] assms
  have "print_loop 512 s [] ?st = print_loop 512 (drop 511 s) [] (put_string 512 (take 511 s) ?st)"
    by (auto dest: in_set_takeD)
  moreover have "put_string 512 (take 511 s) ?st =
      \<lparr>ob = overlay 0 (take 511 s) g, pos = 511, written = 511\<rparr>"
    using put_string_fits [of ?st "take 511 s"] assms(2) by (simp add: min_def)
  moreover have "CHR ''%'' \<notin> set (drop 511 s)" using assms(1) by (auto dest: in_set_dropD)
  ultimately have "print_loop 512 s [] ?st = Inr \<lparr>ob = overlay 0 (take 511 s) g, pos = 511, written = 511\<rparr>"
    using full by simp
  then show ?thesis by (simp add: vsprintf_impl_def terminate_text_def room_512)
qed

theorem printk_long_text_overruns_witness:
  "vsprintf_impl 512 (replicate 600 (CHR ''A'')) [] (\<lambda>_. CHR ''Z'') =
     Inr ((overlay 0 (replicate 511 (CHR ''A'')) (\<lambda>_. CHR ''Z''))(1022 := CHR 0x00), 511)"
  using printk_long_text_overruns [of "replicate 600 (CHR ''A'')" "\<lambda>_. CHR ''Z''"] by simp

end
