(* ===== verification/Messages.thy ===== *)
theory Messages
  imports Process Printk_Spec "HOL-Library.Sublist"
begin

text \<open>
  Which messages \<^verbatim>\<open>printk\<close> can handle. The format is walked the way \<^verbatim>\<open>vsprintf_impl\<close> walks it, but
  only the kinds of the arguments and the longest output of each conversion are looked at. A message
  whose arguments fit its format and whose output is short enough is formatted without undefined
  behaviour, inside the buffer, and printed.
\<close>

section \<open>Formats and their arguments\<close>

text \<open>
  The most characters a conversion puts out, and the arguments behind its own; no value when the
  next argument is missing or of the wrong kind. A number has at most 31 digits and a sign.
\<close>

definition conv_cost :: "conv_spec \<Rightarrow> char \<Rightarrow> va list \<Rightarrow> (nat \<times> va list) option" where
  "conv_cost sp c ap =
     (if c \<in> {CHR ''d'', CHR ''i'', CHR ''u'', CHR ''x'', CHR ''X'', CHR ''p''} then
        (case ap of
           VWord w # ap' \<Rightarrow>
             if clen sp = LEN_LONGLONG \<and> c \<in> {CHR ''d'', CHR ''i''} then None else Some (nat (cwidth sp) + 32, ap')
         | _ \<Rightarrow> None)
      else if c = CHR ''s'' then
        (case ap of
           VStr s # ap' \<Rightarrow> Some (nat (cwidth sp) + length (case s of None \<Rightarrow> ''(null)'' | Some t \<Rightarrow> t), ap')
         | _ \<Rightarrow> None)
      else if c = CHR ''c'' then (case ap of VWord w # ap' \<Rightarrow> Some (1, ap') | _ \<Rightarrow> None)
      else Some (1, ap))"

function fmt_cost :: "string \<Rightarrow> va list \<Rightarrow> nat option" where
  "fmt_cost [] ap = Some 0"
| "fmt_cost (c # fmt) ap =
     (if c \<noteq> CHR ''%'' then map_option Suc (fmt_cost fmt ap)
      else case parse_spec fmt of
             Inl e \<Rightarrow> None
           | Inr (sp, []) \<Rightarrow> None
           | Inr (sp, d # rest) \<Rightarrow>
               (case conv_cost sp d ap of
                  None \<Rightarrow> None
                | Some (n, ap') \<Rightarrow> map_option ((+) n) (fmt_cost rest ap')))"
  by pat_completeness auto
termination
  by (relation "measure (\<lambda>(fmt, ap). length fmt)") (auto dest: parse_spec_length)

primrec arg_length :: "va \<Rightarrow> nat" where
  "arg_length (VWord w) = 0"
| "arg_length (VStr s) = (case s of None \<Rightarrow> 6 | Some t \<Rightarrow> length t)"

text \<open>A message of the kernel: besides its string arguments it puts out at most 200 characters.\<close>

definition msg_ok :: "string \<times> va list \<Rightarrow> bool" where
  "msg_ok m = (case fmt_cost (fst m) (snd m) of None \<Rightarrow> False | Some n \<Rightarrow> n \<le> 200 + sum_list (map arg_length (snd m)))"

section \<open>Formatting within the bound\<close>

text \<open>
  The output buffer after a step that puts out at most \<open>n\<close> characters: nothing at or behind the
  new position was written.
\<close>

definition puts_within :: "nat \<Rightarrow> obuf \<Rightarrow> obuf \<Rightarrow> bool" where
  "puts_within n st st' \<longleftrightarrow> pos st \<le> pos st' \<and> pos st' \<le> pos st + n \<and> (\<forall>i\<ge>pos st'. ob st' i = ob st i)"

lemma puts_within_refl [simp]: "puts_within n st st"
  by (simp add: puts_within_def)

lemma puts_within_trans: "puts_within m st st1 \<Longrightarrow> puts_within n st1 st2 \<Longrightarrow> puts_within (m + n) st st2"
  by (auto simp: puts_within_def)

lemma puts_within_mono: "puts_within m st st' \<Longrightarrow> m \<le> n \<Longrightarrow> puts_within n st st'"
  by (auto simp: puts_within_def)

lemma puts_within_char: "puts_within 1 st (put_counted sz c st)" "puts_within 1 st (put_guarded sz c st)"
  "puts_within 1 st (count (put_char c st))"
  by (auto simp: puts_within_def put_counted_def put_guarded_def count_def put_char_def)

lemma puts_within_string: "puts_within (length s) st (put_string sz s st)"
proof (induction s arbitrary: st)
  case (Cons c s)
  from puts_within_trans [OF puts_within_char(1) Cons.IH] show ?case by simp
qed simp

lemma puts_within_pad: "puts_within (nat k) st (put_pad sz k c st)"
  using puts_within_string [of "replicate (nat k) c" st sz] by (simp add: put_pad_def)

lemma puts_within_digits: "puts_within (length s) st (skip_digits sz s st)"
proof (induction s arbitrary: st)
  case (Cons c s)
  have "puts_within 1 st (count (st\<lparr>pos := Suc (pos st)\<rparr>))" by (simp add: puts_within_def count_def)
  from puts_within_trans [OF this Cons.IH] show ?case by simp
qed simp

lemma puts_within_number:
  assumes "length num \<le> 31"
  shows "puts_within (nat (cwidth sp) + 32) st (put_number sz sp sign num st)"
proof -
  let ?pad = "cwidth sp - int (length num) - (if sign \<noteq> None then 1 else 0)"
  define s1 where "s1 = (if left sp then st else put_pad sz ?pad (CHR ''0'') st)"
  define s2 where "s2 = (case sign of None \<Rightarrow> s1 | Some c \<Rightarrow> put_guarded sz c s1)"
  define s3 where "s3 = skip_digits sz num s2"
  define s4 where "s4 = (if left sp then put_pad sz ?pad (CHR '' '') s3 else s3)"
  have p: "nat ?pad \<le> nat (cwidth sp)" by (intro nat_mono) auto
  have 1: "puts_within (if left sp then 0 else nat ?pad) st s1" by (simp add: s1_def puts_within_pad)
  have 2: "puts_within 1 s1 s2" using puts_within_char(2) [of s1 sz] by (auto simp: s2_def split: option.split)
  have 3: "puts_within 31 s2 s3" unfolding s3_def by (rule puts_within_mono [OF puts_within_digits assms])
  have 4: "puts_within (if left sp then nat ?pad else 0) s3 s4" by (simp add: s4_def puts_within_pad)
  have "puts_within ((if left sp then 0 else nat ?pad) + 1 + 31 + (if left sp then nat ?pad else 0)) st s4"
    by (rule puts_within_trans [OF puts_within_trans [OF puts_within_trans [OF 1 2] 3] 4])
  then have "puts_within (nat (cwidth sp) + 32) st s4" by (rule puts_within_mono) (use p in \<open>simp split: if_splits\<close>)
  then show ?thesis unfolding put_number_def Let_def s4_def s3_def s2_def s1_def .
qed

lemma puts_within_text: "puts_within (nat (cwidth sp) + length s) st (put_text sz sp s st)"
proof -
  define n where "n = (if 0 \<le> cprec sp \<and> cprec sp < int (length s) then nat (cprec sp) else length s)"
  let ?pad = "cwidth sp - int n"
  define s1 where "s1 = (if left sp then st else put_pad sz ?pad (CHR '' '') st)"
  define s2 where "s2 = put_string sz (take n s) s1"
  define s3 where "s3 = (if left sp then put_pad sz ?pad (CHR '' '') s2 else s2)"
  have 1: "puts_within (if left sp then 0 else nat ?pad) st s1" by (simp add: s1_def puts_within_pad)
  have 2: "puts_within (length s) s1 s2"
    unfolding s2_def by (rule puts_within_mono [OF puts_within_string]) simp
  have 3: "puts_within (if left sp then nat ?pad else 0) s2 s3" by (simp add: s3_def puts_within_pad)
  have "puts_within ((if left sp then 0 else nat ?pad) + length s + (if left sp then nat ?pad else 0)) st s3"
    by (rule puts_within_trans [OF puts_within_trans [OF 1 2] 3])
  then have "puts_within (nat (cwidth sp) + length s) st s3" by (rule puts_within_mono) (simp split: if_splits)
  then show ?thesis unfolding put_text_def n_def [symmetric] Let_def s1_def s2_def s3_def .
qed

lemma format_number_short:
  assumes "base = 10 \<or> base = 16"
  shows "length (format_number val base sg sign fl pr) \<le> 31"
proof (cases "val = 0")
  case True
  then show ?thesis by (simp add: format_number_def reverse_digits_rev gen_digits.simps)
next
  case False
  with format_number_length [OF assms, of val] show ?thesis by (simp add: format_number_def)
qed

text \<open>The formatter behind \<^verbatim>\<open>%p\<close> does not know \<^verbatim>\<open>%lx\<close>, so the text is that format itself.\<close>

lemma pointer_text_constant: "pointer_text w = Inr ''0x%lx''"
  by (simp add: pointer_text_def conv_def)

lemma signed_arg_no_overflow:
  assumes "len \<noteq> LEN_LONGLONG"
  shows "signed_arg len w \<noteq> push_bit 63 1"
proof
  assume "signed_arg len w = push_bit 63 1"
  then have e: "(scast (ucast w :: u32) :: u64) = push_bit 63 1" using assms by (simp add: signed_arg_def)
  have "bit (scast (ucast w :: u32) :: u64) 63 \<longleftrightarrow> bit (scast (ucast w :: u32) :: u64) 62"
    by (simp add: bit_signed_iff min_def)
  then show False unfolding e by (simp add: bit_push_bit_iff del: push_bit_of_1)
qed

lemma conv_cost_number:
  assumes "conv_cost sp c ap = Some (n, ap')" "c \<in> {CHR ''d'', CHR ''i'', CHR ''u'', CHR ''x'', CHR ''X'', CHR ''p''}"
  obtains w where "ap = VWord w # ap'" "n = nat (cwidth sp) + 32" "c \<in> {CHR ''d'', CHR ''i''} \<Longrightarrow> clen sp \<noteq> LEN_LONGLONG"
  using assms unfolding conv_cost_def if_P [OF assms(2)] by (auto split: list.splits va.splits if_splits)

lemma conv_cost_ok:
  assumes "conv_cost sp c ap = Some (n, ap')"
  shows "\<exists>st'. print_conv sz sp c ap st = Inr (ap', st') \<and> puts_within n st st'"
proof (cases "c \<in> {CHR ''d'', CHR ''i'', CHR ''u'', CHR ''x'', CHR ''X'', CHR ''p''}")
  case True
  obtain w where w: "ap = VWord w # ap'" "n = nat (cwidth sp) + 32"
    "c \<in> {CHR ''d'', CHR ''i''} \<Longrightarrow> clen sp \<noteq> LEN_LONGLONG"
    using conv_cost_number [OF assms True] by blast
  have num: "puts_within n st (put_number sz sp sign (format_number v b sg sign' fl pr) st)" if "b = 10 \<or> b = 16"
    for v b sg sign sign' fl pr
    unfolding w(2) by (rule puts_within_number [OF format_number_short [OF that]])
  show ?thesis
  proof (cases "c \<in> {CHR ''d'', CHR ''i''}")
    case True
    then have "clen sp \<noteq> LEN_LONGLONG" by (rule w(3))
    from signed_arg_no_overflow [OF this, of w] True w(1) num show ?thesis
      by (auto simp: print_conv_def Let_def simp del: push_bit_of_1)
  next
    case False
    with True w(1) num puts_within_number [of "''0x%lx''" sp st sz None] w(2) show ?thesis
      by (elim insertE) (simp_all add: print_conv_def pointer_text_constant)
  qed
next
  case False
  with assms show ?thesis
    using puts_within_text [of sp _ st sz] puts_within_char(1) [of st sz] puts_within_char(3) [of st]
    by (cases "c = CHR ''s''"; cases "c = CHR ''c''")
      (auto simp: conv_cost_def print_conv_def split: list.splits va.splits)
qed

lemma fmt_cost_ok:
  assumes "fmt_cost fmt ap = Some n"
  shows "\<exists>st'. print_loop sz fmt ap st = Inr st' \<and> puts_within n st st'"
  using assms
proof (induction fmt ap arbitrary: n st rule: fmt_cost.induct)
  case (2 c fmt ap)
  show ?case
  proof (cases "c = CHR ''%''")
    case False
    then obtain k where k: "fmt_cost fmt ap = Some k" "n = Suc k" using 2(3) by auto
    from 2(1) [OF False k(1), of "put_guarded sz c st"] obtain st' where
      "print_loop sz fmt ap (put_guarded sz c st) = Inr st'" "puts_within k (put_guarded sz c st) st'" by blast
    with False puts_within_trans [OF puts_within_char(2) this(2)] k(2) show ?thesis by simp
  next
    case True
    then obtain sp d rest m ap' k where
      p: "parse_spec fmt = Inr (sp, d # rest)" "conv_cost sp d ap = Some (m, ap')"
      "fmt_cost rest ap' = Some k" "n = m + k"
      using 2(3) by (auto split: sum.splits prod.splits list.splits option.splits)
    obtain st1 where 1: "print_conv sz sp d ap st = Inr (ap', st1)" "puts_within m st st1"
      using conv_cost_ok [OF p(2), of sz st] by blast
    have "\<not> c \<noteq> CHR ''%''" using True by simp
    from 2(2) [OF this p(1) refl refl p(2) refl p(3), of st1] obtain st' where
      "print_loop sz rest ap' st1 = Inr st'" "puts_within k st1 st'" by blast
    with True p 1 puts_within_trans [OF 1(2) this(2)] show ?thesis by simp
  qed
qed simp

section \<open>Printing\<close>

lemma until_nul_ends:
  assumes "b k = CHR 0x00" "i \<le> k"
  shows "\<exists>s. until_nul b i = Some s"
  using assms(2)
proof (induction "k - i" arbitrary: i)
  case 0
  with assms(1) show ?case by (subst until_nul.simps) simp
next
  case (Suc j)
  then obtain s where "until_nul b (Suc i) = Some s" by (metis Suc_diff_Suc Suc_leI diff_Suc_1 zero_less_Suc zero_less_diff)
  then show ?case by (subst until_nul.simps) simp
qed

text \<open>The buffer of 512 bytes holds the whole message with its terminator, and nothing is written behind it.\<close>

lemma vsprintf_impl_within:
  assumes "fmt_cost fmt ap = Some n" "n \<le> 510"
  shows "\<exists>b r k. vsprintf_impl 512 fmt ap g = Inr (b, r) \<and> k \<le> n \<and> b k = CHR 0x00 \<and> (\<forall>i>k. b i = g i)"
proof -
  obtain st where st: "print_loop 512 fmt ap \<lparr>ob = g, pos = 0, written = 0\<rparr> = Inr st"
    "puts_within n \<lparr>ob = g, pos = 0, written = 0\<rparr> st"
    using fmt_cost_ok [OF assms(1)] by blast
  from st(2) have "pos st \<le> n" "\<forall>i\<ge>pos st. ob st i = g i" by (simp_all add: puts_within_def)
  then show ?thesis using st(1) assms(2)
    by (intro exI [of _ "(ob st)(pos st := CHR 0x00)"] exI [of _ "written st"] exI [of _ "pos st"])
      (simp add: vsprintf_impl_def terminate_text_def room_512)
qed

text \<open>The text of a message: the characters \<^verbatim>\<open>printk\<close> hands to the driver, when the stack held \<open>g\<close>.\<close>

definition printk_text :: "(nat \<Rightarrow> char) \<Rightarrow> string \<Rightarrow> va list \<Rightarrow> string option" where
  "printk_text g fmt ap = (case vsprintf_impl 512 fmt ap g of Inl e \<Rightarrow> None | Inr (b, _) \<Rightarrow> until_nul b 0)"

text \<open>
  A terminator is always stored, for a text that does not fit at an offset behind the buffer, so
  \<^verbatim>\<open>printk\<close> comes to an end of the text.
\<close>

lemma printk_text_ok:
  assumes "fmt_cost fmt ap = Some n"
  shows "\<exists>t. printk_text g fmt ap = Some t"
proof -
  obtain st where st: "print_loop 512 fmt ap \<lparr>ob = g, pos = 0, written = 0\<rparr> = Inr st"
    using fmt_cost_ok [OF assms] by blast
  have "\<exists>k. terminate_text 512 st k = CHR 0x00" by (auto simp: terminate_text_def)
  then obtain t where "until_nul (terminate_text 512 st) 0 = Some t" using until_nul_ends by blast
  with st show ?thesis by (simp add: printk_text_def vsprintf_impl_def)
qed

context serial_port
begin

lemma printk_sends_text:
  assumes "live d" "printk_text g fmt ap = Some t"
  shows "\<exists>r d'. printk putc g fmt ap d = Some (Inr (r, d')) \<and> live d' \<and> sent d' = sent d @ concat (map crlf t)"
  using puts_sends [OF assms(1), of t] assms(2) by (auto simp: printk_def printk_text_def split: sum.splits)

lemma printk_returns:
  assumes "live d" "fmt_cost fmt ap = Some n"
  shows "\<exists>r d'. printk putc g fmt ap d = Some (Inr (r, d')) \<and> live d'"
  using printk_text_ok [OF assms(2), of g] printk_sends_text [OF assms(1), of g fmt ap] by blast

end

text \<open>What \<open>msg_ok\<close> promises, on any serial port.\<close>

lemma msg_ok_formats: "msg_ok (fmt, ap) \<Longrightarrow> vsprintf_impl sz fmt ap g \<noteq> Inl e"
  using fmt_cost_ok [of fmt ap _ sz "\<lparr>ob = g, pos = 0, written = 0\<rparr>"]
  by (fastforce simp: msg_ok_def vsprintf_impl_def split: option.splits)

lemma msg_ok_cost:
  assumes "msg_ok (fmt, ap)" "sum_list (map arg_length ap) \<le> 310"
  obtains n where "fmt_cost fmt ap = Some n" "n \<le> 510"
  using assms by (auto simp: msg_ok_def split: option.splits)

lemma msg_text: "msg_ok (fmt, ap) \<Longrightarrow> \<exists>t. printk_text g fmt ap = Some t"
  by (auto simp: msg_ok_def split: option.splits intro: printk_text_ok)

text \<open>The text of a sequence of messages; \<open>g i\<close> is what the stack held at the \<open>i\<close>-th.\<close>

primrec log_text :: "(nat \<Rightarrow> nat \<Rightarrow> char) \<Rightarrow> nat \<Rightarrow> (string \<times> va list) list \<Rightarrow> string" where
  "log_text g n [] = []"
| "log_text g n (m # ms) =
     (case printk_text (g n) (fst m) (snd m) of None \<Rightarrow> [] | Some t \<Rightarrow> t) @ log_text g (Suc n) ms"

section \<open>Logs\<close>

text \<open>The log grew by messages that can be printed.\<close>

definition log_grows :: "(string \<times> va list) list \<Rightarrow> (string \<times> va list) list \<Rightarrow> bool" where
  "log_grows l l' \<longleftrightarrow> (\<exists>ms. l' = l @ ms \<and> (\<forall>m\<in>set ms. msg_ok m))"

lemma log_grows_refl [simp]: "log_grows l l"
  by (simp add: log_grows_def)

lemma log_grows_trans: "log_grows l m \<Longrightarrow> log_grows m n \<Longrightarrow> log_grows l n"
  unfolding log_grows_def by (metis append.assoc set_append Un_iff)

lemma log_grows_append [simp]: "log_grows l m \<Longrightarrow> \<forall>x\<in>set ms. msg_ok x \<Longrightarrow> log_grows l (m @ ms)"
  by (auto simp: log_grows_def)

lemma log_grows_prefix: "log_grows l l' \<Longrightarrow> prefix l l'"
  by (auto simp: log_grows_def)

lemma log_grows_ok: "log_grows l l' \<Longrightarrow> \<forall>m\<in>set l. msg_ok m \<Longrightarrow> \<forall>m\<in>set l'. msg_ok m"
  by (auto simp: log_grows_def)

section \<open>Evaluation\<close>

text \<open>A text without conversions is a message; the others are evaluated along their format.\<close>

lemma msg_ok_eval:
  "msg_ok (fmt, ap) \<longleftrightarrow> (case fmt_cost fmt ap of None \<Rightarrow> False | Some n \<Rightarrow> n \<le> 200 + sum_list (map arg_length ap))"
  unfolding msg_ok_def fst_conv snd_conv by (rule refl)

lemmas msg_eval = msg_ok_eval parse_spec_def parse_width_def parse_precision_def conv_cost_def is_dig_def dig_def
  name_arg_def

end
