(* ===== verification/CString_Spec.thy ===== *)
theory CString_Spec
  imports CString
begin

text \<open>
  What the string and memory operations compute on C strings: each loop against the list
  operation it implements, with the exact bytes it writes.
\<close>

section \<open>A concrete memory\<close>

definition put_str :: "u64 \<Rightarrow> string \<Rightarrow> mem \<Rightarrow> mem" where
  "put_str a xs m = write_bytes m a (map of_char xs @ [0])"

definition demo_mem :: mem where
  "demo_mem = put_str 0x100 ''needle'' (put_str 0x200 ''haystack'' (put_str 0x300 ''  -42x'' (\<lambda>_. 0x41)))"

lemma demo_strings:
  "cstr demo_mem 0x100 (map of_char ''needle'')"
  "cstr demo_mem 0x200 (map of_char ''haystack'')"
  "cstr demo_mem 0x201 (map of_char ''aystack'')"
  "cstr demo_mem 0x300 (map of_char ''  -42x'')"
  "cstr demo_mem 0x207 (map of_char ''k'')"
  by (simp_all add: demo_mem_def put_str_def)

section \<open>Comparison and search\<close>

text \<open>
  \<^verbatim>\<open>strcmp\<close> on two C strings returns, and the sign of its result is the
  lexicographic order of the strings as unsigned bytes; it is 0 exactly for equal strings.
\<close>

theorem strcmp_orders:
  assumes "cstr m a xs" "cstr m b ys"
  shows "\<exists>r. strcmp m a b = Some r \<and>
    (r < 0 \<longleftrightarrow> xs < ys) \<and> (r = 0 \<longleftrightarrow> xs = ys) \<and> (0 < r \<longleftrightarrow> ys < xs)"
  using strcmp_cstr [OF assms]
    cmp_bytes_sign [OF cstr_nonzero [OF assms(1)] cstr_nonzero [OF assms(2)]] by simp

theorem strcmp_orders_witness:
  "\<exists>r. strcmp demo_mem 0x200 0x100 = Some r \<and> r < 0"
  using strcmp_orders [OF demo_strings(2,1)] by (auto simp: word_less_def)

text \<open>
  \<^verbatim>\<open>strncmp\<close> is the comparison of the first \<open>n\<close> bytes of the two strings: 0 exactly
  when these prefixes are equal, and otherwise signed as their order.
\<close>

theorem strncmp_orders_prefixes:
  assumes "cstr m a xs" "cstr m b ys"
  shows "(strncmp m a b n < 0 \<longleftrightarrow> take (unat n) xs < take (unat n) ys) \<and>
    (strncmp m a b n = 0 \<longleftrightarrow> take (unat n) xs = take (unat n) ys)"
proof -
  have "0 \<notin> set (take (unat n) xs)" "0 \<notin> set (take (unat n) ys)"
    using cstr_nonzero [OF assms(1)] cstr_nonzero [OF assms(2)] by (auto dest: in_set_takeD)
  from cmp_bytes_sign [OF this] show ?thesis unfolding strncmp_cstr [OF assms] by simp
qed

theorem strncmp_orders_prefixes_witness:
  "strncmp demo_mem 0x200 0x200 3 = 0"
  using strncmp_orders_prefixes [OF demo_strings(2,2), of 3] by simp

text \<open>
  C19: \<^verbatim>\<open>strstr\<close> on C strings returns a pointer to the first occurrence of the needle in
  the haystack, the haystack itself for an empty needle, and the null pointer exactly when
  there is no occurrence.
\<close>

theorem strstr_first_occurrence:
  assumes "cstr m h xs" "cstr m n ys"
  shows "(\<exists>i\<le>length xs. strstr m h n = Some (h + of_nat i) \<and> prefix ys (drop i xs) \<and>
      (\<forall>j<i. \<not> prefix ys (drop j xs))) \<or>
    strstr m h n = Some 0 \<and> (\<forall>j. \<not> prefix ys (drop j xs))"
proof (cases "ys = []")
  case True
  with assms show ?thesis by (intro disjI1 exI [of _ 0]) (simp add: strstr_def)
next
  case False
  with assms(2) have "strstr m h n = strstr_loop m h n" by (cases ys) (auto simp: strstr_def)
  with strstr_loop_cstr [OF assms False] show ?thesis
    unfolding first_at_def by (auto intro: less_imp_le)
qed

theorem strstr_first_occurrence_witness:
  "strstr demo_mem 0x200 0x100 = Some 0"
proof -
  have "\<not> prefix (map of_char ''needle'') (drop i (map of_char ''haystack'' :: u8 list))" for i
    using set_drop_subset [of i "map of_char ''haystack'' :: u8 list"]
      set_mono_prefix [of "map of_char ''needle''" "drop i (map of_char ''haystack'' :: u8 list)"]
    by auto
  with strstr_first_occurrence [OF demo_strings(2,1)] show ?thesis by blast
qed

section \<open>Copying\<close>

text \<open>
  C12: \<^verbatim>\<open>memmove\<close> copies \<open>n\<close> bytes correctly however the two ranges overlap, as long as
  neither runs over the end of the address space: every destination byte gets the source
  byte from before the call, and nothing else changes.
\<close>

theorem memmove_copies:
  assumes "unat dst + unat n \<le> 2 ^ 64" "unat src + unat n \<le> 2 ^ 64"
  shows "memmove m dst src n x = (if x - dst < n then m (src + (x - dst)) else m x)"
proof (cases "dst < src")
  case True
  with assms(2) show ?thesis by (simp add: memmove_def copy_up_apply safe_upI)
next
  case False
  then show ?thesis
    unfolding memmove_def if_not_P [OF False] using assms(1)
    by (intro copy_down_apply safe_downI) auto
qed

theorem memmove_copies_witness:
  "memmove demo_mem 0x202 0x200 4 0x204 = demo_mem 0x202"
  using memmove_copies [of "0x202" 4 "0x200" demo_mem "0x204"] by simp

text \<open>
  \<^verbatim>\<open>memcpy\<close> copies \<open>n\<close> bytes between ranges that do not overlap and changes
  nothing else.
\<close>

theorem memcpy_copies:
  assumes "region dst n \<inter> region src n = {}"
  shows "memcpy m dst src n x = (if x - dst < n then m (src + (x - dst)) else m x)"
  using assms by (simp add: memcpy_def copy_up_apply safe_up_disjoint)

theorem memcpy_copies_witness:
  "memcpy demo_mem 0x400 0x200 4 0x402 = demo_mem 0x202"
proof -
  have "region (0x400 :: u64) 4 \<inter> region 0x200 4 = {}"
    using region_interval [of "0x400" 4] region_interval [of "0x200" 4] by auto
  from memcpy_copies [OF this, of demo_mem "0x402"] show ?thesis by simp
qed

text \<open>
  C34: \<^verbatim>\<open>strncpy\<close> of a C string shorter than \<open>n\<close> writes the string and then zeros up to
  and including offset \<open>n\<close>, one byte more than \<open>n\<close>; of a longer one it writes exactly
  the first \<open>n\<close> bytes and no terminator.
\<close>

theorem strncpy_writes:
  assumes "cstr m src xs" "copy_ok dst src (length xs)"
  shows "strncpy m dst src n = (write_bytes m dst
    (if length xs < unat n then xs @ replicate (unat n - length xs + 1) 0
     else take (unat n) xs), dst)"
  using strncpy_cstr [OF assms] by simp

theorem strncpy_writes_witness:
  "strncpy demo_mem 0x400 0x207 3 = (write_bytes demo_mem 0x400 [0x6B, 0, 0, 0], 0x400)"
proof -
  have "copy_ok 0x400 0x207 1" unfolding copy_ok_def by (auto simp: le_Suc_eq)
  moreover have "replicate 3 (0 :: u8) = [0, 0, 0]" by (simp add: numeral_3_eq_3)
  ultimately show ?thesis using strncpy_writes [OF demo_strings(5), of "0x400" 3] by simp
qed

lemma strcpy_strcat_facts:
  assumes "cstr m src ys" "Suc (length ys) < 2 ^ 64"
  shows "copy_ok dst src (length ys) \<Longrightarrow>
      \<exists>m'. strcpy m dst src = Some (m', dst) \<and> cstr m' dst ys"
    and "cstr m dst xs \<Longrightarrow> copy_ok (dst + of_nat (length xs)) src (length ys) \<Longrightarrow>
      Suc (length xs + length ys) < 2 ^ 64 \<Longrightarrow>
      \<exists>m'. strcat m dst src = Some (m', dst) \<and> cstr m' dst (xs @ ys)"
proof -
  note nz = cstr_nonzero [OF assms(1)]
  show "\<exists>m'. strcpy m dst src = Some (m', dst) \<and> cstr m' dst ys"
    if "copy_ok dst src (length ys)"
    using strcpy_loop_cstr [OF assms(1) that] write_bytes_cstr [OF nz assms(2)]
    by (simp add: strcpy_def)
  show "\<exists>m'. strcat m dst src = Some (m', dst) \<and> cstr m' dst (xs @ ys)"
    if x: "cstr m dst xs" and ok: "copy_ok (dst + of_nat (length xs)) src (length ys)"
      and len: "Suc (length xs + length ys) < 2 ^ 64"
  proof -
    let ?e = "dst + of_nat (length xs)"
    let ?m = "write_bytes m ?e (ys @ [0])"
    have same: "?m (dst + of_nat i) = m (dst + of_nat i)" if i: "i < length xs" for i
    proof -
      have "unat (of_nat i :: u64) = i" "unat (of_nat (length xs) :: u64) = length xs"
        using i len by (simp_all add: unat_of_nat64)
      then have "unat (dst + of_nat i - ?e) = i + 2 ^ 64 - length xs"
        using i len by (simp add: unat_sub_if')
      then have "\<not> unat (dst + of_nat i - ?e) < length (ys @ [0])" using i len by simp
      then show ?thesis using assms(2) by (subst write_bytes_apply) simp_all
    qed
    have "read_bytes ?m dst (length xs) = xs"
      using cstr_read [OF x] read_bytes_cong [of "length xs" ?m dst m] same by simp
    then have "cstr ?m dst (xs @ ys)"
      using cstr_nonzero [OF x] write_bytes_cstr [OF nz assms(2)] by (simp add: cstr_append)
    then show ?thesis using strcat_cstr [OF x assms(1) ok] by simp
  qed
qed


text \<open>
  \<^verbatim>\<open>strcpy\<close> and \<^verbatim>\<open>strcat\<close> return and leave a C string behind: the source string at
  the destination, and the destination string followed by the source string.
\<close>

theorem strcpy_strcat_result:
  assumes "cstr m src ys" "Suc (length ys) < 2 ^ 64"
  shows "(copy_ok dst src (length ys) \<longrightarrow>
      (\<exists>m'. strcpy m dst src = Some (m', dst) \<and> cstr m' dst ys)) \<and>
    (cstr m dst xs \<and> copy_ok (dst + of_nat (length xs)) src (length ys) \<and>
     Suc (length xs + length ys) < 2 ^ 64 \<longrightarrow>
      (\<exists>m'. strcat m dst src = Some (m', dst) \<and> cstr m' dst (xs @ ys)))"
  using strcpy_strcat_facts [OF assms] by blast

theorem strcpy_strcat_result_witness:
  "(\<exists>m'. strcpy demo_mem 0x400 0x207 = Some (m', 0x400) \<and> cstr m' 0x400 [0x6B]) \<and>
   (\<exists>m'. strcat demo_mem 0x100 0x207 = Some (m', 0x100) \<and>
      cstr m' 0x100 (map of_char ''needle'' @ [0x6B]))"
proof -
  have k: "copy_ok 0x400 0x207 1" "copy_ok 0x106 0x207 1"
    unfolding copy_ok_def by (auto simp: le_Suc_eq)
  show ?thesis
    using strcpy_strcat_result [OF demo_strings(5), of "0x400"] demo_strings(1) k
      strcpy_strcat_result [OF demo_strings(5), of "0x100" "map of_char ''needle''"] by simp
qed

section \<open>Numbers\<close>

lemma atol_decimal:
  assumes "cstr m a (ws @ sg @ ds @ rest)" "\<forall>c\<in>set ws. is_space c"
    "sg = [] \<or> sg = [0x2B] \<or> sg = [0x2D]" "\<forall>c\<in>set ds. is_digit c" "ds \<noteq> []"
    "stops is_digit rest"
  shows "atol m a = Some (if sg = [0x2D] then - of_nat (dec_value 0 ds)
                          else of_nat (dec_value 0 ds))"
proof -
  let ?p = "a + of_nat (length ws)"
  have digit: "is_digit c \<Longrightarrow> \<not> is_space c \<and> c \<noteq> 0x2D \<and> c \<noteq> 0x2B" for c
    by (auto simp: is_digit_def is_space_def)
  have "stops is_space (sg @ ds @ rest)"
    using assms(3-5) digit by (cases ds) (auto simp: stops_def is_space_def)
  then have skip: "skip_space m a = Some ?p"
    using skip_space_cstr [OF assms(1,2)] by simp
  have p: "cstr m ?p (sg @ ds @ rest)" using cstr_drop [OF assms(1)] .
  have at: "atol_digits m q 0 = Some (of_nat (dec_value 0 ds))" if "cstr m q (ds @ rest)" for q
    using atol_digits_cstr [OF that assms(4,6), of 0] by simp
  show ?thesis
  proof (cases "sg = []")
    case True
    then obtain d ds' where "ds = d # ds'" "m ?p = d" using assms(5) p by (cases ds) auto
    with True p at [of ?p] digit [of d] assms(4) skip show ?thesis by (auto simp: atol_def)
  next
    case False
    with assms(3) p have "cstr m (?p + 1) (ds @ rest)" "m ?p = hd sg" by auto
    with False assms(3) at [of "?p + 1"] skip show ?thesis by (auto simp: atol_def)
  qed
qed

text \<open>
  \<^verbatim>\<open>atol\<close> on a C string made of blanks, an optional sign, decimal digits and then
  something that is no digit returns the number the digits denote, with its sign, modulo
  \<open>2^64\<close>.
\<close>

theorem atol_reads_decimal:
  assumes "cstr m a (ws @ sg @ ds @ rest)" "\<forall>c\<in>set ws. is_space c"
    "sg = [] \<or> sg = [0x2B] \<or> sg = [0x2D]" "\<forall>c\<in>set ds. is_digit c" "ds \<noteq> []"
    "stops is_digit rest"
  shows "atol m a = Some (if sg = [0x2D] then - of_nat (dec_value 0 ds)
                          else of_nat (dec_value 0 ds))"
  using atol_decimal [OF assms] .

theorem atol_reads_decimal_witness:
  "atol demo_mem 0x300 = Some (- 42)"
  using atol_reads_decimal [of demo_mem "0x300" "[0x20, 0x20]" "[0x2D]" "[0x34, 0x32]" "[0x78]"]
    demo_strings(4) by (simp add: is_space_def is_digit_def stops_def)

end
