(* ===== verification/Format_Spec.thy ===== *)
theory Format_Spec
  imports Format CString_Spec
begin

text \<open>
  What \<^verbatim>\<open>vsprintf\<close> and \<^verbatim>\<open>vsnprintf\<close> write: how far they reach into the buffer, and that a
  printed number reads back.
\<close>

section \<open>Bounds\<close>

lemma put_piece_length: "length out \<le> 1023 \<Longrightarrow> length (put_piece out s) \<le> 1023"
  by (auto simp: put_piece_def)

lemma ptr_loop_length: "length out \<le> 1023 \<Longrightarrow> length (ptr_loop n w out) \<le> 1023"
  by (induction n arbitrary: out) auto

text \<open>The three ways a conversion extends the buffer.\<close>

lemma conv_cases:
  assumes "conv c ap out = Inr (out', ap')"
  shows "(\<exists>s. out' = put_piece out s) \<or>
    (\<exists>w. out' = ptr_loop 8 w (if length out + 2 \<le> 1023 then out @ ''0x'' else out)) \<or>
    (\<exists>s. out' = out @ s \<and> length s \<le> 2)"
proof -
  consider (str) "c = CHR ''s''" | (num) "c \<in> {CHR ''d'', CHR ''i'', CHR ''u'', CHR ''x'', CHR ''X''}"
    | (ptr) "c = CHR ''p''" | (chr) "c = CHR ''c''"
    | (other) "c \<notin> {CHR ''s'', CHR ''d'', CHR ''i'', CHR ''u'', CHR ''x'', CHR ''X'', CHR ''p'', CHR ''c''}"
    by blast
  then show ?thesis
  proof cases
    case str
    with assms show ?thesis by (cases "va_string ap") (auto simp: conv_def)
  next
    case num
    with assms show ?thesis
      by (intro disjI1) (cases "va_word ap"; auto simp: conv_def split: if_split_asm)
  next
    case ptr
    with assms show ?thesis
      by (intro disjI2 [THEN disjI2] disjI1 disjI2) (cases "va_word ap"; auto simp: conv_def simp del: ptr_loop.simps)
  next
    case chr
    with assms show ?thesis by (intro disjI2) (cases "va_word ap"; auto simp: conv_def)
  next
    case other
    with assms show ?thesis by (intro disjI2) (auto simp: conv_def split: if_split_asm)
  qed
qed
lemma conv_length:
  assumes "length out < 1023" "conv c ap out = Inr (out', ap')"
  shows "length out' \<le> 1024"
  using conv_cases [OF assms(2)]
proof (elim disjE exE conjE)
  fix s assume "out' = put_piece out s"
  with put_piece_length [of out s] assms(1) show ?thesis by simp
next
  fix w assume o: "out' = ptr_loop 8 w (if length out + 2 \<le> 1023 then out @ ''0x'' else out)"
  have "length (if length out + 2 \<le> 1023 then out @ ''0x'' else out) \<le> 1023"
    using assms(1) by simp
  from ptr_loop_length [OF this, of 8 w] have "length out' \<le> 1023" unfolding o .
  then show ?thesis by simp
next
  fix s assume "out' = out @ s" "length s \<le> (2 :: nat)"
  with assms(1) show ?thesis by simp
qed

lemma vsprintf_loop_length:
  "vsprintf_loop fmt ap out = Inr out' \<Longrightarrow> length out \<le> 1024 \<Longrightarrow> length out' \<le> 1024"
proof (induction fmt ap out arbitrary: out' rule: vsprintf_loop.induct)
  case (2 c p ap out)
  show ?case
  proof (cases "1023 \<le> length out")
    case True
    with 2(3,4) show ?thesis by simp
  next
    case room: False
    show ?thesis
    proof (cases "c = CHR ''%''")
      case False
      with room 2(2) [OF room False] 2(3) show ?thesis by simp
    next
      case True
      then obtain d p' out1 ap1 where p: "p = d # p'" "conv d ap out = Inr (out1, ap1)"
        "vsprintf_loop p' ap1 out1 = Inr out'"
        using room 2(3) by (auto split: list.splits sum.splits)
      from conv_length [OF _ p(2)] room have "length out1 \<le> 1024" by simp
      with 2(1) [OF room True p(1,2) refl] p(3) show ?thesis by simp
    qed
  qed
qed simp

text \<open>
  C33: \<^verbatim>\<open>vsprintf\<close> returns an index of at most 1023 at which it has put the terminator, and
  writes no byte beyond the first 1024 of the buffer.
\<close>

theorem vsprintf_bounds:
  assumes "vsprintf m str fmt ap = Inr (m', n)"
  shows "n \<le> 1023 \<and> m' (str + of_nat n) = 0 \<and> (\<forall>x. 1024 \<le> x - str \<longrightarrow> m' x = m x)"
proof -
  obtain out where out: "vsprintf_loop fmt ap [] = Inr out" "n = (if 1023 < length out then 1023 else length out)"
    "m' = (write_bytes m str (bytes out))(str + of_nat n := 0)"
    using assms by (auto simp: vsprintf_def Let_def split: sum.splits)
  have len: "length out \<le> 1024" using vsprintf_loop_length [OF out(1)] by simp
  have "m' x = m x" if "1024 \<le> x - str" for x
  proof -
    have x: "1024 \<le> unat (x - str)" using that by (simp add: word_le_nat_alt)
    have "unat (of_nat n :: u64) = n" using out(2) by (simp add: unat_of_nat64)
    then have "x \<noteq> str + of_nat n" using x out(2) by auto
    moreover have "write_bytes m str (bytes out) x = m x"
      using x len by (subst write_bytes_apply) auto
    ultimately show ?thesis by (simp add: out(3))
  qed
  then show ?thesis using out(2,3) by simp
qed

theorem vsprintf_bounds_witness:
  "\<exists>m' n. vsprintf (\<lambda>_. 7) 0x400 ''pid %d'' [VWord 5] = Inr (m', n) \<and> n \<le> 1023 \<and>
     m' (0x400 + of_nat n) = 0"
proof -
  obtain m' n where "vsprintf (\<lambda>_. 7) 0x400 ''pid %d'' [VWord 5] = Inr (m', n)"
    by (simp add: vsprintf_def conv_def Let_def)
  with vsprintf_bounds [OF this] show ?thesis by blast
qed

section \<open>Numbers read back\<close>

lemma vsprintf_decimal:
  assumes "w \<noteq> push_bit 63 1"
  defines "text \<equiv> (if sint w < 0 then CHR ''-'' # dec_loop 31 (- w) [] else dec_loop 31 w [])"
  shows "vsprintf m str ''%d'' [VWord w] =
    Inr (write_bytes m str (bytes text @ [0]), length text)"
proof -
  have len: "length text \<le> 32" using dec_loop_word [of w] dec_loop_word [of "- w"] by (auto simp: text_def)
  then have "put_piece [] text = text" by (simp add: put_piece_def)
  then have "vsprintf_loop ''%d'' [VWord w] [] = Inr text"
    using assms(1) by (simp add: conv_def text_def split: if_splits)
  with len show ?thesis
    by (simp add: vsprintf_def Let_def write_bytes_append)
qed

text \<open>
  C20: a number printed by \<^verbatim>\<open>sprintf\<close> with \<^verbatim>\<open>%d\<close> reads back with \<^verbatim>\<open>atol\<close>: the call returns
  for every value but the smallest, and \<^verbatim>\<open>atol\<close> on the buffer it filled gives the value.
\<close>

theorem sprintf_atol_roundtrip:
  assumes "w \<noteq> push_bit 63 1"
  shows "\<exists>m' n. sprintf m str ''%d'' [VWord w] = Inr (m', n) \<and> atol m' str = Some w"
proof -
  let ?v = "if sint w < 0 then - w else w"
  let ?sg = "if sint w < 0 then ''-'' else []" and ?ds = "dec_loop 31 ?v []"
  have num: "numeral_of (unat ?v) ?ds" "length ?ds \<le> 31" using dec_loop_word by blast+
  have sg: "bytes ?sg = [] \<or> bytes ?sg = [0x2B] \<or> bytes ?sg = [0x2D]" by simp
  let ?t = "bytes ?sg @ bytes ?ds @ []"
  let ?m = "write_bytes m str (?t @ [0])"
  have "\<not> is_digit 0" by (simp add: is_digit_def)
  then have "0 \<notin> set (bytes ?ds)" using num(1) by (auto simp: numeral_of_def simp del: set_map)
  then have "0 \<notin> set ?t" by (simp split: if_splits)
  moreover have "Suc (length ?t) < 2 ^ 64" using num(2) by (simp split: if_splits)
  ultimately have "cstr ?m str ?t" by (rule write_bytes_cstr)
  then have "atol ?m str = Some (if bytes ?sg = [0x2D] then - of_nat (dec_value 0 (bytes ?ds))
      else of_nat (dec_value 0 (bytes ?ds)))"
    using num(1) sg atol_decimal [of ?m str "[]" "bytes ?sg" "bytes ?ds" "[]"]
    by (simp add: numeral_of_def stops_def)
  then have "atol ?m str = Some w" using num(1) by (auto simp: numeral_of_def)
  moreover have "sprintf m str ''%d'' [VWord w] = Inr (?m, length (?sg @ ?ds))"
    unfolding sprintf_def vsprintf_decimal [OF assms] by simp
  ultimately show ?thesis by blast
qed

theorem sprintf_atol_roundtrip_witness:
  "\<exists>m' n. sprintf demo_mem 0x400 ''%d'' [VWord (- 1234)] = Inr (m', n) \<and> atol m' 0x400 = Some (- 1234)"
  using sprintf_atol_roundtrip [of "- 1234" demo_mem "0x400"] by simp

section \<open>The size limit\<close>

text \<open>
  \<^verbatim>\<open>vsnprintf\<close> with a limit \<open>sz\<close> returns the length \<^verbatim>\<open>vsprintf\<close> returns, cut off at
  \<open>sz - 1\<close>, and terminates the string there; the memory is that of \<^verbatim>\<open>vsprintf\<close> with at most
  the byte at \<open>sz - 1\<close> changed, so a longer text has been written beyond the limit.
\<close>

theorem vsnprintf_limit:
  assumes "vsprintf m str fmt ap = Inr (m1, n)" "sz \<noteq> 0"
  shows "\<exists>m'. vsnprintf m str sz fmt ap = Inr (m', min n (unat sz - 1)) \<and>
    m' (str + of_nat (min n (unat sz - 1))) = 0 \<and>
    (\<forall>x. x \<noteq> str + (sz - 1) \<longrightarrow> m' x = m1 x)"
proof (cases "unat sz \<le> n")
  case True
  have "of_nat (unat sz - 1) = sz - 1"
    using assms(2) unat_minus_one [of sz] by (metis of_nat_unat ucast_id)
  moreover have "min n (unat sz - 1) = unat sz - 1" using True by simp
  ultimately show ?thesis using True assms by (simp add: vsnprintf_def)
next
  case False
  have "m1 (str + of_nat n) = 0" using assms(1) by (auto simp: vsprintf_def Let_def split: sum.splits)
  with False assms show ?thesis by (simp add: vsnprintf_def min_def)
qed

theorem vsnprintf_limit_witness:
  "\<exists>m'. vsnprintf (\<lambda>_. 7) 0x400 4 ''overrun'' [] = Inr (m', 3) \<and> m' 0x403 = 0 \<and>
     m' 0x406 = of_char (CHR ''n'')"
proof -
  have "vsprintf (\<lambda>_. 7) 0x400 ''overrun'' [] =
      Inr ((write_bytes (\<lambda>_. 7) 0x400 (bytes ''overrun''))(0x407 := 0), 7)"
    by (simp add: vsprintf_def Let_def)
  from vsnprintf_limit [OF this, of 4]
  obtain m' where "vsnprintf (\<lambda>_. 7) 0x400 4 ''overrun'' [] = Inr (m', 3)" "m' 0x403 = 0"
    "\<forall>x. x \<noteq> 0x403 \<longrightarrow> m' x = ((write_bytes (\<lambda>_. 7) 0x400 (bytes ''overrun''))(0x407 := 0)) x"
    by auto
  then show ?thesis by simp
qed

end
