(* ===== verification/Irq_Spec.thy ===== *)
theory Irq_Spec
  imports Irq
begin

text \<open>
  What the dispatch table, the interrupt controllers and the exception handlers promise.
\<close>

section \<open>The table of handlers as an interface\<close>

datatype irq_op = Register int u64 | Unregister int

text \<open>
  A registry maps the numbers below a limit to handlers, the address 0 standing for none.
  Registering and unregistering change the entry they name and report 0, or report \<open>-1\<close> and
  change no entry.
\<close>

locale handler_registry =
  fixes wf :: "'s \<Rightarrow> bool" and lookup :: "'s \<Rightarrow> nat \<Rightarrow> u64" and limit :: nat
    and register :: "int \<Rightarrow> u64 \<Rightarrow> 's \<Rightarrow> int \<times> 's" and unregister :: "int \<Rightarrow> 's \<Rightarrow> int \<times> 's"
  assumes register_ok: "wf s \<Longrightarrow> n < limit \<Longrightarrow> \<exists>s'. register (int n) h s = (0, s') \<and> wf s' \<and> lookup s' = (lookup s)(n := h)"
    and register_bad: "wf s \<Longrightarrow> k < 0 \<or> int limit \<le> k \<Longrightarrow> \<exists>s'. register k h s = (-1, s') \<and> wf s' \<and> lookup s' = lookup s"
    and unregister_ok: "wf s \<Longrightarrow> n < limit \<Longrightarrow> \<exists>s'. unregister (int n) s = (0, s') \<and> wf s' \<and> lookup s' = (lookup s)(n := 0)"
    and unregister_bad: "wf s \<Longrightarrow> k < 0 \<or> int limit \<le> k \<Longrightarrow> \<exists>s'. unregister k s = (-1, s') \<and> wf s' \<and> lookup s' = lookup s"
begin

fun perform :: "irq_op \<Rightarrow> 's \<Rightarrow> 's" where
  "perform (Register k h) s = snd (register k h s)"
| "perform (Unregister k) s = snd (unregister k s)"

lemma index_cases:
  obtains n where "k = int n" "n < limit" | "k < 0 \<or> int limit \<le> k"
  by (metis int_nat_eq not_le nat_less_iff)

end

text \<open>The number an operation names, and the entry it leaves there.\<close>

fun op_irq :: "irq_op \<Rightarrow> int" where
  "op_irq (Register k h) = k"
| "op_irq (Unregister k) = k"

fun op_handler :: "irq_op \<Rightarrow> u64" where
  "op_handler (Register k h) = h"
| "op_handler (Unregister k) = 0"

context handler_registry
begin

lemma perform_lookup:
  assumes "wf s"
  shows "wf (perform x s)"
    "lookup (perform x s) n = (if op_irq x = int n \<and> n < limit then op_handler x else lookup s n)"
proof -
  have "wf (perform x s) \<and>
    lookup (perform x s) n = (if op_irq x = int n \<and> n < limit then op_handler x else lookup s n)"
  proof (cases x)
    case (Register k h)
    show ?thesis
    proof (cases rule: index_cases [of k])
      case (1 j)
      with register_ok [OF assms, of j h] Register show ?thesis by auto
    next
      case 2
      with register_bad [OF assms, of k h] Register show ?thesis by auto
    qed
  next
    case (Unregister k)
    show ?thesis
    proof (cases rule: index_cases [of k])
      case (1 j)
      with unregister_ok [OF assms, of j] Unregister show ?thesis by auto
    next
      case 2
      with unregister_bad [OF assms, of k] Unregister show ?thesis by auto
    qed
  qed
  then show "wf (perform x s)"
    "lookup (perform x s) n = (if op_irq x = int n \<and> n < limit then op_handler x else lookup s n)" by auto
qed

lemma run_wf: "wf s \<Longrightarrow> wf (fold perform xs s)"
  by (induction xs arbitrary: s) (simp_all add: perform_lookup)

lemma others_keep:
  "wf s \<Longrightarrow> \<forall>x\<in>set xs. op_irq x \<noteq> int n \<Longrightarrow> lookup (fold perform xs s) n = lookup s n"
  by (induction xs arbitrary: s) (simp_all add: perform_lookup)

text \<open>The last operation on a number decides.\<close>

lemma last_decides:
  assumes "wf s" "op_irq x = int n" "n < limit" "\<forall>y\<in>set ys. op_irq y \<noteq> int n"
  shows "lookup (fold perform (xs @ x # ys) s) n = op_handler x"
  using assms by (simp add: others_keep run_wf perform_lookup)

end

definition table_full :: "'a irq_state_scheme \<Rightarrow> bool" where
  "table_full s \<longleftrightarrow> length (irq_dispatch_table s) = 256"

definition handler_of :: "'a irq_state_scheme \<Rightarrow> nat \<Rightarrow> u64" where
  "handler_of s n = (if n < 256 then irq_dispatch_table s ! n else 0)"

lemma irq_frames [simp, frame_simps]:
  "irq_dispatch_table (emit f as s) = irq_dispatch_table s" "gic (emit f as s) = gic s" "ports (emit f as s) = ports s"
  by (simp_all add: emit_def)

interpretation irqs: handler_registry table_full handler_of 256 irq_register irq_unregister
  by unfold_locales
    (auto simp: irq_register_def irq_unregister_def MAX_IRQ_HANDLERS_def table_full_def handler_of_def fun_eq_iff)

section \<open>The GIC\<close>

text \<open>What a sequence of writes makes of the distributor: which interrupts it forwards.\<close>

definition gic_enabled :: "(u64 \<times> u32) list \<Rightarrow> nat \<Rightarrow> bool" where
  "gic_enabled ws n \<longleftrightarrow>
     (\<exists>(a, v) \<in> set ws. a = GICD_BASE + GICD_ISENABLER + 4 * of_nat (n div 32) \<and> bit v (n mod 32))"

definition gic_init_writes :: "(u64 \<times> u32) list" where
  "gic_init_writes =
     map (\<lambda>i. (0x08000400 + 16 * of_nat i, 0x80808080)) [0..<32] @
     map (\<lambda>i. (0x08000100 + 16 * of_nat i, 0xFFFFFFFF)) [0..<4] @ [(0x08010004, 0xFF), (0x08010000, 1)]"

lemma for_loop_gic_writes:
  "writes (gic (for_loop lo n (\<lambda>i. gic_write (f i) v) s)) = writes (gic s) @ map (\<lambda>i. (f i, v)) [lo..<lo + n]"
  "irq_dispatch_table (for_loop lo n (\<lambda>i. gic_write (f i) v) s) = irq_dispatch_table s"
  by (induction n arbitrary: lo s) (simp_all add: gic_write_def dev_write_def upt_conv_Cons del: upt_Suc)

lemma gic_reg_mult4: "k < 2 ^ 60 \<Longrightarrow> gic_reg base (of_nat (4 * k)) = base + 4 * of_nat k"
proof -
  assume k: "k < 2 ^ 60"
  have "(4 * of_nat k :: u64) div 4 = of_nat k"
  proof (rule word_unat_eq_iff [THEN iffD2])
    have "unat (4 * of_nat k :: u64) = 4 * k" using k by (subst unat_mult64) (simp_all add: unat_of_nat64)
    then show "unat ((4 * of_nat k :: u64) div 4) = unat (of_nat k :: u64)"
      using k by (simp add: unat_div unat_of_nat64)
  qed
  then show ?thesis by (simp add: gic_reg_def)
qed

lemma arm_interrupt_init_writes:
  "writes (gic (arm_interrupt_init s)) = writes (gic s) @ gic_init_writes"
proof -
  have p: "gic_reg GICD_BASE (GICD_IPRIORITYR + of_nat i * 16) = 0x08000400 + 16 * of_nat i" if "i < 32" for i
    using gic_reg_mult4 [of "256 + 4 * i" GICD_BASE] that by (simp add: gic_regs algebra_simps)
  have e: "gic_reg GICD_BASE (GICD_ISENABLER + of_nat i * 16) = 0x08000100 + 16 * of_nat i" if "i < 4" for i
    using gic_reg_mult4 [of "64 + 4 * i" GICD_BASE] that by (simp add: gic_regs algebra_simps)
  have "gic_reg GICC_BASE GICC_PMR = 0x08010004" "gic_reg GICC_BASE GICC_CTLR = 0x08010000"
    by (simp_all add: gic_reg_def gic_regs)
  moreover have "map (\<lambda>i. (gic_reg GICD_BASE (GICD_IPRIORITYR + of_nat i * 16), 0x80808080 :: u32)) [0..<32] =
      map (\<lambda>i. (0x08000400 + 16 * of_nat i, 0x80808080)) [0..<32]"
    by (rule map_cong) (simp_all add: p)
  moreover have "map (\<lambda>i. (gic_reg GICD_BASE (GICD_ISENABLER + of_nat i * 16), 0xFFFFFFFF :: u32)) [0..<4] =
      map (\<lambda>i. (0x08000100 + 16 * of_nat i, 0xFFFFFFFF)) [0..<4]"
    by (rule map_cong) (simp_all add: e)
  ultimately show ?thesis
    unfolding arm_interrupt_init_def gic_init_writes_def
    by (simp add: Let_def case_prod_beta for_loop_gic_writes gic_write_def [of "0x08010004"]
        gic_write_def [of "0x08010000"] dev_write_def gic_read_def dev_read_def del: upt_rec_numeral)
qed

lemma gic_enable_words:
  "\<forall>k\<in>set [0..<32]. filter (\<lambda>(a, v). a = 0x08000100 + 4 * of_nat k) gic_init_writes =
     (if k \<in> {0, 4, 8, 12} then [(0x08000100 + 4 * of_nat k, 0xFFFFFFFF)] else [])"
  by code_simp

lemma gic_init_enables:
  assumes "n < 1020"
  shows "gic_enabled gic_init_writes n \<longleftrightarrow> n div 32 \<in> {0, 4, 8, 12}"
proof -
  let ?k = "n div 32"
  let ?f = "filter (\<lambda>(a, v). a = 0x08000100 + 4 * of_nat ?k) gic_init_writes"
  have "?k \<in> set [0..<32]" using assms by simp
  from gic_enable_words [rule_format, OF this]
  have f: "?f = (if ?k \<in> {0, 4, 8, 12} then [(0x08000100 + 4 * of_nat ?k, 0xFFFFFFFF)] else [])" .
  have b: "bit (0xFFFFFFFF :: u32) (n mod 32)"
    using bit_mask_iff [of 32 "n mod 32", where 'a = "32 word"] by (simp add: mask_eq_exp_minus_1)
  have "gic_enabled gic_init_writes n \<longleftrightarrow> (\<exists>(a, v) \<in> set ?f. bit v (n mod 32))"
    by (auto simp: gic_enabled_def gic_regs)
  also have "\<dots> \<longleftrightarrow> ?k \<in> {0, 4, 8, 12}"
    unfolding f using b by simp
  finally show ?thesis .
qed

text \<open>Taking an interrupt: the number comes from the controller, and is acknowledged first.\<close>

definition gic_pending :: "'a irq_state_scheme \<Rightarrow> u32" where
  "gic_pending s = reads (gic s) (nread (gic s)) (GICC_BASE + GICC_IAR)"

definition gic_acked :: "'a irq_state_scheme \<Rightarrow> 'a irq_state_scheme" where
  "gic_acked s = s\<lparr>gic := (gic s)\<lparr>nread := Suc (nread (gic s)),
     writes := writes (gic s) @ [(GICC_BASE + GICC_EOIAR, gic_pending s)]\<rparr>\<rparr>"

lemma arm_handle_irq_dispatch:
  assumes "table_full s" "gic_pending s < 1020"
  shows "arm_handle_irq run vec s =
    (if unat (gic_pending s) < 256 then
       Returns (if handler_of s (unat (gic_pending s)) \<noteq> 0
         then run (handler_of s (unat (gic_pending s))) (gic_pending s) (gic_acked s) else gic_acked s)
     else OutOfBounds (gic_acked s))"
proof -
  have r: "gic_reg GICC_BASE GICC_IAR = GICC_BASE + GICC_IAR" "gic_reg GICC_BASE GICC_EOIAR = GICC_BASE + GICC_EOIAR"
    by (simp_all add: gic_reg_def gic_regs)
  have "gic_pending s \<noteq> 1020" "gic_pending s \<noteq> 1021" using assms(2) by auto
  then show ?thesis
    using assms unfolding arm_handle_irq_def r
    by (simp add: Let_def gic_read_def gic_write_def dev_read_def dev_write_def gic_acked_def
        gic_pending_def GIC_MAX_INTERRUPTS_def table_full_def handler_of_def)
qed

section \<open>The 8259A\<close>

text \<open>
  A controller reads a command with bit 4 set as the start of an initialisation of four words;
  the second is the vector base. Outside of it a write to the data port sets the mask.
\<close>

record pic_view =
  icw :: nat
  vector_base :: u8
  imr :: u8

definition pic_step :: "u16 \<Rightarrow> u16 \<Rightarrow> pic_view \<Rightarrow> u16 \<times> u8 \<Rightarrow> pic_view" where
  "pic_step cmd data v w =
     (let (port, x) = w in
      if port = cmd then if bit x 4 then v\<lparr>icw := 2, imr := 0\<rparr> else v
      else if port = data then
        if icw v = 2 then v\<lparr>icw := 3, vector_base := x\<rparr>
        else if icw v = 3 then v\<lparr>icw := 4\<rparr>
        else if icw v = 4 then v\<lparr>icw := 0\<rparr>
        else v\<lparr>imr := x\<rparr>
      else v)"

lemma x86_interrupt_init_writes:
  fixes s :: "'a irq_state_scheme"
  defines "d \<equiv> ports s"
  shows "writes (ports (x86_interrupt_init s)) = writes d @
    [(0x20, 0x11), (0xA0, 0x11), (0x21, 0x20), (0xA1, 0x28), (0x21, 0x04), (0xA1, 0x02), (0x21, 0x01), (0xA1, 0x01),
     (0x21, reads d (nread d) 0x21), (0xA1, reads d (Suc (nread d)) 0xA1), (0x21, 0xFF), (0xA1, 0xFF),
     (0x21, reads d (nread d + 2) 0x21 AND NOT 2)]"
  by (simp add: x86_interrupt_init_def Let_def d_def pic_remap_def pic_mask_all_def pic_unmask_def inb_def outb_def
      dev_read_def dev_write_def pic_regs)

lemma pic_step_simps:
  "pic_step 0x20 0x21 v (0x20, 0x11) = v\<lparr>icw := 2, imr := 0\<rparr>" "pic_step 0xA0 0xA1 v (0xA0, 0x11) = v\<lparr>icw := 2, imr := 0\<rparr>"
  "pic_step 0x20 0x21 v (0xA0, x) = v" "pic_step 0x20 0x21 v (0xA1, x) = v"
  "pic_step 0xA0 0xA1 v (0x20, x) = v" "pic_step 0xA0 0xA1 v (0x21, x) = v"
  by (simp_all add: pic_step_def bit_numeral_rec)

lemma fold_emit_log:
  "kmem (fold (\<lambda>(_, fmt, args). emit fmt args) cs s) = kmem s \<and>
   klog (fold (\<lambda>(_, fmt, args). emit fmt args) cs s) = klog s @ map snd cs"
  by (induction cs arbitrary: s) auto

text \<open>Stopped by \<^verbatim>\<open>panic\<close>: its five lines are the last of the log, and memory is as before.\<close>

definition panicked :: "'a kbase_scheme \<Rightarrow> 'a kbase_scheme outcome \<Rightarrow> bool" where
  "panicked s r \<longleftrightarrow> (\<exists>s' l msg. r = Halts s' \<and> kmem s' = kmem s \<and>
     klog s' = klog s @ l @ map snd (panic_calls (\<lambda>_ _. CHR 0x00) msg))"

lemma kpanic_panicked:
  "kmem t = kmem s \<Longrightarrow> klog t = klog s @ l \<Longrightarrow> panicked s (kpanic msg t)"
  unfolding panicked_def kpanic_def
  by (intro exI conjI) (rule refl, simp_all add: fold_emit_log)

section \<open>Properties\<close>

fun irq_perform :: "irq_op \<Rightarrow> 'a irq_state_scheme \<Rightarrow> 'a irq_state_scheme" where
  "irq_perform (Register k h) s = snd (irq_register k h s)"
| "irq_perform (Unregister k) s = snd (irq_unregister k s)"

lemma irqs_perform: "irqs.perform = irq_perform"
proof (intro ext)
  show "irqs.perform x s = irq_perform x s" for x and s :: "'a irq_state_scheme"
    by (cases x) simp_all
qed

lemma irq_perform_gic: "gic (fold irq_perform xs s) = gic s"
proof (induction xs arbitrary: s)
  case (Cons x xs)
  have "gic (irq_perform x s) = gic s" by (cases x) (simp_all add: irq_register_def irq_unregister_def)
  with Cons show ?case by simp
qed simp

text \<open>
  C13: the handler that runs on an interrupt is the one last registered for it. After any
  sequence of registrations and removals, with numbers in and out of range, an interrupt
  \<open>n < 256\<close> that the controller reports is acknowledged and then handled by the entry
  the last operation on \<open>n\<close> left, or by nobody if that was a removal.
\<close>

theorem irq_runs_last_registered:
  fixes s :: "'a irq_state_scheme" and x :: irq_op and xs ys :: "irq_op list"
  assumes "table_full s" "n < 256" "op_irq x = int n" "\<forall>y\<in>set ys. op_irq y \<noteq> int n"
    and "gic_pending s = of_nat n"
  defines "s' \<equiv> fold irq_perform (xs @ x # ys) s"
  shows "arm_handle_irq run vec s' =
    Returns (if op_handler x \<noteq> 0 then run (op_handler x) (of_nat n) (gic_acked s') else gic_acked s')"
proof -
  have wf: "table_full s'" unfolding s'_def irqs_perform [symmetric] by (rule irqs.run_wf [OF assms(1)])
  have h: "handler_of s' n = op_handler x"
    unfolding s'_def irqs_perform [symmetric] by (rule irqs.last_decides [OF assms(1,3,2,4)])
  have p: "gic_pending s' = of_nat n"
    using assms(5) unfolding gic_pending_def s'_def irq_perform_gic .
  have u: "unat (of_nat n :: u32) = n" using assms(2) by (simp add: unat_of_nat take_bit_nat_eq_self)
  then have "(of_nat n :: u32) < 1020" using assms(2) by (simp add: word_less_nat_alt)
  with arm_handle_irq_dispatch [OF wf, of run vec] p u h assms(2) show ?thesis by simp
qed

text \<open>A table without handlers, and a controller that always reports interrupt 33.\<close>

definition irq_demo :: irq_state where
  "irq_demo = \<lparr>kmem = (\<lambda>_. 0), klog = [], buddy = buddy_static, slab = slab_static,
     process_table = replicate 64 process_zero, table_base = 0x100000, current_process = None,
     next_pid = 1, last_idx = 0, arm = \<lparr>xr = (\<lambda>_. 0), sp_el0 = 0\<rparr>, x86 = (\<lambda>_. 0),
     irq_dispatch_table = replicate 256 0,
     gic = \<lparr>reads = (\<lambda>_ _. 33), nread = 0, writes = []\<rparr>,
     ports = \<lparr>reads = (\<lambda>_ _. 0xFF), nread = 0, writes = []\<rparr>\<rparr>"

lemma irq_demo_ok: "table_full irq_demo" "gic_pending irq_demo = 33"
  by (simp_all add: table_full_def irq_demo_def gic_pending_def)

theorem irq_runs_last_registered_witness:
  "\<exists>s'. arm_handle_irq (\<lambda>h n. emit ''handled'' [VWord h, VWord (ucast n)]) 0
      (fold irq_perform [Register 33 0x4000, Register 300 0x4800, Register 33 0x5000, Unregister 34] irq_demo) = Returns s' \<and>
    (''handled'', [VWord 0x5000, VWord 33]) \<in> set (klog s')"
  using irq_runs_last_registered [of irq_demo 33 "Register 33 0x5000" "[Unregister 34]"
      "\<lambda>h n. emit ''handled'' [VWord h, VWord (ucast n)]" 0 "[Register 33 0x4000, Register 300 0x4800]"]
  by (simp add: irq_demo_ok)

text \<open>
  the dispatch table has 256 entries but the handler accepts every number below 1020: an
  interrupt from 256 to 1019 is acknowledged and then looked up behind the end of the table.
\<close>

theorem irq_lookup_out_of_table:
  assumes "table_full s" "256 \<le> gic_pending s" "gic_pending s < 1020"
  shows "arm_handle_irq run vec s = OutOfBounds (gic_acked s)"
  using arm_handle_irq_dispatch [OF assms(1,3)] assms(2) by (simp add: word_le_nat_alt)

theorem irq_lookup_out_of_table_witness:
  "arm_handle_irq (\<lambda>_ _ s. s) 0 (irq_demo\<lparr>gic := \<lparr>reads = (\<lambda>_ _. 300), nread = 0, writes = []\<rparr>\<rparr>) =
     OutOfBounds (gic_acked (irq_demo\<lparr>gic := \<lparr>reads = (\<lambda>_ _. 300), nread = 0, writes = []\<rparr>\<rparr>))"
  by (rule irq_lookup_out_of_table) (simp_all add: table_full_def irq_demo_def gic_pending_def)

text \<open>
  C36: what initialising the GIC leaves enabled. The register addresses advance by 16 bytes
  where the registers are 4 bytes apart, so of the interrupts below 1020 only 0 to 31, 128 to
  159, 256 to 287 and 384 to 415 are enabled; and the control register of the distributor is
  not written at all.
\<close>

theorem gic_init_enables_every_fourth_word:
  "writes (gic (arm_interrupt_init s)) = writes (gic s) @ gic_init_writes \<and>
   (\<forall>n<1020. gic_enabled gic_init_writes n \<longleftrightarrow> n div 32 \<in> {0, 4, 8, 12}) \<and>
   GICD_BASE + GICD_CTLR \<notin> fst ` set gic_init_writes"
proof -
  have "\<forall>w\<in>set gic_init_writes. fst w \<noteq> 0x08000000" by code_simp
  then have "GICD_BASE + GICD_CTLR \<notin> fst ` set gic_init_writes" by (auto simp: gic_regs)
  with arm_interrupt_init_writes gic_init_enables show ?thesis by blast
qed

theorem gic_init_enables_every_fourth_word_witness:
  "gic_enabled gic_init_writes 130 \<and> \<not> gic_enabled gic_init_writes 33"
  using gic_init_enables_every_fourth_word [of irq_demo, THEN conjunct2, THEN conjunct1]
  by (auto dest: spec [of _ 130] spec [of _ 33])

text \<open>
  initialising the 8259A pair remaps the vectors to 0x20 and 0x28 and leaves every line
  of the second controller masked; of the first, exactly line 1 is cleared in what the data port
  answers after all were masked. Whatever was written to the controllers before, both are out
  of the initialisation sequence at the end.
\<close>

theorem pic_init_remaps:
  fixes s :: "'a irq_state_scheme" and v :: pic_view
  shows "foldl (pic_step PIC1_CMD PIC1_DATA) v (writes (ports (x86_interrupt_init s))) =
      \<lparr>icw = 0, vector_base = 0x20, imr = reads (ports s) (nread (ports s) + 2) PIC1_DATA AND NOT 2\<rparr> \<and>
    foldl (pic_step PIC2_CMD PIC2_DATA) v (writes (ports (x86_interrupt_init s))) =
      \<lparr>icw = 0, vector_base = 0x28, imr = 0xFF\<rparr>"
  unfolding x86_interrupt_init_writes foldl_append pic_regs
  by (simp add: pic_step_simps) (simp add: pic_step_def)

text \<open>
  on x86-64 exactly the exceptions 0, 6, 8, 13 and 14 stop the kernel, after the five lines
  of \<^verbatim>\<open>panic\<close>; every other vector is reported twice and the handler returns. The name table
  is never read out of bounds and no handler touches memory.
\<close>

theorem x86_exception_outcome:
  "if vec \<in> {0, 6, 8, 13, 14} then panicked s (x86_handle_exception cr2 vec code rip s)
   else \<exists>s'. x86_handle_exception cr2 vec code rip s = Returns s' \<and> kmem s' = kmem s \<and>
     length (klog s') = length (klog s) + 2"
  by (auto simp: x86_handle_exception_def Let_def intro!: kpanic_panicked)

text \<open>
  on AArch64 exactly the exception classes 0x15, 0x16, 0x22 and 0x23 stop the kernel.
  Class 0x24 is dispatched as an interrupt, and every other class is reported and the handler
  returns.
\<close>

theorem arm_exception_outcome:
  "if drop_bit 26 esr AND 0x3F \<in> {0x15, 0x16, 0x22, 0x23} then panicked s (arm_handle_exception run esr far sp s)
   else if drop_bit 26 esr AND 0x3F = 0x24 then arm_handle_exception run esr far sp s =
     arm_handle_irq run 0 (emit ''[EXC] IRQ\<newline>'' [] (emit ''[EXC] ESR=0x%lx, FAR=0x%lx\<newline>'' [VWord esr, VWord far] s))
   else \<exists>s'. arm_handle_exception run esr far sp s = Returns s' \<and> kmem s' = kmem s \<and> gic s' = gic s \<and>
     length (klog s') = length (klog s) + 2"
  by (auto simp: arm_handle_exception_def Let_def intro!: kpanic_panicked)

end
