(* ===== verification/Mmu_Spec.thy ===== *)
theory Mmu_Spec
  imports Mmu
begin

text \<open>
  What the page tables mean to the hardware: the translation the architectures define, and
  what it yields on the tables the kernel builds.
\<close>

section \<open>Sequences of stores\<close>

definition stores :: "(u64 \<times> u64) list \<Rightarrow> mem \<Rightarrow> mem" where
  "stores ws m = fold (\<lambda>(a, v) m. store64 m a v) ws m"

lemma stores_simps [simp]:
  "stores [] m = m" "stores ((a, v) # ws) m = stores ws (store64 m a v)"
  "stores (ws @ us) m = stores us (stores ws m)"
  by (simp_all add: stores_def)

lemma stores_loop:
  assumes "\<And>i s. kmem (body i s) = stores (f i) (kmem s)"
  shows "kmem (for_loop lo n body s) = stores (concat (map f [lo..<lo + n])) (kmem s)"
  by (induction n arbitrary: lo s) (simp_all add: assms upt_conv_Cons del: upt_Suc)

abbreviation aligned_stores :: "(u64 \<times> u64) list \<Rightarrow> bool" where
  "aligned_stores ws \<equiv> \<forall>w\<in>set ws. aligned8 (fst w)"

lemma load_stores_outside:
  assumes "aligned_stores ws" "aligned8 a" "a \<notin> fst ` set ws"
  shows "load64 (stores ws m) a = load64 m a"
  using assms by (induction ws arbitrary: m) (auto simp: load64_store64_aligned)

lemma load_stores_inside:
  assumes "aligned_stores ws" "(a, v) \<in> set ws" "\<forall>w\<in>set ws. fst w = a \<longrightarrow> snd w = v"
  shows "load64 (stores ws m) a = v"
  using assms
proof (induction ws arbitrary: m)
  case (Cons w ws)
  obtain b x where w: "w = (b, x)" by fastforce
  show ?case
  proof (cases "(a, v) \<in> set ws")
    case True
    with Cons w show ?thesis by simp
  next
    case False
    then have b: "b = a" "x = v" using Cons.prems(2) w by auto
    have "a \<notin> fst ` set ws" using False Cons.prems(3) by auto
    with Cons.prems(1) w b show ?thesis by (simp add: load_stores_outside)
  qed
qed simp

section \<open>Page-aligned addresses\<close>

abbreviation page_bits :: u64 where
  "page_bits \<equiv> mask 52 AND NOT (mask 12)"

lemma page_addr:
  assumes "unat a mod 2 ^ k = 0" "unat a < 2 ^ w"
  shows "(a :: u64) AND (mask w AND NOT (mask k)) = a"
proof -
  have "unat (a AND NOT (mask k)) = unat a"
    unfolding unat_and_not_mask64 using assms(1) by (metis div_mult_mod_eq add_0_right)
  then have 1: "a AND NOT (mask k) = a" by (simp add: word_unat_eq_iff)
  have "take_bit w (unat a) = unat a" using assms(2) by (simp add: take_bit_nat_eq_self)
  then have "take_bit w a = a" by (simp add: word_unat_eq_iff unsigned_take_bit_eq)
  then have 2: "a AND mask w = a" by (simp add: take_bit_eq_mask)
  have "a AND (mask w AND NOT (mask k)) = (a AND mask w) AND NOT (mask k)" by (simp only: and.assoc)
  with 1 2 show ?thesis by simp
qed

lemma flags_off:
  assumes "(a :: u64) AND b = a" "f AND b = 0"
  shows "(a OR f) AND b = a"
proof -
  have "(a OR f) AND b = (a AND b) OR (f AND b)" by (rule bit.conj_disj_distrib2)
  with assms show ?thesis by simp
qed

lemma flag_bit:
  assumes "(a :: u64) AND b = a" "\<not> bit b n"
  shows "bit (a OR f) n = bit f n"
  using assms by (metis bit_and_iff bit_or_iff)

section \<open>The translation of x86-64\<close>

text \<open>
  A four-level walk: a clear present bit ends it, and bit 7 in the third or second level maps a
  page of 1 GiB or 2 MiB.
\<close>

definition table_index :: "nat \<Rightarrow> u64 \<Rightarrow> u64" where
  "table_index k va = take_bit 9 (drop_bit k va)"

definition x86_walk :: "mem \<Rightarrow> u64 \<Rightarrow> u64 \<Rightarrow> u64 option" where
  "x86_walk m root va =
     (let e4 = load64 m ((root AND page_bits) + 8 * table_index 39 va) in
      if \<not> bit e4 0 then None
      else let e3 = load64 m ((e4 AND page_bits) + 8 * table_index 30 va) in
        if \<not> bit e3 0 then None
        else if bit e3 7 then Some ((e3 AND (mask 52 AND NOT (mask 30))) OR take_bit 30 va)
        else let e2 = load64 m ((e3 AND page_bits) + 8 * table_index 21 va) in
          if \<not> bit e2 0 then None
          else if bit e2 7 then Some ((e2 AND (mask 52 AND NOT (mask 21))) OR take_bit 21 va)
          else let e1 = load64 m ((e2 AND page_bits) + 8 * table_index 12 va) in
            if \<not> bit e1 0 then None else Some ((e1 AND page_bits) OR take_bit 12 va))"

text \<open>The tables: page-aligned, apart from each other and within the physical address width.\<close>

definition x86_tables_ok :: "u64 \<Rightarrow> u64 \<Rightarrow> u64 \<Rightarrow> bool" where
  "x86_tables_ok pml4 pdpt pd \<longleftrightarrow>
     unat pml4 mod 4096 = 0 \<and> unat pdpt mod 4096 = 0 \<and> unat pd mod 4096 = 0 \<and>
     unat pml4 + 4096 \<le> 2 ^ 52 \<and> unat pdpt + 4096 \<le> 2 ^ 52 \<and> unat pd + 16384 \<le> 2 ^ 52 \<and>
     (unat pml4 + 4096 \<le> unat pdpt \<or> unat pdpt + 4096 \<le> unat pml4) \<and>
     (unat pml4 + 4096 \<le> unat pd \<or> unat pd + 16384 \<le> unat pml4) \<and>
     (unat pdpt + 4096 \<le> unat pd \<or> unat pd + 16384 \<le> unat pdpt)"

definition x86_stores :: "u64 \<Rightarrow> u64 \<Rightarrow> u64 \<Rightarrow> (u64 \<times> u64) list" where
  "x86_stores pml4 pdpt pd =
     (pml4, pdpt OR 3) #
     concat (map (\<lambda>i. (pdpt + 8 * of_nat i, (pd + of_nat i * 4096) OR 3) #
       map (\<lambda>j. (pd + of_nat i * 4096 + 8 * of_nat j, (of_nat (i * 512 + j) * 0x200000) OR 0x183)) [0..<512]) [0..<4])"

lemma x86_mmu_init_mem:
  "kmem (x86_mmu_init pml4 pdpt pd mb s) = stores (x86_stores pml4 pdpt pd)
     (memset (memset (memset (kmem s) pml4 0 4096) pdpt 0 4096) pd 0 16384)"
proof -
  have f: "PTE_PRESENT OR PTE_RW = 3" "PTE_PRESENT OR (PTE_RW OR (PTE_HUGE OR PTE_GLOBAL)) = 0x183"
    by (simp_all add: PTE_PRESENT_def PTE_RW_def PTE_HUGE_def PTE_GLOBAL_def)
  have inner: "kmem (for_loop 0 512 (\<lambda>j s. poke64 (pd + of_nat i * 4096 + 8 * of_nat j)
      ((of_nat (i * 512 + j) * HUGE_PAGE_2MB) OR 0x183) s) t) =
      stores (map (\<lambda>j. (pd + of_nat i * 4096 + 8 * of_nat j, (of_nat (i * 512 + j) * 0x200000) OR 0x183)) [0..<512]) (kmem t)"
    for i and t :: "'a mmu_state_scheme"
    by (subst stores_loop [where f = "\<lambda>j. [(pd + of_nat i * 4096 + 8 * of_nat j, (of_nat (i * 512 + j) * 0x200000) OR 0x183)]"])
      (simp_all add: HUGE_PAGE_2MB_def del: upt_rec_numeral of_nat_add of_nat_mult)
  show ?thesis
    unfolding x86_mmu_init_def Let_def or.assoc f x86_stores_def
    by (simp del: upt_rec_numeral of_nat_add of_nat_mult, subst stores_loop [OF _],
        simp_all add: inner del: upt_rec_numeral of_nat_add of_nat_mult)
qed

lemma set_nested_loops:
  "w \<in> set (concat (map (\<lambda>i. f i # map (g i) [0..<b]) [0..<a])) \<longleftrightarrow>
     (\<exists>i<a. w = f i) \<or> (\<exists>i<a. \<exists>j<b. w = g i j)"
proof -
  have "w \<in> set (concat (map (\<lambda>i. f i # map (g i) [0..<b]) [0..<a])) \<longleftrightarrow>
      (\<exists>i\<in>{0..<a}. w \<in> insert (f i) (g i ` {0..<b}))"
    by simp
  then show ?thesis by (simp add: image_iff Bex_def) blast
qed

lemma x86_stores_set:
  "w \<in> set (x86_stores pml4 pdpt pd) \<longleftrightarrow> w = (pml4, pdpt OR 3) \<or>
    (\<exists>i<4. w = (pdpt + 8 * of_nat i, (pd + of_nat i * 4096) OR 3)) \<or>
    (\<exists>i<4. \<exists>j<512. w = (pd + of_nat i * 4096 + 8 * of_nat j, (of_nat (i * 512 + j) * 0x200000) OR 0x183))"
  unfolding x86_stores_def by (simp only: list.set insert_iff set_nested_loops)

lemma unat_word_at: "unat a + 8 * n < 2 ^ 64 \<Longrightarrow> k < n \<Longrightarrow> unat (a + 8 * of_nat k :: u64) = unat a + 8 * k"
  by (subst unat_plus64) (simp_all add: unat_word_offset [of k n])

lemma unat_page_at:
  assumes "unat (a :: u64) + 16384 \<le> 2 ^ 52" "i < 4"
  shows "unat (a + of_nat i * 4096) = unat a + 4096 * i"
proof -
  have "unat (of_nat i * 4096 :: u64) = 4096 * i" using assms(2) by (subst unat_mult64) (simp_all add: unat_of_nat64)
  with assms show ?thesis by (subst unat_plus64) simp_all
qed

lemma x86_unats:
  assumes "x86_tables_ok pml4 pdpt pd"
  shows "k < 512 \<Longrightarrow> unat (pml4 + 8 * of_nat k) = unat pml4 + 8 * k"
    "k < 512 \<Longrightarrow> unat (pdpt + 8 * of_nat k) = unat pdpt + 8 * k"
    "i < 4 \<Longrightarrow> unat (pd + of_nat i * 4096) = unat pd + 4096 * i"
    "i < 4 \<Longrightarrow> j < 512 \<Longrightarrow> unat (pd + of_nat i * 4096 + 8 * of_nat j) = unat pd + 4096 * i + 8 * j"
proof -
  have b: "unat pml4 + 4096 \<le> 2 ^ 52" "unat pdpt + 4096 \<le> 2 ^ 52" "unat pd + 16384 \<le> 2 ^ 52"
    using assms by (simp_all add: x86_tables_ok_def)
  show "k < 512 \<Longrightarrow> unat (pml4 + 8 * of_nat k) = unat pml4 + 8 * k"
    "k < 512 \<Longrightarrow> unat (pdpt + 8 * of_nat k) = unat pdpt + 8 * k"
    using b by (intro unat_word_at [of _ 512]; simp)+
  show p: "unat (pd + of_nat i * 4096) = unat pd + 4096 * i" if "i < 4" for i
    using b(3) that by (rule unat_page_at)
  show "unat (pd + of_nat i * 4096 + 8 * of_nat j) = unat pd + 4096 * i + 8 * j" if "i < 4" "j < 512"
    using unat_word_at [of "pd + of_nat i * 4096" 512 j] p [OF that(1)] that b(3) by simp
qed

lemma aligned8_unat: "unat (a :: u64) = 8 * k \<Longrightarrow> aligned8 a"
  by (simp add: aligned8_def)

lemma x86_addresses:
  assumes ok: "x86_tables_ok pml4 pdpt pd"
  shows "k < 512 \<Longrightarrow> i < 512 \<Longrightarrow> pml4 + 8 * of_nat k \<noteq> pdpt + 8 * of_nat i"
    "k < 512 \<Longrightarrow> i < 4 \<Longrightarrow> j < 512 \<Longrightarrow> pml4 + 8 * of_nat k \<noteq> pd + of_nat i * 4096 + 8 * of_nat j"
    "k < 512 \<Longrightarrow> i < 4 \<Longrightarrow> j < 512 \<Longrightarrow> pdpt + 8 * of_nat k \<noteq> pd + of_nat i * 4096 + 8 * of_nat j"
proof -
  note U = x86_unats [OF ok]
  have apart: "unat pml4 + 4096 \<le> unat pdpt \<or> unat pdpt + 4096 \<le> unat pml4"
    "unat pml4 + 4096 \<le> unat pd \<or> unat pd + 16384 \<le> unat pml4"
    "unat pdpt + 4096 \<le> unat pd \<or> unat pd + 16384 \<le> unat pdpt"
    using ok by (simp_all add: x86_tables_ok_def)
  show "pml4 + 8 * of_nat k \<noteq> pdpt + 8 * of_nat i" if "k < 512" "i < 512"
  proof
    assume "pml4 + 8 * of_nat k = pdpt + 8 * of_nat i"
    then have "unat pml4 + 8 * k = unat pdpt + 8 * i" using U(1) [OF that(1)] U(2) [OF that(2)] by simp
    with apart(1) that show False by (elim disjE) linarith+
  qed
  show "pml4 + 8 * of_nat k \<noteq> pd + of_nat i * 4096 + 8 * of_nat j" if "k < 512" "i < 4" "j < 512"
  proof
    assume "pml4 + 8 * of_nat k = pd + of_nat i * 4096 + 8 * of_nat j"
    then have "unat pml4 + 8 * k = unat pd + 4096 * i + 8 * j" using U(1) [OF that(1)] U(4) [OF that(2,3)] by simp
    with apart(2) that show False by (elim disjE) linarith+
  qed
  show "pdpt + 8 * of_nat k \<noteq> pd + of_nat i * 4096 + 8 * of_nat j" if "k < 512" "i < 4" "j < 512"
  proof
    assume "pdpt + 8 * of_nat k = pd + of_nat i * 4096 + 8 * of_nat j"
    then have "unat pdpt + 8 * k = unat pd + 4096 * i + 8 * j" using U(2) [OF that(1)] U(4) [OF that(2,3)] by simp
    with apart(3) that show False by (elim disjE) linarith+
  qed
qed

lemma x86_addresses_inj:
  assumes ok: "x86_tables_ok pml4 pdpt pd"
  shows "k < 512 \<Longrightarrow> pml4 + 8 * of_nat k = pml4 \<longleftrightarrow> k = 0"
    "i < 512 \<Longrightarrow> k < 512 \<Longrightarrow> pdpt + 8 * of_nat i = pdpt + 8 * of_nat k \<longleftrightarrow> i = k"
    "i < 4 \<Longrightarrow> j < 512 \<Longrightarrow> x < 4 \<Longrightarrow> y < 512 \<Longrightarrow>
      pd + of_nat i * 4096 + 8 * of_nat j = pd + of_nat x * 4096 + 8 * of_nat y \<longleftrightarrow> i = x \<and> j = y"
proof -
  note U = x86_unats [OF ok]
  show "pml4 + 8 * of_nat k = pml4 \<longleftrightarrow> k = 0" if "k < 512"
  proof
    assume e: "pml4 + 8 * of_nat k = pml4"
    show "k = 0" using U(1) [OF that] unfolding e by simp
  qed simp
  show "pdpt + 8 * of_nat i = pdpt + 8 * of_nat k \<longleftrightarrow> i = k" if "i < 512" "k < 512"
  proof
    assume e: "pdpt + 8 * of_nat i = pdpt + 8 * of_nat k"
    show "i = k" using U(2) [OF that(1)] U(2) [OF that(2)] unfolding e by simp
  qed simp
  show "pd + of_nat i * 4096 + 8 * of_nat j = pd + of_nat x * 4096 + 8 * of_nat y \<longleftrightarrow> i = x \<and> j = y"
    if "i < 4" "j < 512" "x < 4" "y < 512"
  proof
    assume e: "pd + of_nat i * 4096 + 8 * of_nat j = pd + of_nat x * 4096 + 8 * of_nat y"
    have "4096 * i + 8 * j = 4096 * x + 8 * y" using U(4) [OF that(1,2)] U(4) [OF that(3,4)] unfolding e by simp
    then have e': "512 * i + j = 512 * x + y" by simp
    have "(512 * i + j) div 512 = i" "(512 * x + y) div 512 = x" using that by simp_all
    then have "i = x" unfolding e' by simp
    with e' show "i = x \<and> j = y" by simp
  qed simp
qed

lemma x86_stores_aligned:
  assumes ok: "x86_tables_ok pml4 pdpt pd"
  shows "k < 512 \<Longrightarrow> aligned8 (pml4 + 8 * of_nat k)" "k < 512 \<Longrightarrow> aligned8 (pdpt + 8 * of_nat k)"
    "i < 4 \<Longrightarrow> j < 512 \<Longrightarrow> aligned8 (pd + of_nat i * 4096 + 8 * of_nat j)"
    "aligned_stores (x86_stores pml4 pdpt pd)"
proof -
  note U = x86_unats [OF ok]
  have "unat pml4 mod 4096 = 0" "unat pdpt mod 4096 = 0" "unat pd mod 4096 = 0"
    using ok by (simp_all add: x86_tables_ok_def)
  then obtain a4 a3 a2 where A: "unat pml4 = 4096 * a4" "unat pdpt = 4096 * a3" "unat pd = 4096 * a2" by fastforce
  show al: "aligned8 (pml4 + 8 * of_nat k)" "aligned8 (pdpt + 8 * of_nat k)" if "k < 512" for k
    using U(1,2) [OF that] A by (simp_all add: aligned8_def) 
  show al2: "aligned8 (pd + of_nat i * 4096 + 8 * of_nat j)" if "i < 4" "j < 512" for i j
    using U(4) [OF that] A by (simp add: aligned8_def)
  show "aligned_stores (x86_stores pml4 pdpt pd)"
    using al(1) [of 0] al(2) al2 unfolding Ball_def x86_stores_set by auto
qed

lemma x86_cleared:
  fixes m :: mem and pml4 pdpt pd :: u64
  assumes "k < 512"
  defines "z \<equiv> memset (memset (memset m pml4 0 4096) pdpt 0 4096) pd 0 16384"
  shows "load64 z (pml4 + 8 * of_nat k) = 0" "load64 z (pdpt + 8 * of_nat k) = 0"
proof -
  have sub: "region (b + 8 * of_nat k) 8 \<subseteq> region b 4096" for b
    using assms(1) by (intro region_sub) (simp add: unat_word_offset [of k 512])
  show "load64 z (pml4 + 8 * of_nat k) = 0" "load64 z (pdpt + 8 * of_nat k) = 0"
    using sub [of pml4] sub [of pdpt] by (intro load64_zero, auto simp: z_def memset_apply)+
qed

lemma x86_stores_cases:
  assumes "w \<in> set (x86_stores pml4 pdpt pd)"
  obtains (pml4) "fst w = pml4" "snd w = pdpt OR 3"
  | (pdpt) i where "i < 4" "fst w = pdpt + 8 * of_nat i" "snd w = (pd + of_nat i * 4096) OR 3"
  | (pd) i j where "i < 4" "j < 512" "fst w = pd + of_nat i * 4096 + 8 * of_nat j"
      "snd w = (of_nat (i * 512 + j) * 0x200000) OR 0x183"
  using assms unfolding x86_stores_set by (metis fst_conv snd_conv)

lemma x86_at_pml4:
  assumes ok: "x86_tables_ok pml4 pdpt pd" and k: "k < 512"
    and w: "w \<in> set (x86_stores pml4 pdpt pd)" "fst w = pml4 + 8 * of_nat k"
  shows "k = 0 \<and> snd w = pdpt OR 3"
  using w(1)
proof (cases rule: x86_stores_cases)
  case pml4
  then have "pml4 + 8 * of_nat k = pml4" using w(2) by (simp only:)
  then show ?thesis using x86_addresses_inj(1) [OF ok k] pml4(2) by blast
next
  case (pdpt i)
  have "i < 512" using pdpt(1) by simp
  from x86_addresses(1) [OF ok k this] pdpt(2) w(2) show ?thesis by metis
next
  case (pd i j)
  from x86_addresses(2) [OF ok k pd(1,2)] pd(3) w(2) show ?thesis by metis
qed

lemma x86_at_pdpt:
  assumes ok: "x86_tables_ok pml4 pdpt pd" and k: "k < 512"
    and w: "w \<in> set (x86_stores pml4 pdpt pd)" "fst w = pdpt + 8 * of_nat k"
  shows "k < 4 \<and> snd w = (pd + of_nat k * 4096) OR 3"
  using w(1)
proof (cases rule: x86_stores_cases)
  case pml4
  have "pml4 + 8 * of_nat 0 \<noteq> pdpt + 8 * of_nat k" by (rule x86_addresses(1) [OF ok _ k]) simp
  then have "pml4 \<noteq> pdpt + 8 * of_nat k" by simp
  with pml4(1) w(2) show ?thesis by metis
next
  case (pdpt i)
  have "pdpt + 8 * of_nat i = pdpt + 8 * of_nat k" using pdpt(2) w(2) by (simp only:)
  then have "i = k" using x86_addresses_inj(2) [OF ok _ k, of i] pdpt(1) by simp
  with pdpt show ?thesis by blast
next
  case (pd i j)
  from x86_addresses(3) [OF ok k pd(1,2)] pd(3) w(2) show ?thesis by metis
qed

lemma x86_at_pd:
  assumes ok: "x86_tables_ok pml4 pdpt pd" and xy: "x < 4" "y < 512"
    and w: "w \<in> set (x86_stores pml4 pdpt pd)" "fst w = pd + of_nat x * 4096 + 8 * of_nat y"
  shows "snd w = (of_nat (x * 512 + y) * 0x200000) OR 0x183"
  using w(1)
proof (cases rule: x86_stores_cases)
  case pml4
  have "pml4 + 8 * of_nat 0 \<noteq> pd + of_nat x * 4096 + 8 * of_nat y" by (rule x86_addresses(2) [OF ok _ xy]) simp
  then have "pml4 \<noteq> pd + of_nat x * 4096 + 8 * of_nat y" by simp
  with pml4(1) w(2) show ?thesis by metis
next
  case (pdpt i)
  have "i < 512" using pdpt(1) by simp
  from x86_addresses(3) [OF ok this xy] pdpt(2) w(2) show ?thesis by metis
next
  case (pd i j)
  have "pd + of_nat i * 4096 + 8 * of_nat j = pd + of_nat x * 4096 + 8 * of_nat y" using pd(3) w(2) by (simp only:)
  then have "i = x \<and> j = y" using x86_addresses_inj(3) [OF ok pd(1,2) xy] by blast
  with pd(4) show ?thesis by blast
qed

lemma not_fst: "(\<And>w. w \<in> S \<Longrightarrow> fst w = a \<Longrightarrow> False) \<Longrightarrow> a \<notin> fst ` S"
  by auto

lemma x86_pml4_words:
  fixes mb :: u64
  assumes ok: "x86_tables_ok pml4 pdpt pd" and k: "k < 512"
  shows "load64 (kmem (x86_mmu_init pml4 pdpt pd mb s)) (pml4 + 8 * of_nat k) = (if k = 0 then pdpt OR 3 else 0)"
proof -
  note al = x86_stores_aligned(4) [OF ok] and at = x86_at_pml4 [OF ok k]
  have "load64 (stores (x86_stores pml4 pdpt pd) m) (pml4 + 8 * of_nat k) = pdpt OR 3" if "k = 0" for m
  proof (rule load_stores_inside [OF al])
    have "(pml4, pdpt OR 3) \<in> set (x86_stores pml4 pdpt pd)" unfolding x86_stores_set by blast
    then show "(pml4 + 8 * of_nat k, pdpt OR 3) \<in> set (x86_stores pml4 pdpt pd)" using that by simp
  qed (intro ballI impI, rule conjunct2 [OF at])
  note inside = this
  have "load64 (stores (x86_stores pml4 pdpt pd) m) (pml4 + 8 * of_nat k) = load64 m (pml4 + 8 * of_nat k)"
    if "k \<noteq> 0" for m
    by (rule load_stores_outside [OF al x86_stores_aligned(1) [OF ok k]]) (rule not_fst, use conjunct1 [OF at] that in blast)
  note outside = this
  show ?thesis
  proof (cases "k = 0")
    case True
    then show ?thesis unfolding x86_mmu_init_mem if_P [OF True] by (rule inside)
  next
    case False
    show ?thesis unfolding x86_mmu_init_mem if_not_P [OF False] outside [OF False] by (rule x86_cleared(1) [OF k])
  qed
qed

lemma x86_pdpt_words:
  fixes mb :: u64
  assumes ok: "x86_tables_ok pml4 pdpt pd" and k: "k < 512"
  shows "load64 (kmem (x86_mmu_init pml4 pdpt pd mb s)) (pdpt + 8 * of_nat k) =
    (if k < 4 then (pd + of_nat k * 4096) OR 3 else 0)"
proof -
  note al = x86_stores_aligned(4) [OF ok] and at = x86_at_pdpt [OF ok k]
  have "load64 (stores (x86_stores pml4 pdpt pd) m) (pdpt + 8 * of_nat k) = (pd + of_nat k * 4096) OR 3" if "k < 4" for m
  proof (rule load_stores_inside [OF al])
    show "(pdpt + 8 * of_nat k, (pd + of_nat k * 4096) OR 3) \<in> set (x86_stores pml4 pdpt pd)"
      unfolding x86_stores_set using that by blast
  qed (intro ballI impI, rule conjunct2 [OF at])
  note inside = this
  have "load64 (stores (x86_stores pml4 pdpt pd) m) (pdpt + 8 * of_nat k) = load64 m (pdpt + 8 * of_nat k)"
    if "\<not> k < 4" for m
    by (rule load_stores_outside [OF al x86_stores_aligned(2) [OF ok k]]) (rule not_fst, use conjunct1 [OF at] that in blast)
  note outside = this
  show ?thesis
  proof (cases "k < 4")
    case True
    then show ?thesis unfolding x86_mmu_init_mem if_P [OF True] by (rule inside)
  next
    case False
    show ?thesis unfolding x86_mmu_init_mem if_not_P [OF False] outside [OF False] by (rule x86_cleared(2) [OF k])
  qed
qed

lemma x86_pd_words:
  fixes mb :: u64
  assumes ok: "x86_tables_ok pml4 pdpt pd" and ij: "i < 4" "j < 512"
  shows "load64 (kmem (x86_mmu_init pml4 pdpt pd mb s)) (pd + of_nat i * 4096 + 8 * of_nat j) =
    (of_nat (i * 512 + j) * 0x200000) OR 0x183"
  unfolding x86_mmu_init_mem
proof (rule load_stores_inside [OF x86_stores_aligned(4) [OF ok]])
  show "(pd + of_nat i * 4096 + 8 * of_nat j, of_nat (i * 512 + j) * 0x200000 OR 0x183) \<in> set (x86_stores pml4 pdpt pd)"
    unfolding x86_stores_set using ij by blast
qed (use x86_at_pd [OF ok ij] in blast)

lemma table_index_nat: "table_index k va = of_nat (unat va div 2 ^ k mod 512)"
proof -
  have "unat (table_index k va) = unat va div 2 ^ k mod 512"
    unfolding table_index_def unsigned_take_bit_eq unat_drop_bit_eq
    by (simp add: take_bit_eq_mod drop_bit_eq_div)
  moreover have "unat (of_nat (unat va div 2 ^ k mod 512) :: u64) = unat va div 2 ^ k mod 512"
    by (rule unat_of_nat64) (rule less_trans [of _ 512], simp_all)
  ultimately show ?thesis by (simp only: word_unat_eq_iff)
qed

lemma low_page_bits: "(3 :: u64) AND page_bits = 0" "\<not> bit page_bits 0" "\<not> bit page_bits 7"
  "(0x183 :: u64) AND (mask 52 AND NOT (mask 21)) = 0"
  "\<not> bit (mask 52 AND NOT (mask 21) :: u64) 0" "\<not> bit (mask 52 AND NOT (mask 21) :: u64) 7"
  by (simp_all add: mask_eq_exp_minus_1 bit_simps)

lemma split_at_21:
  fixes va :: u64
  assumes "unat va < 2 ^ 32"
  shows "(of_nat (unat va div 2 ^ 21) * 0x200000) AND (mask 52 AND NOT (mask 21)) = (of_nat (unat va div 2 ^ 21) * 0x200000 :: u64)"
    "(of_nat (unat va div 2 ^ 21) * 0x200000) OR take_bit 21 va = va"
proof -
  let ?p = "of_nat (unat va div 2 ^ 21) * 0x200000 :: u64"
  have u: "unat ?p = unat va div 2 ^ 21 * 2 ^ 21"
    using assms by (subst unat_mult64) (simp_all add: unat_of_nat64 less_mult_imp_div_less)
  have "unat va div 2 ^ 21 * 2 ^ 21 \<le> unat va" by (rule div_times_less_eq_dividend)
  then show "?p AND (mask 52 AND NOT (mask 21)) = ?p"
    using assms by (intro page_addr) (simp_all add: u [simplified])
  have "?p = va AND NOT (mask 21)" by (simp add: word_unat_eq_iff u [simplified] unat_and_not_mask64)
  moreover have "(va AND NOT (mask 21)) OR (va AND mask 21) = va"
    by (rule bit_word_eqI) (auto simp: bit_simps)
  ultimately show "?p OR take_bit 21 va = va" by (simp add: take_bit_eq_mask)
qed

text \<open>Above 4 GiB the walk ends at an entry that is not present, in the root or in the second level.\<close>

lemma x86_walk_high:
  assumes ok: "x86_tables_ok pml4 pdpt pd" and va: "unat va < 2 ^ 48" "2 ^ 32 \<le> unat va"
  shows "x86_walk (kmem (x86_mmu_init pml4 pdpt pd mb s)) pml4 va = None"
proof -
  define k4 k3 where "k4 = unat va div 2 ^ 39 mod 512" and "k3 = unat va div 2 ^ 30 mod 512"
  have k: "k4 < 512" "k3 < 512" by (simp_all add: k4_def k3_def)
  note idx = table_index_nat [of 39 va, folded k4_def] table_index_nat [of 30 va, folded k3_def]
  have t: "unat pml4 mod 2 ^ 12 = 0" "unat pdpt mod 2 ^ 12 = 0" "unat pml4 < 2 ^ 52" "unat pdpt < 2 ^ 52"
    using ok by (simp_all add: x86_tables_ok_def)
  note p4 = page_addr [OF t(1,3)] and p3 = page_addr [OF t(2,4)]
  note e4 = x86_pml4_words [OF ok k(1), of mb s] and e3 = x86_pdpt_words [OF ok k(2), of mb s]
  show ?thesis
  proof (cases "k4 = 0")
    case False
    then show ?thesis unfolding x86_walk_def p4 idx e4 Let_def by simp
  next
    case True
    then have "unat va < 2 ^ 39" using va(1) by (simp add: k4_def mod_if split: if_splits)
    then have "\<not> k3 < 4" using va(2) by (simp add: k3_def not_less div_le_mono [of "2 ^ 32" _ "2 ^ 30", simplified])
    then show ?thesis
      unfolding x86_walk_def p4 idx e4 Let_def if_P [OF True]
        flags_off [OF p3 low_page_bits(1)] flag_bit [OF p3 low_page_bits(2), of 3] e3 by simp
  qed
qed

text \<open>Below 4 GiB it goes through the root, the second level and a directory to a page of 2 MiB.\<close>

lemma x86_walk_low:
  assumes ok: "x86_tables_ok pml4 pdpt pd" and v32: "unat va < 2 ^ 32"
  shows "x86_walk (kmem (x86_mmu_init pml4 pdpt pd mb s)) pml4 va = Some va"
proof -
  define k3 k2 where "k3 = unat va div 2 ^ 30" and "k2 = unat va div 2 ^ 21 mod 512"
  have k: "k3 < 4" "k3 < 512" "k2 < 512" using v32 by (simp_all add: k3_def k2_def)
  have "unat va div 2 ^ 39 mod 512 = 0" "unat va div 2 ^ 30 mod 512 = k3" using v32 by (simp_all add: k3_def)
  note idx = table_index_nat [of 39 va, unfolded this(1)] table_index_nat [of 30 va, unfolded this(2)]
    table_index_nat [of 21 va, folded k2_def]
  have t: "unat pml4 mod 2 ^ 12 = 0" "unat pdpt mod 2 ^ 12 = 0" "unat pml4 < 2 ^ 52" "unat pdpt < 2 ^ 52"
    using ok by (simp_all add: x86_tables_ok_def)
  note p4 = page_addr [OF t(1,3)] and p3 = page_addr [OF t(2,4)]
  let ?d = "pd + of_nat k3 * 4096"
  have "unat ?d = unat pd + 4096 * k3" by (rule x86_unats(3) [OF ok k(1)])
  then have "unat ?d mod 2 ^ 12 = 0" "unat ?d < 2 ^ 52" using ok k(1) by (auto simp: x86_tables_ok_def mod_add_eq)
  note p2 = page_addr [OF this]
  have "(0 :: nat) < 512" by simp
  note e4 = x86_pml4_words [OF ok this, of mb s, unfolded if_P [OF refl]]
    and e3 = x86_pdpt_words [OF ok k(2), of mb s, unfolded if_P [OF k(1)]] and e2 = x86_pd_words [OF ok k(1,3), of mb s]
  note f4 = flags_off [OF p3 low_page_bits(1)] flag_bit [OF p3 low_page_bits(2), of 3]
  note f3 = flags_off [OF p2 low_page_bits(1)] flag_bit [OF p2 low_page_bits(2), of 3] flag_bit [OF p2 low_page_bits(3), of 3]
  have "unat va div 2 ^ 30 = unat va div 2 ^ 21 div 512" by (simp flip: div_mult2_eq)
  then have "k3 * 512 + k2 = unat va div 2 ^ 21" unfolding k3_def k2_def by simp
  note S = split_at_21 [OF v32, folded this]
  note f2 = flags_off [OF S(1) low_page_bits(4)] flag_bit [OF S(1) low_page_bits(5), of "0x183"]
    flag_bit [OF S(1) low_page_bits(6), of "0x183"]
  show ?thesis
    unfolding x86_walk_def p4 idx e4 Let_def f4 e3 f3 e2 f2 S(2) by (simp add: bit_numeral_rec)
qed

section \<open>The translation of AArch64\<close>

text \<open>
  With the 4 KiB granule the walk has up to four levels. The two low bits of a descriptor tell
  its type: a clear bit 0 is no mapping, \<open>11\<close> a table or, in the last level, a page, and \<open>01\<close> in
  the levels 1 and 2 a block. \<open>fuel\<close> is the number of levels left.
\<close>

fun arm_walk :: "nat \<Rightarrow> mem \<Rightarrow> u64 \<Rightarrow> u64 \<Rightarrow> u64 option" where
  "arm_walk 0 m tbl va = None"
| "arm_walk (Suc lv) m tbl va =
     (let sh = 12 + 9 * lv; e = load64 m (tbl + 8 * table_index sh va);
          out = e AND (mask 48 AND NOT (mask 12)) in
      if \<not> bit e 0 then None
      else if bit e 1 then (if lv = 0 then Some (out OR take_bit 12 va) else arm_walk lv m out va)
      else if lv = 1 \<or> lv = 2 then Some ((e AND (mask 48 AND NOT (mask sh))) OR take_bit sh va)
      else None)"

lemma pt_block_2mb_value:
  assumes "i < 512"
  shows "pt_block_2mb (of_nat i * BLOCK_SIZE_2MB) ATTR_NORMAL_WB = (of_nat i * 0x200000) OR 0x707"
proof -
  have u: "unat (of_nat i * 0x200000 :: u64) = i * 0x200000"
    using assms by (subst unat_mult64) (simp_all add: unat_of_nat64)
  have nm: "NOT (0x1FFFFF :: u64) = NOT (mask 21)" by (simp add: mask_eq_exp_minus_1)
  have a: "(of_nat i * 0x200000 :: u64) AND NOT 0x1FFFFF = of_nat i * 0x200000"
    unfolding nm word_unat_eq_iff unat_and_not_mask64 u by simp
  have b: "push_bit 2 (ucast (ATTR_NORMAL_WB AND 0xF) :: u64) = 4"
    by (simp add: ATTR_NORMAL_WB_def MT_NORMAL_WB_def)
  show ?thesis
    unfolding pt_block_2mb_def Let_def b BLOCK_SIZE_2MB_def
    by (simp add: a [simplified] or.assoc)
qed

text \<open>The tables: page-aligned, apart from each other, within 48 bits.\<close>

definition arm_tables_ok :: "u64 \<Rightarrow> u64 \<Rightarrow> bool" where
  "arm_tables_ok l0 l1 \<longleftrightarrow> unat l0 mod 4096 = 0 \<and> unat l1 mod 4096 = 0 \<and>
     unat l0 + 4096 \<le> 2 ^ 48 \<and> unat l1 + 4096 \<le> 2 ^ 48 \<and>
     (unat l0 + 4096 \<le> unat l1 \<or> unat l1 + 4096 \<le> unat l0)"

definition arm_stores :: "u64 \<Rightarrow> u64 \<Rightarrow> (u64 \<times> u64) list" where
  "arm_stores l0 l1 =
     (l0, l1 OR 3) # map (\<lambda>i. (l1 + 8 * of_nat i, (of_nat i * 0x200000) OR 0x707)) [0..<512]"

lemma arm_mmu_init_mem:
  "kmem (arm_mmu_init l0 l1 dtb s) = stores (arm_stores l0 l1)
     (stores (concat (map (\<lambda>i. [(l0 + 8 * of_nat i, 0), (l1 + 8 * of_nat i, 0)]) [0..<512])) (kmem s))"
proof -
  have 1: "kmem (for_loop 0 512 (\<lambda>i s. poke64 (l1 + 8 * of_nat i) 0 (poke64 (l0 + 8 * of_nat i) 0 s)) t) =
      stores (concat (map (\<lambda>i. [(l0 + 8 * of_nat i, 0), (l1 + 8 * of_nat i, 0)]) [0..<512])) (kmem t)"
    for t :: "'a mmu_state_scheme"
    by (subst stores_loop [where f = "\<lambda>i. [(l0 + 8 * of_nat i, 0), (l1 + 8 * of_nat i, 0)]"])
      (simp_all del: upt_rec_numeral)
  have 2: "kmem (for_loop 0 512 (\<lambda>i s. poke64 (l1 + 8 * of_nat i) (pt_block_2mb (of_nat i * BLOCK_SIZE_2MB) ATTR_NORMAL_WB) s) t) =
      stores (map (\<lambda>i. (l1 + 8 * of_nat i, (of_nat i * 0x200000) OR 0x707)) [0..<512]) (kmem t)"
    for t :: "'a mmu_state_scheme"
  proof -
    have "map (\<lambda>i. (l1 + 8 * of_nat i, pt_block_2mb (of_nat i * BLOCK_SIZE_2MB) ATTR_NORMAL_WB)) [0..<512] =
        map (\<lambda>i. (l1 + 8 * of_nat i, (of_nat i * 0x200000) OR 0x707)) [0..<512]"
      by (rule map_cong) (simp_all add: pt_block_2mb_value)
    then show ?thesis
      by (subst stores_loop [where f = "\<lambda>i. [(l1 + 8 * of_nat i, pt_block_2mb (of_nat i * BLOCK_SIZE_2MB) ATTR_NORMAL_WB)]"])
        (simp_all del: upt_rec_numeral map_eq_conv)
  qed
  show ?thesis unfolding arm_mmu_init_def Let_def arm_stores_def PT_TABLE_def
    by (simp add: 1 2 del: upt_rec_numeral)
qed

lemma arm_words:
  assumes ok: "arm_tables_ok l0 l1" and k: "k < 512"
  shows "load64 (kmem (arm_mmu_init l0 l1 dtb s)) l0 = l1 OR 3"
    "load64 (kmem (arm_mmu_init l0 l1 dtb s)) (l1 + 8 * of_nat k) = (of_nat k * 0x200000) OR 0x707"
proof -
  have b: "unat l0 + 8 * 512 < 2 ^ 64" "unat l1 + 8 * 512 < 2 ^ 64" "unat l0 mod 4096 = 0" "unat l1 mod 4096 = 0"
    and apart: "unat l0 + 4096 \<le> unat l1 \<or> unat l1 + 4096 \<le> unat l0"
    using ok by (auto simp: arm_tables_ok_def)
  note U = unat_word_at [OF b(2)]
  obtain a0 a1 where A: "unat l0 = 4096 * a0" "unat l1 = 4096 * a1" using b(3,4) by fastforce
  have al0: "aligned8 l0" using A by (simp add: aligned8_def)
  have al1: "aligned8 (l1 + 8 * of_nat i)" if "i < 512" for i using U [OF that] A by (simp add: aligned8_def)
  have ne: "l0 \<noteq> l1 + 8 * of_nat i" if "i < 512" for i
  proof
    assume "l0 = l1 + 8 * of_nat i"
    then have "unat l0 = unat l1 + 8 * i" using U [OF that] by (simp only:)
    with apart that show False by (elim disjE) linarith+
  qed
  have inj: "i = k" if "i < 512" "l1 + 8 * of_nat i = l1 + 8 * of_nat k" for i
    using U [OF that(1)] U [OF k] unfolding that(2) by simp
  have set: "w \<in> set (arm_stores l0 l1) \<longleftrightarrow> w = (l0, l1 OR 3) \<or>
      (\<exists>i<512. w = (l1 + 8 * of_nat i, (of_nat i * 0x200000) OR 0x707))" for w
    unfolding arm_stores_def list.set insert_iff set_map set_upt image_iff Bex_def atLeastLessThan_iff by blast
  have als: "aligned_stores (arm_stores l0 l1)"
    unfolding Ball_def set using al0 al1 by (metis fst_conv)
  show "load64 (kmem (arm_mmu_init l0 l1 dtb s)) l0 = l1 OR 3"
    unfolding arm_mmu_init_mem
  proof (rule load_stores_inside [OF als])
    show "\<forall>w\<in>set (arm_stores l0 l1). fst w = l0 \<longrightarrow> snd w = l1 OR 3"
      unfolding Ball_def set using ne by (metis fst_conv snd_conv)
  qed (simp add: set)
  show "load64 (kmem (arm_mmu_init l0 l1 dtb s)) (l1 + 8 * of_nat k) = (of_nat k * 0x200000) OR 0x707"
    unfolding arm_mmu_init_mem
  proof (rule load_stores_inside [OF als])
    show "(l1 + 8 * of_nat k, (of_nat k * 0x200000) OR 0x707) \<in> set (arm_stores l0 l1)" unfolding set using k by blast
    show "\<forall>w\<in>set (arm_stores l0 l1). fst w = l1 + 8 * of_nat k \<longrightarrow> snd w = (of_nat k * 0x200000) OR 0x707"
      unfolding Ball_def set using ne [OF k] inj by (metis fst_conv snd_conv)
  qed
qed

lemma low_arm_bits: "(3 :: u64) AND (mask 48 AND NOT (mask 12)) = 0" "(0x707 :: u64) AND (mask 48 AND NOT (mask 12)) = 0"
  "\<not> bit (mask 48 AND NOT (mask 12) :: u64) 0" "\<not> bit (mask 48 AND NOT (mask 12) :: u64) 1"
  by (simp_all add: mask_eq_exp_minus_1 bit_simps)

lemma arm_walk_goes_on:
  assumes ok: "arm_tables_ok l0 l1" and va: "unat va < 2 ^ 39"
  shows "arm_walk 4 (kmem (arm_mmu_init l0 l1 dtb s)) l0 va =
    arm_walk 2 (kmem (arm_mmu_init l0 l1 dtb s)) (of_nat (unat va div 2 ^ 30) * 0x200000) va"
proof -
  let ?m = "kmem (arm_mmu_init l0 l1 dtb s)" and ?k = "unat va div 2 ^ 30"
  have k: "?k < 512" using va by (simp add: less_mult_imp_div_less)
  have i: "table_index 39 va = 0" "table_index 30 va = of_nat ?k"
    using va k by (simp_all add: table_index_nat)
  note w = arm_words [OF ok k, of dtb s]
  have "unat l1 mod 2 ^ 12 = 0" "unat l1 < 2 ^ 48" using ok by (simp_all add: arm_tables_ok_def)
  note p1 = page_addr [OF this]
  note f1 = flags_off [OF p1 low_arm_bits(1)] flag_bit [OF p1 low_arm_bits(3), of 3] flag_bit [OF p1 low_arm_bits(4), of 3]
  let ?p = "of_nat ?k * 0x200000 :: u64"
  have "unat ?p = ?k * 0x200000" using k by (subst unat_mult64) (simp_all add: unat_of_nat64)
  then have "unat ?p mod 2 ^ 12 = 0" "unat ?p < 2 ^ 48" using k by (auto simp: mod_mult_right_eq [symmetric])
  note p2 = page_addr [OF this]
  note f2 = flags_off [OF p2 low_arm_bits(2)] flag_bit [OF p2 low_arm_bits(3), of "0x707"] flag_bit [OF p2 low_arm_bits(4), of "0x707"]
  have n: "(4 :: nat) = Suc 3" "(3 :: nat) = Suc 2" "12 + 9 * 3 = (39 :: nat)" "12 + 9 * 2 = (30 :: nat)" by simp_all
  have "arm_walk 4 ?m l0 va = arm_walk 3 ?m l1 va"
    unfolding n(1) arm_walk.simps Let_def n(3) i mult_zero_right add_0_right w(1) f1
    by (simp add: bit_numeral_rec del: arm_walk.simps)
  also have "\<dots> = arm_walk 2 ?m ?p va"
    unfolding n(2) arm_walk.simps Let_def n(4) i w f2 by (simp add: bit_numeral_rec del: arm_walk.simps)
  finally show ?thesis .
qed

section \<open>The early allocators\<close>

text \<open>A series of requests, and the addresses handed out for them.\<close>

fun alloc_series :: "u64 list \<Rightarrow> 'a mmu_state_scheme \<Rightarrow> u64 list" where
  "alloc_series [] s = []"
| "alloc_series (n # ns) s = (let (p, s1) = kmalloc_simple n s in p # alloc_series ns s1)"

definition whole_pages :: "u64 \<Rightarrow> nat" where
  "whole_pages n = (unat n + 4095) div 4096 * 4096"

lemma kmalloc_simple_step:
  assumes "unat n + 4096 \<le> 2 ^ 64"
  shows "\<exists>r. kmalloc_simple n s = (alloc_ptr s, s\<lparr>alloc_ptr := alloc_ptr s + r\<rparr>) \<and> unat r = whole_pages n \<and>
    unat n \<le> unat r"
proof (intro exI conjI)
  have e: "(n + 0xFFF) AND NOT 0xFFF = align_up 4096 n" by (simp add: align_up_def)
  show "kmalloc_simple n s = (alloc_ptr s, s\<lparr>alloc_ptr := alloc_ptr s + align_up 4096 n\<rparr>)"
    unfolding kmalloc_simple_def Let_def e ..
  show "unat (align_up 4096 n) = whole_pages n"
    using unat_align_up [of 4096 12 n] assms by (simp add: whole_pages_def)
  show "unat n \<le> unat (align_up 4096 n)"
    using align_up_bounds(1) [of 4096 12 n] assms by simp
qed

lemma alloc_series_nth:
  assumes "\<forall>n\<in>set ns. unat n + 4096 \<le> 2 ^ 64" "unat (alloc_ptr s) + sum_list (map whole_pages ns) < 2 ^ 64" "i < length ns"
  shows "unat (alloc_series ns s ! i) = unat (alloc_ptr s) + sum_list (map whole_pages (take i ns))"
  using assms
proof (induction ns arbitrary: s i)
  case (Cons n ns)
  from Cons.prems(1) kmalloc_simple_step [of n s] obtain r where
    r: "kmalloc_simple n s = (alloc_ptr s, s\<lparr>alloc_ptr := alloc_ptr s + r\<rparr>)" "unat r = whole_pages n" by auto
  show ?case
  proof (cases i)
    case (Suc j)
    have a: "unat (alloc_ptr s + r) = unat (alloc_ptr s) + whole_pages n"
      using Cons.prems(2) r(2) by (subst unat_plus64) simp_all
    have "unat (alloc_series ns (s\<lparr>alloc_ptr := alloc_ptr s + r\<rparr>) ! j) =
        unat (alloc_ptr s) + whole_pages n + sum_list (map whole_pages (take j ns))"
      using Cons.IH [of "s\<lparr>alloc_ptr := alloc_ptr s + r\<rparr>" j] Cons.prems a Suc by simp
    then show ?thesis using Suc r(1) by simp
  qed (simp add: r(1))
qed simp

lemma pages_dvd: "4096 dvd sum_list (map whole_pages ns)"
  by (induction ns) (simp_all add: whole_pages_def)

lemma whole_pages_ge: "unat n \<le> whole_pages n"
proof -
  have "(unat n + 4095) div 4096 * 4096 + (unat n + 4095) mod 4096 = unat n + 4095" by (rule div_mult_mod_eq)
  moreover have "(unat n + 4095) mod 4096 < 4096" by simp
  ultimately show ?thesis unfolding whole_pages_def by linarith
qed

section \<open>Properties\<close>

text \<open>
  C5: the page tables of x86-64 map the first 4 GiB of the address space to themselves and
  nothing else: the hardware's walk from the root that \<^verbatim>\<open>mmu_init\<close> loads yields every address
  below 4 GiB unchanged, and no translation for any other one of the 48-bit space.
\<close>

theorem x86_identity_map:
  assumes "x86_tables_ok pml4 pdpt pd" "unat va < 2 ^ 48"
  shows "x86_walk (kmem (x86_mmu_init pml4 pdpt pd mb s)) (cr3 (x86_mmu_init pml4 pdpt pd mb s)) va =
    (if unat va < 2 ^ 32 then Some va else None)"
proof -
  have "cr3 (x86_mmu_init pml4 pdpt pd mb s) = pml4" by (simp add: x86_mmu_init_def Let_def emit_def)
  with x86_walk_low [OF assms(1), of va mb s] x86_walk_high [OF assms, of mb s] show ?thesis by (simp add: not_less)
qed

definition mmu_demo :: mmu_state where
  "mmu_demo = \<lparr>kmem = (\<lambda>_. 0xAA), klog = [], buddy = buddy_static, slab = slab_static,
     process_table = replicate 64 process_zero, table_base = 0x100000, current_process = None,
     next_pid = 1, last_idx = 0, arm = \<lparr>xr = (\<lambda>_. 0), sp_el0 = 0\<rparr>, x86 = (\<lambda>_. 0),
     irq_dispatch_table = replicate 256 0, gic = \<lparr>reads = (\<lambda>_ _. 0), nread = 0, writes = []\<rparr>,
     ports = \<lparr>reads = (\<lambda>_ _. 0xFF), nread = 0, writes = []\<rparr>,
     ttbr0_el1 = 0, sctlr_el1 = 0, cr3 = 0, alloc_ptr = X86_ALLOC_START\<rparr>"

theorem x86_identity_map_witness:
  "x86_walk (kmem (x86_mmu_init 0x201000 0x202000 0x203000 0 mmu_demo)) (cr3 (x86_mmu_init 0x201000 0x202000 0x203000 0 mmu_demo))
     0xB8000 = Some 0xB8000"
  using x86_identity_map [of "0x201000" "0x202000" "0x203000" "0xB8000" 0 mmu_demo] by (simp add: x86_tables_ok_def)

text \<open>
  C35: on AArch64 the entries meant as 2 MiB blocks carry both low bits, so the hardware takes
  them for pointers to further tables: for every address below 512 GiB the walk goes on at
  level 2 with a table at the multiple of 2 MiB that the entry holds, whatever memory is there.
  For the first gigabyte that is address 0.
\<close>

theorem arm_blocks_are_tables:
  assumes "arm_tables_ok l0 l1" "unat va < 2 ^ 39"
  shows "arm_walk 4 (kmem (arm_mmu_init l0 l1 dtb s)) (ttbr0_el1 (arm_mmu_init l0 l1 dtb s)) va =
    arm_walk 2 (kmem (arm_mmu_init l0 l1 dtb s)) (of_nat (unat va div 2 ^ 30) * 0x200000) va"
proof -
  have "ttbr0_el1 (arm_mmu_init l0 l1 dtb s) = l0" by (simp add: arm_mmu_init_def Let_def emit_def)
  with arm_walk_goes_on [OF assms, of dtb s] show ?thesis by simp
qed

theorem arm_blocks_are_tables_witness:
  "arm_walk 4 (kmem (arm_mmu_init 0x400000 0x404000 0 mmu_demo)) (ttbr0_el1 (arm_mmu_init 0x400000 0x404000 0 mmu_demo)) 0x80000 =
   arm_walk 2 (kmem (arm_mmu_init 0x400000 0x404000 0 mmu_demo)) 0 0x80000"
  using arm_blocks_are_tables [of "0x400000" "0x404000" "0x80000" 0 mmu_demo] by (simp add: arm_tables_ok_def)

text \<open>
  the blocks the early allocator hands out do not overlap: as long as the requests together
  stay below the end of the address space, each block starts at or after the end of every
  earlier one, at a whole number of pages from where the allocator started.
\<close>

theorem early_blocks_disjoint:
  assumes "\<forall>n\<in>set ns. unat n + 4096 \<le> 2 ^ 64" "unat (alloc_ptr s) + sum_list (map whole_pages ns) < 2 ^ 64"
    and "i < j" "j < length ns"
  shows "unat (alloc_series ns s ! i) + unat (ns ! i) \<le> unat (alloc_series ns s ! j) \<and>
    4096 dvd unat (alloc_series ns s ! j) - unat (alloc_ptr s)"
proof -
  note n = alloc_series_nth [OF assms(1,2)]
  have "sum_list (map whole_pages (take (Suc i) ns)) + sum_list (map whole_pages (take (j - Suc i) (drop (Suc i) ns))) =
      sum_list (map whole_pages (take j ns))"
    using assms(3) by (simp flip: map_append sum_list_append take_add)
  moreover have "sum_list (map whole_pages (take (Suc i) ns)) = sum_list (map whole_pages (take i ns)) + whole_pages (ns ! i)"
    using assms(3,4) by (simp add: take_Suc_conv_app_nth)
  moreover have "4096 dvd sum_list (map whole_pages (take j ns))"
    by (rule pages_dvd)
  ultimately show ?thesis using n [of i] n [of j] assms(3,4) whole_pages_ge [of "ns ! i"] by simp
qed

theorem early_blocks_disjoint_witness:
  "unat (alloc_series [100, 5000, 1] mmu_demo ! 1) + 5000 \<le> unat (alloc_series [100, 5000, 1] mmu_demo ! 2) \<and>
   4096 dvd unat (alloc_series [100, 5000, 1] mmu_demo ! 2) - unat X86_ALLOC_START"
  using early_blocks_disjoint [of "[100, 5000, 1]" mmu_demo 1 2]
  by (simp add: mmu_demo_def X86_ALLOC_START_def whole_pages_def)

end
