(* ===== verification/Services_Spec.thy ===== *)
theory Services_Spec
  imports Services Messages Format_Spec Printk_Spec Irq_Spec Mmu_Spec
begin

text \<open>
  What the system calls and standard output do, over any serial port and over the two the
  kernel has.
\<close>

section \<open>Buffers on a serial port\<close>

abbreviation chars_of :: "u8 list \<Rightarrow> string" where
  "chars_of bs \<equiv> map (\<lambda>b. char_of (unat b)) bs"

lemma put_buffer_puts: "put_buffer putc m buf n d = uart_puts putc (chars_of (read_bytes m buf n)) d"
proof (induction n arbitrary: buf d)
  case (Suc n)
  have "put_buffer putc m (buf + 1) n = uart_puts putc (chars_of (read_bytes m (buf + 1) n))"
    by (rule ext) (rule Suc.IH)
  then show ?case by simp
qed simp

context serial_port
begin

lemma put_buffer_sends:
  "live d \<Longrightarrow> \<exists>d'. put_buffer putc m buf n d = Some d' \<and> live d' \<and>
     sent d' = sent d @ concat (map crlf (chars_of (read_bytes m buf n)))"
  unfolding put_buffer_puts by (rule puts_sends)

end

lemma chars_of_bytes: "chars_of (bytes xs) = xs"
proof (induction xs)
  case (Cons c xs)
  have "char_of (unat (of_char c :: u8)) = c"
  proof -
    have "(of_char c :: u8) = of_nat (of_char c)" by (simp only: of_nat_of_char)
    moreover have "(of_char c :: nat) < 256" by (rule nat_of_char_less_256)
    ultimately have "unat (of_char c :: u8) = of_char c"
      by (simp only: unat_of_nat take_bit_nat_eq_self) (simp add: take_bit_nat_eq_self)
    then show ?thesis by simp
  qed
  with Cons show ?case by simp
qed simp

section \<open>Standard output\<close>

lemma vsprintf_reads_back:
  assumes "vsprintf_loop fmt ap [] = Inr out" "length out \<le> 1023"
  shows "\<exists>m'. vsprintf m buf fmt ap = Inr (m', length out) \<and> read_bytes m' buf (length out) = bytes out"
proof -
  let ?m = "(write_bytes m buf (bytes out))(buf + of_nat (length out) := 0)"
  have "vsprintf m buf fmt ap = Inr (?m, length out)" using assms by (simp add: vsprintf_def Let_def)
  moreover have "read_bytes ?m buf (length out) = bytes out"
  proof (rule nth_equalityI)
    fix i assume "i < length (read_bytes ?m buf (length out))"
    then have i: "i < length out" by simp
    have u: "unat (of_nat k :: u64) = k" if "k \<le> length out" for k
      using that assms(2) by (intro unat_of_nat64) simp
    have "of_nat i \<noteq> (of_nat (length out) :: u64)" using u [of i] u [of "length out"] i by auto
    then show "read_bytes ?m buf (length out) ! i = bytes out ! i"
      using i u [of i] assms(2) by (simp add: read_bytes_nth write_bytes_apply)
  qed simp
  ultimately show ?thesis by blast
qed

text \<open>The two lines of a write are messages that can be printed.\<close>

lemma write_lines:
  "\<exists>t. printk_text g ''[SYSCALL] write(fd=%ld, buf=%p, count=%ld)\<newline>'' [VWord fd, VWord buf, VWord n] = Some t"
  "\<exists>t. printk_text g ''[SYSCALL] syscall %ld returned %ld\<newline>'' [VWord SYS_WRITE, VWord (scast (ucast n :: u32))] = Some t"
  by (rule msg_text; simp add: msg_eval)+

context serial_port
begin

lemma printf_sends:
  assumes "live d" "vsprintf_loop fmt ap [] = Inr out" "length out \<le> 255"
  shows "\<exists>s' d'. printf putc g buf 0 fmt ap (s, d) = Some (Inr (length out, s', d')) \<and> klog s' = klog s \<and>
    live d' \<and> sent d' = sent d @ concat (map crlf out)"
proof -
  have "length out \<le> 1023" using assms(3) by simp
  from vsprintf_reads_back [OF assms(2) this, of "kmem s" buf] obtain m' where
    m: "vsprintf (kmem s) buf fmt ap = Inr (m', length out)" "read_bytes m' buf (length out) = bytes out" by blast
  from put_buffer_sends [OF assms(1), of m' buf "length out"] m(2) obtain d' where
    "put_buffer putc m' buf (length out) d = Some d'" "live d'" "sent d' = sent d @ concat (map crlf out)"
    unfolding m(2) chars_of_bytes by blast
  with m(1) assms(3) show ?thesis by (auto simp: printf_def Let_def)
qed

lemma kprint_sends:
  assumes "live d" "printk_text (g (length (klog s))) fmt args = Some t"
  shows "\<exists>d'. kprint putc g fmt args (s, d) = Some (emit fmt args s, d') \<and> live d' \<and>
    sent d' = sent d @ concat (map crlf t)"
  using printk_sends_text [OF assms] by (auto simp: kprint_def Let_def flush_emit print_msg_def)

lemma print_msgs_send:
  assumes "live d" "\<forall>m\<in>set ms. msg_ok m"
  shows "\<exists>d'. print_msgs putc g n ms d = Some d' \<and> live d' \<and> sent d' = sent d @ concat (map crlf (log_text g n ms))"
  using assms
proof (induction ms arbitrary: n d)
  case (Cons m ms)
  obtain t where t: "printk_text (g n) (fst m) (snd m) = Some t"
    using Cons.prems(2) msg_text [of "fst m" "snd m"] by auto
  from printk_sends_text [OF Cons.prems(1) t] obtain r d1 where
    d1: "printk putc (g n) (fst m) (snd m) d = Some (Inr (r, d1))" "live d1" "sent d1 = sent d @ concat (map crlf t)" by blast
  from Cons.IH [OF d1(2), of "Suc n"] Cons.prems(2) obtain d' where
    "print_msgs putc g (Suc n) ms d1 = Some d'" "live d'" "sent d' = sent d1 @ concat (map crlf (log_text g (Suc n) ms))" by auto
  with d1 t show ?case by (simp add: print_msg_def)
qed simp

lemma flush_sends:
  assumes "live d" "log_grows (klog s) (klog s')"
  shows "\<exists>d'. flush putc g s s' d = Some d' \<and> live d' \<and>
    sent d' = sent d @ concat (map crlf (log_text g (length (klog s)) (drop (length (klog s)) (klog s'))))"
proof -
  have "\<forall>m\<in>set (drop (length (klog s)) (klog s')). msg_ok m" using assms(2) by (auto simp: log_grows_def)
  from print_msgs_send [OF assms(1) this] show ?thesis unfolding flush_def by blast
qed

lemma write_sends:
  assumes "live d" "fd = 1 \<or> fd = 2"
  shows "\<exists>t1 t2 s' d'.
    printk_text (g (length (klog s))) ''[SYSCALL] write(fd=%ld, buf=%p, count=%ld)\<newline>'' [VWord fd, VWord buf, VWord n] = Some t1 \<and>
    printk_text (g (Suc (length (klog s)))) ''[SYSCALL] syscall %ld returned %ld\<newline>''
      [VWord SYS_WRITE, VWord (scast (ucast n :: u32))] = Some t2 \<and>
    syscall_handler putc g SYS_WRITE fd buf n a4 a5 a6 (s, d) = Some (Returns (s', d')) \<and> kmem s' = kmem s \<and>
    sent d' = sent d @ concat (map crlf (t1 @ chars_of (read_bytes (kmem s) buf (unat n)) @ t2))"
proof -
  let ?f1 = "''[SYSCALL] write(fd=%ld, buf=%p, count=%ld)\<newline>''" and ?a1 = "[VWord fd, VWord buf, VWord n]"
  let ?f2 = "''[SYSCALL] syscall %ld returned %ld\<newline>''" and ?a2 = "[VWord SYS_WRITE, VWord (scast (ucast n :: u32))]"
  obtain t1 where t1: "printk_text (g (length (klog s))) ?f1 ?a1 = Some t1" using write_lines(1) by blast
  obtain t2 where t2: "printk_text (g (Suc (length (klog s)))) ?f2 ?a2 = Some t2" using write_lines(2) by blast
  obtain d1 where d1: "kprint putc g ?f1 ?a1 (s, d) = Some (emit ?f1 ?a1 s, d1)" "live d1"
    "sent d1 = sent d @ concat (map crlf t1)" using kprint_sends [where g = g, OF assms(1) t1] by blast
  obtain d2 where d2: "put_buffer putc (kmem s) buf (unat n) d1 = Some d2" "live d2"
    "sent d2 = sent d1 @ concat (map crlf (chars_of (read_bytes (kmem s) buf (unat n))))"
    using put_buffer_sends [OF d1(2)] by blast
  have "printk_text (g (length (klog (emit ?f1 ?a1 s)))) ?f2 ?a2 = Some t2" using t2 by simp
  from kprint_sends [where g = g, OF d2(2) this] obtain d3 where
    d3: "kprint putc g ?f2 ?a2 (emit ?f1 ?a1 s, d2) = Some (emit ?f2 ?a2 (emit ?f1 ?a1 s), d3)"
    "sent d3 = sent d2 @ concat (map crlf t2)" by blast
  have body: "syscall_body putc g SYS_WRITE fd buf n (s, d) = Some (ucast n, emit ?f1 ?a1 s, d2)"
    using assms(2) d1(1) d2(1) by (simp add: syscall_body_def syscall_numbers)
  have "syscall_handler putc g SYS_WRITE fd buf n a4 a5 a6 (s, d) = Some (Returns (emit ?f2 ?a2 (emit ?f1 ?a1 s), d3))"
    unfolding syscall_handler_def body using d3(1) by (simp add: syscall_numbers)
  with t1 t2 d1(3) d2(3) d3(2) show ?thesis by simp
qed

end

section \<open>Properties\<close>

text \<open>
  C16: the write system call on descriptor 1 or 2 returns, leaves memory as it was and sends on the
  serial line, on both serial ports and with a carriage return before each line feed: the line with
  which the handler reports the call, then exactly the bytes of the caller's buffer, then the line
  with which it reports the result. The two lines are what \<^verbatim>\<open>printk\<close> makes of the formats and
  arguments the handler passes.
\<close>

theorem syscall_write_sends:
  assumes "fd = 1 \<or> fd = 2"
  shows "\<exists>t1 t2.
    printk_text (g (length (klog s))) ''[SYSCALL] write(fd=%ld, buf=%p, count=%ld)\<newline>'' [VWord fd, VWord buf, VWord n] = Some t1 \<and>
    printk_text (g (Suc (length (klog s)))) ''[SYSCALL] syscall %ld returned %ld\<newline>''
      [VWord SYS_WRITE, VWord (scast (ucast n :: u32))] = Some t2 \<and>
    (pl011_live d \<longrightarrow>
      (\<exists>s' d'. syscall_handler pl011_putc g SYS_WRITE fd buf n a4 a5 a6 (s, d) = Some (Returns (s', d')) \<and>
        kmem s' = kmem s \<and>
        pl011_sent d' = pl011_sent d @ concat (map crlf (t1 @ chars_of (read_bytes (kmem s) buf (unat n)) @ t2)))) \<and>
    (com1_live e \<longrightarrow>
      (\<exists>s' e'. syscall_handler com1_putc g SYS_WRITE fd buf n a4 a5 a6 (s, e) = Some (Returns (s', e')) \<and>
        kmem s' = kmem s \<and>
        com1_sent e' = com1_sent e @ concat (map crlf (t1 @ chars_of (read_bytes (kmem s) buf (unat n)) @ t2))))"
  using write_lines(1) [of "g (length (klog s))" fd buf n] write_lines(2) [of "g (Suc (length (klog s)))" n]
    pl011.write_sends [OF _ assms, of d g s buf n a4 a5 a6] com1.write_sends [OF _ assms, of e g s buf n a4 a5 a6]
  by force

theorem syscall_write_sends_witness:
  "\<exists>t1 t2 s' d'. printk_text (\<lambda>_. CHR ''Z'') ''[SYSCALL] syscall %ld returned %ld\<newline>'' [VWord 3, VWord 2] = Some t2 \<and>
    syscall_handler pl011_putc (\<lambda>_ _. CHR ''Z'') SYS_WRITE 1 0x3000 2 0 0 0
      (mmu_demo\<lparr>kmem := (\<lambda>x. if x = 0x3000 then 0x68 else 0x0A)\<rparr>, idle_pl011) = Some (Returns (s', d')) \<and>
    pl011_sent d' = concat (map crlf t1) @ [0x68, 0x0D, 0x0A] @ concat (map crlf t2)"
proof -
  let ?s = "mmu_demo\<lparr>kmem := (\<lambda>x. if x = 0x3000 then 0x68 else 0x0A)\<rparr>"
  have live: "pl011_live idle_pl011" "pl011_sent idle_pl011 = []"
    by (auto simp: idle_pl011_def pl011_live_def pl011_sent_def)
  have "unat (2 :: u64) = Suc (Suc 0)" by simp
  then have "read_bytes (kmem ?s) 0x3000 (unat (2 :: u64)) = [0x68, 0x0A]" by (simp only: read_bytes.simps) simp
  moreover have "char_of (104 :: nat) = CHR ''h''" "char_of (10 :: nat) = CHR 0x0A" by code_simp+
  ultimately have c: "concat (map crlf (chars_of (read_bytes (kmem ?s) 0x3000 (unat (2 :: u64))))) = [0x68, 0x0D, 0x0A]"
    by (simp add: crlf_def)
  obtain t1 t2 s' d' where
    t2: "printk_text (\<lambda>_. CHR ''Z'') ''[SYSCALL] syscall %ld returned %ld\<newline>''
      [VWord SYS_WRITE, VWord (scast (ucast (2 :: u64) :: u32))] = Some t2"
    and r: "syscall_handler pl011_putc (\<lambda>_ _. CHR ''Z'') SYS_WRITE 1 0x3000 2 0 0 0 (?s, idle_pl011) = Some (Returns (s', d'))"
    and sent: "pl011_sent d' = concat (map crlf (t1 @ chars_of (read_bytes (kmem ?s) 0x3000 (unat (2 :: u64))) @ t2))"
    using syscall_write_sends [where fd = 1 and d = idle_pl011 and e = idle_com1 and g = "\<lambda>_ _. CHR ''Z''" and buf = "0x3000" and n = 2
        and s = ?s and ?a4.0 = 0 and ?a5.0 = 0 and ?a6.0 = 0] live by auto
  from t2 have "printk_text (\<lambda>_. CHR ''Z'') ''[SYSCALL] syscall %ld returned %ld\<newline>'' [VWord 3, VWord 2] = Some t2"
    by (simp add: SYS_WRITE_def)
  moreover from sent have "pl011_sent d' = concat (map crlf t1) @ [0x68, 0x0D, 0x0A] @ concat (map crlf t2)"
    by (simp only: map_append concat_append c)
  ultimately show ?thesis using r by blast
qed

text \<open>What the body of the switch leaves alone.\<close>

lemma syscall_body_frame:
  assumes "syscall_body putc g num arg1 arg2 arg3 (s, d) = Some (r, s1, d1)"
  shows "s1 = s\<lparr>klog := klog s1, alloc_ptr := alloc_ptr s1\<rparr>" "alloc_ptr s1 = alloc_ptr s \<or> num = SYS_MALLOC"
    "\<exists>ms. klog s1 = klog s @ ms" "num \<noteq> SYS_WRITE \<Longrightarrow> flush putc g s s1 d = Some d1"
  using assms
  by (auto simp: syscall_body_def kprint_def emit_def flush_def kmalloc_simple_def Let_def bind_eq_Some_conv
      split: if_splits)

text \<open>
  C37: a system call leaves no result behind. When the handler returns, the state differs from
  the one before only in the log and, for malloc, in the early allocator's pointer: neither
  memory, nor a saved or live register, nor the process table carries the value computed for
  the caller. Every call but write puts nothing on the serial line but its messages, and exit
  never returns.
\<close>

theorem syscall_returns_nothing:
  assumes "syscall_handler putc g num arg1 arg2 arg3 arg4 arg5 arg6 (s, d) = Some (Returns (s', d'))"
  shows "num \<noteq> SYS_EXIT \<and> s' = s\<lparr>klog := klog s', alloc_ptr := alloc_ptr s'\<rparr> \<and>
    (alloc_ptr s' = alloc_ptr s \<or> num = SYS_MALLOC) \<and> (flush putc g s s' d = Some d' \<or> num = SYS_WRITE)"
proof -
  let ?f = "''[SYSCALL] syscall %ld returned %ld\<newline>''"
  have ex: "num \<noteq> SYS_EXIT" using assms by (auto simp: syscall_handler_def)
  with assms obtain r s1 d1 where b: "syscall_body putc g num arg1 arg2 arg3 (s, d) = Some (r, s1, d1)"
    and k: "kprint putc g ?f [VWord num, VWord (scast r)] (s1, d1) = Some (s', d')"
    by (auto simp: syscall_handler_def bind_eq_Some_conv)
  note B = syscall_body_frame [OF b] and K = kprint_cases [OF k, unfolded fst_conv snd_conv]
  obtain ms where "klog s1 = klog s @ ms" using B(3) by blast
  moreover have "klog s' = klog s1 @ [(?f, [VWord num, VWord (scast r)])]" by (simp add: K(1))
  ultimately have "flush putc g s s' d = Option.bind (flush putc g s s1 d) (flush putc g s1 s')" by (rule flush_trans)
  then have "num = SYS_WRITE \<or> flush putc g s s' d = Some d'" using B(4) K(2) by (cases "num = SYS_WRITE") simp_all
  moreover have "s' = s\<lparr>klog := klog s', alloc_ptr := alloc_ptr s'\<rparr>"
    unfolding K(1) by (subst B(1)) (simp add: emit_def)
  moreover have "alloc_ptr s' = alloc_ptr s1" by (simp add: K(1) emit_def)
  ultimately show ?thesis using ex B(2) by auto
qed

theorem syscall_returns_nothing_witness:
  "\<exists>s' d'. syscall_handler pl011_putc (\<lambda>_ _. CHR ''Z'') SYS_GETPID 0 0 0 0 0 0 (mmu_demo, idle_pl011) = Some (Returns (s', d')) \<and>
     arm s' = arm mmu_demo"
proof -
  have "msg_ok (''[SYSCALL] syscall %ld returned %ld\<newline>'', [VWord 8, VWord 1])" by (simp add: msg_eval)
  from msg_text [OF this] obtain t where
    t: "printk_text (\<lambda>_. CHR ''Z'') ''[SYSCALL] syscall %ld returned %ld\<newline>'' [VWord 8, VWord 1] = Some t" by blast
  have "pl011_live idle_pl011" by (auto simp: idle_pl011_def pl011_live_def)
  from pl011.kprint_sends [OF this, of "\<lambda>_ _. CHR ''Z''" mmu_demo, OF t] obtain s' d' where
    r: "syscall_handler pl011_putc (\<lambda>_ _. CHR ''Z'') SYS_GETPID 0 0 0 0 0 0 (mmu_demo, idle_pl011) = Some (Returns (s', d'))"
    by (auto simp: syscall_handler_def syscall_body_def syscall_numbers)
  from syscall_returns_nothing [OF this] have "s' = mmu_demo\<lparr>klog := klog s', alloc_ptr := alloc_ptr s'\<rparr>" by blast
  then have "arm s' = arm (mmu_demo\<lparr>klog := klog s', alloc_ptr := alloc_ptr s'\<rparr>)" by (rule arg_cong)
  with r show ?thesis by auto
qed

text \<open>
  C38: \<^verbatim>\<open>printf\<close>, while \<^verbatim>\<open>stdout\<close> is null as it is initialised, puts exactly the formatted text on the
  serial line, with a carriage return before each line feed, on both serial ports, and returns its
  length, if the text has at most 255 characters. A longer text runs over the end of the local array of
  256 bytes, whatever \<^verbatim>\<open>stdout\<close> is.
\<close>

theorem printf_prints:
  assumes "vsprintf_loop fmt ap [] = Inr out"
  shows "(length out \<le> 255 \<and> pl011_live d \<longrightarrow>
      (\<exists>s' d'. printf pl011_putc g buf 0 fmt ap (s, d) = Some (Inr (length out, s', d')) \<and>
        pl011_sent d' = pl011_sent d @ concat (map crlf out))) \<and>
    (length out \<le> 255 \<and> com1_live e \<longrightarrow>
      (\<exists>s' e'. printf com1_putc g buf 0 fmt ap (s, e) = Some (Inr (length out, s', e')) \<and>
        com1_sent e' = com1_sent e @ concat (map crlf out))) \<and>
    (256 \<le> length out \<longrightarrow> printf putc g buf out_ptr fmt ap (s, f) = Some (Inl BufOverrun))"
  using pl011.printf_sends [OF _ assms, of d g buf s] com1.printf_sends [OF _ assms, of e g buf s] assms
  by (auto simp: printf_def vsprintf_def Let_def)

theorem printf_prints_witness:
  "(\<exists>s' d'. printf pl011_putc (\<lambda>_ _. CHR ''Z'') 0x9000 0 ''n=%d'' [VWord 42] (mmu_demo, idle_pl011) = Some (Inr (4, s', d')) \<and>
      pl011_sent d' = [0x6E, 0x3D, 0x34, 0x32]) \<and>
   printf com1_putc (\<lambda>_ _. CHR ''Z'') 0x9000 0 (replicate 300 (CHR ''a'')) [] (mmu_demo, idle_com1) = Some (Inl BufOverrun)"
proof -
  have l: "vsprintf_loop ''n=%d'' [VWord 42] [] = Inr ''n=42''" by code_simp
  have k: "vsprintf_loop (replicate 300 (CHR ''a'')) [] [] = Inr (replicate 300 (CHR ''a''))" by code_simp
  have "pl011_live idle_pl011" "pl011_sent idle_pl011 = []"
    by (auto simp: idle_pl011_def pl011_live_def pl011_sent_def)
  moreover have "length ''n=42'' = 4" by simp
  moreover have "256 \<le> length (replicate 300 (CHR ''a''))" by simp
  ultimately show ?thesis
    using printf_prints [OF l, of idle_pl011 "\<lambda>_ _. CHR ''Z''" "0x9000" mmu_demo, THEN conjunct1]
      printf_prints [OF k, THEN conjunct2, THEN conjunct2, rule_format]
    by (auto simp: crlf_def numeral_eq_Suc)
qed

end
