(* ===== verification/Buddy_Spec.thy ===== *)
theory Buddy_Spec
  imports Buddy
begin

text \<open>
  What the page allocator guarantees: when an allocation fails and what it returns, the
  bitmap as a set of pages, the free lists as lists through allocation, splitting,
  unlinking and release. A small two-page pool at \<open>0x200000\<close>, with its one-word bitmap at
  \<open>0x1000\<close>, serves the witnesses.
\<close>

section \<open>A concrete pool\<close>

definition pool_mem :: mem where
  "pool_mem = store64 (store64 (\<lambda>_. 0) 0x200000 0x201000) 0x201000 0"

definition pool_state :: buddy_state where
  "pool_state =
     \<lparr>kmem = pool_mem, klog = [],
      buddy = \<lparr>pool_start = 0x200000, pool_pages = 2, bitmap = 0x1000, bitmap_words = 1,
               free_lists = [0x200000, 0, 0, 0, 0, 0, 0, 0, 0, 0], free_count = 2,
               initialized = True\<rparr>\<rparr>"

definition pool_lists :: "nat \<Rightarrow> u64 list" where
  "pool_lists k = (if k = 0 then [0x200000, 0x201000] else [])"

lemma pool_sel [simp]:
  "kmem pool_state = pool_mem" "klog pool_state = []"
  "pool_start (buddy pool_state) = 0x200000" "pool_pages (buddy pool_state) = 2"
  "bitmap (buddy pool_state) = 0x1000" "bitmap_words (buddy pool_state) = 1"
  "free_lists (buddy pool_state) = [0x200000, 0, 0, 0, 0, 0, 0, 0, 0, 0]"
  "free_count (buddy pool_state) = 2" "initialized (buddy pool_state)"
  by (simp_all add: pool_state_def)

lemma pool_links [simp]:
  "load64 pool_mem 0x200000 = 0x201000" "load64 pool_mem 0x201000 = 0"
  by (simp_all add: pool_mem_def load64_store64_aligned aligned8_def)

lemma less_max_order: "k < MAX_ORDER_BITS \<longleftrightarrow> k \<in> {0, 1, 2, 3, 4, 5, 6, 7, 8, 9}"
  by (auto simp: MAX_ORDER_BITS_def)

lemma pool_wf: "buddy_wf (buddy pool_state)"
  by (simp add: buddy_wf_def aligned8_def MAX_ORDER_BITS_def)

lemma pool_node_free: "node_free (buddy pool_state) 0x200000" "node_free (buddy pool_state) 0x201000"
  unfolding node_free_def bitmap_region_def
  using region_interval [of "0x200000" 8] region_interval [of "0x201000" 8]
  by (auto simp: aligned8_def)

lemma pool_chains: "free_chains pool_lists pool_state"
  unfolding free_chains_def
proof (intro conjI allI impI)
  fix k assume "k < MAX_ORDER_BITS"
  then show "chain (peek64 pool_state) (free_lists (buddy pool_state) ! k) (pool_lists k)"
    unfolding less_max_order by (auto simp: pool_lists_def)
  show "\<forall>a\<in>set (pool_lists k). node_free (buddy pool_state) a"
    using pool_node_free by (auto simp: pool_lists_def)
qed (auto simp: pool_wf lists_disjoint_def pool_lists_def)

section \<open>Allocation\<close>

lemma scan_order_eqI:
  assumes "order \<le> f" "f < MAX_ORDER_BITS" "fl ! f \<noteq> 0"
    "\<forall>j. order \<le> j \<and> j < f \<longrightarrow> fl ! j = 0"
  shows "scan_order fl order = f"
proof -
  note sp = scan_order_spec [of order fl]
  have "\<not> f < scan_order fl order" using sp assms by auto
  moreover have "\<not> scan_order fl order < f"
  proof
    assume "scan_order fl order < f"
    with sp assms have "fl ! scan_order fl order \<noteq> 0" "order \<le> scan_order fl order" by auto
    with assms(4) \<open>scan_order fl order < f\<close> show False by blast
  qed
  ultimately show ?thesis by simp
qed

lemma alloc_pages_fail_cases:
  "fst (alloc_pages order s) = None \<longleftrightarrow>
     \<not> initialized (buddy s) \<or> MAX_ORDER_BITS \<le> unat order \<or>
     order = 0 \<and> pool_pages (buddy s) = 0 \<or>
     (\<forall>j. unat order \<le> j \<and> j < MAX_ORDER_BITS \<longrightarrow> free_lists (buddy s) ! j = 0)"
proof (cases "unat order \<le> MAX_ORDER_BITS")
  case True
  show ?thesis
    by (simp add: alloc_pages_def Let_def split_def scan_order_full_iff [OF True, symmetric])
next
  case False
  then show ?thesis by (simp add: alloc_pages_def)
qed

text \<open>
  C11: \<^verbatim>\<open>alloc_pages\<close> returns -1 exactly when the allocator is not initialised, the order
  is out of range, a single page is asked of an empty pool, or every free list from the
  requested order upwards is empty; and then it changes nothing but the log, by one line.
\<close>

theorem alloc_pages_failure:
  "(fst (alloc_pages order s) = None \<longleftrightarrow>
     \<not> initialized (buddy s) \<or> MAX_ORDER_BITS \<le> unat order \<or>
     order = 0 \<and> pool_pages (buddy s) = 0 \<or>
     (\<forall>j. unat order \<le> j \<and> j < MAX_ORDER_BITS \<longrightarrow> free_lists (buddy s) ! j = 0)) \<and>
   (fst (alloc_pages order s) = None \<longrightarrow>
     (\<exists>fmt args. snd (alloc_pages order s) = emit fmt args s))"
proof
  show "fst (alloc_pages order s) = None \<longrightarrow>
      (\<exists>fmt args. snd (alloc_pages order s) = emit fmt args s)"
    by (auto simp: alloc_pages_def Let_def split_def split: if_splits)
qed (rule alloc_pages_fail_cases)

theorem alloc_pages_failure_witness:
  "fst (alloc_pages 1 pool_state) = None \<and>
   (\<exists>fmt args. snd (alloc_pages 1 pool_state) = emit fmt args pool_state)"
proof -
  have "\<forall>j. unat (1 :: u32) \<le> j \<and> j < MAX_ORDER_BITS \<longrightarrow> free_lists (buddy pool_state) ! j = 0"
    by (auto simp: less_max_order)
  then have "fst (alloc_pages 1 pool_state) = None"
    using alloc_pages_failure [of 1 pool_state] by blast
  with alloc_pages_failure [of 1 pool_state] show ?thesis by blast
qed

lemma alloc_pages_unfold:
  assumes "initialized (buddy s)" "unat order \<le> f" "f < MAX_ORDER_BITS"
    "\<not> (order = 0 \<and> pool_pages (buddy s) = 0)" "free_lists (buddy s) ! f \<noteq> 0"
    "\<forall>j. unat order \<le> j \<and> j < f \<longrightarrow> free_lists (buddy s) ! j = 0"
  defines "block \<equiv> peek64 s (free_lists (buddy s) ! f)"
  defines "s3 \<equiv> add_free_count (- push_bit f 1)
     (mark_pages (buddy_phys_to_idx (buddy s) block f) (2 ^ f) True (set_free_list f block s))"
  shows "alloc_pages order s =
    (Some (fst (split_block f (unat order) block s3)), snd (split_block f (unat order) block s3))"
proof -
  have f: "scan_order (free_lists (buddy s)) (unat order) = f"
    using assms(2,3,5,6) by (rule scan_order_eqI)
  have "buddy_phys_to_idx (buddy (set_free_list f block s)) block f =
      buddy_phys_to_idx (buddy s) block f"
    by (simp add: buddy_phys_to_idx_def)
  with assms(1-4) f show ?thesis
    by (simp add: alloc_pages_def Let_def split_def s3_def block_def)
qed

text \<open>
  C10: When \<open>f\<close> is the smallest order not below the requested one whose free list is not
  empty, \<^verbatim>\<open>alloc_pages\<close> succeeds with the last piece of size \<open>2^order\<close> of the block that
  the head of that list links to; the pool's geometry is untouched and the free count
  drops by \<open>2^(f+1) - 2^order\<close> pages.
\<close>

theorem alloc_pages_success:
  assumes "initialized (buddy s)" "unat order \<le> f" "f < MAX_ORDER_BITS"
    "\<not> (order = 0 \<and> pool_pages (buddy s) = 0)" "free_lists (buddy s) ! f \<noteq> 0"
    "\<forall>j. unat order \<le> j \<and> j < f \<longrightarrow> free_lists (buddy s) ! j = 0"
  shows "fst (alloc_pages order s) =
      Some (peek64 s (free_lists (buddy s) ! f) +
            (push_bit f 1 - push_bit (unat order) 1) * PAGE_SIZE) \<and>
    same_geometry (buddy s) (buddy (snd (alloc_pages order s))) \<and>
    buddy_free_pages (snd (alloc_pages order s)) =
      buddy_free_pages s - (push_bit (Suc f) 1 - push_bit (unat order) 1)"
  unfolding alloc_pages_unfold [OF assms] buddy_free_pages_def
  by (simp add: split_block_result [OF assms(2)] split_block_free_count [OF assms(2)]
      split_block_frame [OF assms(2)] same_geometry_def push_bit_Suc_1)

theorem alloc_pages_success_witness:
  "fst (alloc_pages 0 pool_state) = Some 0x201000 \<and>
   buddy_free_pages (snd (alloc_pages 0 pool_state)) = 1"
  using alloc_pages_success [of pool_state 0 0]
  by (simp add: buddy_free_pages_def MAX_ORDER_BITS_def)

lemma alloc_pages_pop:
  assumes "free_chains L s" "initialized (buddy s)" "unat order < MAX_ORDER_BITS"
    "\<not> (order = 0 \<and> pool_pages (buddy s) = 0)" "L (unat order) = x # ys"
  shows "fst (alloc_pages order s) = Some (case ys of [] \<Rightarrow> 0 | y # _ \<Rightarrow> y)"
    "free_chains (L(unat order := ys)) (snd (alloc_pages order s))"
proof -
  let ?k = "unat order"
  have hd: "free_lists (buddy s) ! ?k = x" "x \<noteq> 0"
    and nx: "peek64 s x = (case ys of [] \<Rightarrow> 0 | y # _ \<Rightarrow> y)"
    using free_chainsD(2) [OF assms(1,3)] assms(5) by (auto split: list.splits)
  have "alloc_pages order s = (Some (peek64 s x), add_free_count (- push_bit ?k 1)
      (mark_pages (buddy_phys_to_idx (buddy s) (peek64 s x) ?k) (2 ^ ?k) True
        (set_free_list ?k (peek64 s x) s)))"
    using alloc_pages_unfold [OF assms(2) order_refl assms(3,4)] hd
    by (simp add: split_block.simps not_less [symmetric])
  moreover have "free_chains (L(?k := ys)) (set_free_list ?k (peek64 s x) s)"
    using free_chains_pop [OF assms(1,3,5)] hd by simp
  ultimately show "fst (alloc_pages order s) = Some (case ys of [] \<Rightarrow> 0 | y # _ \<Rightarrow> y)"
    "free_chains (L(?k := ys)) (snd (alloc_pages order s))"
    by (simp_all add: nx free_chains_mark_pages)
qed

text \<open>
  C27: Allocation at an order whose free list holds at least two blocks \<open>x\<close>, \<open>y\<close>:
  the caller receives \<open>y\<close>, the successor of the head; the head \<open>x\<close> leaves the list, and
  \<open>y\<close> becomes its head. So the block handed out is still on the free list.
\<close>

theorem alloc_pages_hands_out_successor:
  assumes "free_chains L s" "initialized (buddy s)" "unat order < MAX_ORDER_BITS"
    "\<not> (order = 0 \<and> pool_pages (buddy s) = 0)" "L (unat order) = x # y # ys"
  shows "fst (alloc_pages order s) = Some y \<and>
    free_chains (L(unat order := y # ys)) (snd (alloc_pages order s))"
  using alloc_pages_pop [OF assms] by simp

theorem alloc_pages_hands_out_successor_witness:
  "fst (alloc_pages 0 pool_state) = Some 0x201000 \<and>
   free_chains (pool_lists(0 := [0x201000])) (snd (alloc_pages 0 pool_state))"
  using alloc_pages_hands_out_successor [OF pool_chains, of 0 "0x200000" "0x201000" "[]"]
  by (simp add: MAX_ORDER_BITS_def pool_lists_def)

text \<open>
  When the free list of the requested order holds a single block, the caller receives
  the null address with the return value for success, and the list becomes empty: that
  last block is lost.
\<close>

theorem alloc_pages_last_block:
  assumes "free_chains L s" "initialized (buddy s)" "unat order < MAX_ORDER_BITS"
    "\<not> (order = 0 \<and> pool_pages (buddy s) = 0)" "L (unat order) = [x]"
  shows "fst (alloc_pages order s) = Some 0 \<and>
    free_chains (L(unat order := [])) (snd (alloc_pages order s))"
  using alloc_pages_pop [OF assms] by simp

theorem alloc_pages_last_block_witness:
  "fst (alloc_pages 0 (set_free_list 0 0x201000 pool_state)) = Some 0"
proof -
  let ?s = "set_free_list 0 0x201000 pool_state"
  have "free_chains (pool_lists(0 := [0x201000])) ?s"
    using free_chains_pop [OF pool_chains, of 0] by (simp add: MAX_ORDER_BITS_def pool_lists_def)
  from alloc_pages_last_block [OF this, of 0 "0x201000"] show ?thesis
    by (simp add: MAX_ORDER_BITS_def)
qed

section \<open>The bitmap\<close>

definition allocated_pages :: "'a buddy_state_scheme \<Rightarrow> u64 set" where
  "allocated_pages s = {p. p div 64 < bitmap_words (buddy s) \<and> buddy_is_allocated p s}"

text \<open>
  C9: The bitmap implements a set of page numbers. Marking \<open>n\<close> pages from \<open>start\<close>
  adds exactly those of them that the bitmap has a bit for, or removes them; no other
  page's bit and no byte outside the bitmap changes.
\<close>

theorem mark_pages_refines_set:
  assumes "buddy_wf (buddy s)" "n < 2 ^ 64"
  shows "allocated_pages (mark_pages start n v s) =
      (let R = {p. unat (p - start) < n \<and> p div 64 < bitmap_words (buddy s)} in
       if v then allocated_pages s \<union> R else allocated_pages s - R) \<and>
    (\<forall>x. x \<notin> bitmap_region (buddy s) \<longrightarrow> kmem (mark_pages start n v s) x = kmem s x)"
  by (auto simp: allocated_pages_def Let_def is_allocated_mark_pages [OF assms]
      mark_pages_outside [OF assms(1)])

theorem mark_pages_refines_set_witness:
  "allocated_pages (mark_pages 1 1 True pool_state) =
     (let R = {p. unat (p - 1) < 1 \<and> p div 64 < bitmap_words (buddy pool_state)} in
      if True then allocated_pages pool_state \<union> R else allocated_pages pool_state - R) \<and>
   kmem (mark_pages 1 1 True pool_state) 0x200000 = kmem pool_state 0x200000"
proof -
  have "(0x200000 :: u64) \<notin> bitmap_region (buddy pool_state)" by (simp add: bitmap_region_def)
  with mark_pages_refines_set [OF pool_wf, of 1 1 True] show ?thesis by simp
qed

text \<open>
  Converting a block index to an address and back gives the index again, as long as
  the address arithmetic does not leave 64 bits.
\<close>

theorem idx_phys_roundtrip:
  assumes "order < MAX_ORDER_BITS" "unat idx * (2 ^ order * 4096) < 2 ^ 64"
  shows "buddy_phys_to_idx b (buddy_idx_to_phys b order idx) order = idx"
proof -
  let ?sz = "push_bit order (1 :: u64) * PAGE_SIZE"
  have sz: "unat ?sz = 2 ^ order * 4096" by (rule unat_block_size [OF assms(1)])
  have "unat (idx * ?sz) = unat idx * unat ?sz"
    using assms(2) by (intro unat_mult64) (simp only: sz)
  then have "unat (idx * ?sz div ?sz) = unat idx"
    unfolding unat_div_distrib unfolding sz by simp
  then have "idx * ?sz div ?sz = idx" by (simp only: word_unat_eq_iff)
  then show ?thesis
    by (simp add: buddy_phys_to_idx_def buddy_idx_to_phys_def mult.assoc)
qed

theorem idx_phys_roundtrip_witness:
  "buddy_phys_to_idx (buddy pool_state) (buddy_idx_to_phys (buddy pool_state) 3 5) 3 = 5"
  by (rule idx_phys_roundtrip) (simp_all add: MAX_ORDER_BITS_def)

section \<open>Splitting\<close>

definition split_piece :: "nat \<Rightarrow> nat \<Rightarrow> u64 \<Rightarrow> u64" where
  "split_piece found j block = block + (push_bit found 1 - push_bit (Suc j) 1) * PAGE_SIZE"

lemma unat_split_offset:
  assumes "order \<le> found" "found < MAX_ORDER_BITS" "unat block + 2 ^ found * 4096 \<le> 2 ^ 64"
  shows "unat (block + (push_bit found 1 - push_bit order 1) * PAGE_SIZE) =
    unat block + (2 ^ found - 2 ^ order) * 4096"
proof -
  have f: "unat (push_bit found (1 :: u64)) = 2 ^ found" "unat (push_bit order (1 :: u64)) = 2 ^ order"
    using assms(1,2) by (simp_all only: unat_shift1 MAX_ORDER_BITS_def)
  have le: "(2 :: nat) ^ order \<le> 2 ^ found" using assms(1) by (rule power_increasing) simp
  then have "push_bit order (1 :: u64) \<le> push_bit found 1" unfolding word_le_nat_alt f .
  then have d: "unat (push_bit found 1 - push_bit order (1 :: u64)) = 2 ^ found - 2 ^ order"
    by (simp only: unat_minus64 f)
  have pos: "(1 :: nat) \<le> 2 ^ order" "(2 :: nat) ^ found \<le> 2 ^ 10"
    using assms(2) power_increasing [of found 10 "2 :: nat"] by (simp_all add: MAX_ORDER_BITS_def)
  have m: "unat ((push_bit found 1 - push_bit order 1) * PAGE_SIZE :: u64) =
      (2 ^ found - 2 ^ order) * 4096"
  proof -
    have "unat (push_bit found 1 - push_bit order (1 :: u64)) * unat PAGE_SIZE < 2 ^ 64"
      unfolding d using pos(2) by simp
    from unat_mult64 [OF this] show ?thesis unfolding d by simp
  qed
  have "unat block + (2 ^ found - 2 ^ order) * 4096 < 2 ^ 64"
    using assms(3) pos(1) le by linarith
  from unat_plus64 [of block, folded m, OF this [folded m]] show ?thesis unfolding m .
qed

lemma unat_split_piece:
  assumes "j < found" "found < MAX_ORDER_BITS" "unat block + 2 ^ found * 4096 \<le> 2 ^ 64"
  shows "unat (split_piece found j block) = unat block + (2 ^ found - 2 ^ Suc j) * 4096"
  unfolding split_piece_def using assms by (intro unat_split_offset) simp_all

lemma interval_disjoint: "b \<le> c \<Longrightarrow> {a ..< b} \<inter> {c ..< d} = {}" for a :: nat
  by auto

lemma piece_bound_mono:
  "i \<le> j \<Longrightarrow> b + (2 ^ f - 2 ^ j) * 4096 \<le> b + (2 ^ f - 2 ^ i) * (4096 :: nat)"
  by (intro add_le_mono mult_le_mono diff_le_mono2 power_increasing) simp_all

lemma split_intervals:
  "order \<le> found \<Longrightarrow> {b ..< b + 2 ^ found * 4096} =
     {b + (2 ^ found - 2 ^ order) * 4096 ..< b + 2 ^ found * 4096} \<union>
     (\<Union>j\<in>{order..<found}. {b + (2 ^ found - 2 ^ Suc j) * 4096 ..< b + (2 ^ found - 2 ^ j) * (4096 :: nat)})"
proof (induction "found - order" arbitrary: order)
  case 0
  then show ?case by simp
next
  case (Suc n)
  then have lt: "order < found" by simp
  have le: "(2 :: nat) ^ Suc order \<le> 2 ^ found" using lt by (intro power_increasing) simp_all
  have "{b + (2 ^ found - 2 ^ Suc order) * 4096 ..< b + 2 ^ found * (4096 :: nat)} =
    {b + (2 ^ found - 2 ^ order) * 4096 ..< b + 2 ^ found * 4096} \<union>
    {b + (2 ^ found - 2 ^ Suc order) * 4096 ..< b + (2 ^ found - 2 ^ order) * 4096}"
    using le by auto
  moreover have "{order..<found} = insert order {Suc order..<found}" using lt by auto
  moreover have "n = found - Suc order" "Suc order \<le> found" using Suc lt by simp_all
  ultimately show ?case using Suc.hyps(1) [of "Suc order"] by (simp only: UN_insert Un_assoc)
qed


lemma extent_last_piece:
  assumes "order \<le> found" "found < MAX_ORDER_BITS" "unat block + 2 ^ found * 4096 \<le> 2 ^ 64"
  shows "extent (fst (split_block found order block s)) order =
    {unat block + (2 ^ found - 2 ^ order) * 4096 ..< unat block + 2 ^ found * 4096}"
proof -
  have b: "unat (fst (split_block found order block s)) = unat block + (2 ^ found - 2 ^ order) * 4096"
    unfolding split_block_result [OF assms(1)] by (rule unat_split_offset [OF assms])
  have "(2 :: nat) ^ order \<le> 2 ^ found" using assms(1) by (rule power_increasing) simp
  then have "unat (fst (split_block found order block s)) + 2 ^ order * 4096 = unat block + 2 ^ found * 4096"
    unfolding b by linarith
  then show ?thesis unfolding extent_def b [symmetric] by simp
qed

lemma extent_split_piece:
  assumes "j < found" "found < MAX_ORDER_BITS" "unat block + 2 ^ found * 4096 \<le> 2 ^ 64"
  shows "extent (split_piece found j block) j =
    {unat block + (2 ^ found - 2 ^ Suc j) * 4096 ..< unat block + (2 ^ found - 2 ^ j) * 4096}"
proof -
  have "(2 :: nat) ^ j \<le> 2 ^ found" "(2 :: nat) ^ Suc j \<le> 2 ^ found"
    using assms(1) by (auto intro!: power_increasing simp del: power_Suc)
  then have "unat block + (2 ^ found - 2 ^ Suc j) * 4096 + 2 ^ j * 4096 = unat block + (2 ^ found - 2 ^ j) * 4096"
    unfolding power_Suc by linarith
  then show ?thesis unfolding extent_def unat_split_piece [OF assms] by (simp only:)
qed

lemma split_block_pieces:
  assumes "order \<le> found" "found < MAX_ORDER_BITS" "free_chains L s"
    "block_ok L (buddy s) block found"
  defines "b' \<equiv> fst (split_block found order block s)"
  shows "free_chains (\<lambda>j. if order \<le> j \<and> j < found then split_piece found j block # L j else L j)
      (snd (split_block found order block s))"
    and "extent block found =
      extent b' order \<union> (\<Union>j\<in>{order..<found}. extent (split_piece found j block) j)"
    and "order \<le> i \<Longrightarrow> i < found \<Longrightarrow>
      extent (split_piece found i block) i \<inter> extent b' order = {}"
    and "order \<le> i \<Longrightarrow> i < j \<Longrightarrow> j < found \<Longrightarrow>
      extent (split_piece found i block) i \<inter> extent (split_piece found j block) j = {}"
proof -
  have fit: "unat block + 2 ^ found * 4096 \<le> 2 ^ 64" using assms(4) by (simp add: block_ok_def)
  have eb: "extent b' order = {unat block + (2 ^ found - 2 ^ order) * 4096 ..< unat block + 2 ^ found * 4096}"
    unfolding b'_def by (rule extent_last_piece [OF assms(1,2) fit])
  note ep = extent_split_piece [OF _ assms(2) fit]
  show "free_chains (\<lambda>j. if order \<le> j \<and> j < found then split_piece found j block # L j else L j)
      (snd (split_block found order block s))"
  proof -
    have "split_lists found order block L =
        (\<lambda>j. if order \<le> j \<and> j < found then split_piece found j block # L j else L j)"
      by (simp add: fun_eq_iff split_lists_def split_piece_def)
    with split_block_chains [OF assms(1-4)] show ?thesis by (simp only:)
  qed
  show "extent block found =
      extent b' order \<union> (\<Union>j\<in>{order..<found}. extent (split_piece found j block) j)"
  proof -
    have "(\<Union>j\<in>{order..<found}. extent (split_piece found j block) j) =
      (\<Union>j\<in>{order..<found}. {unat block + (2 ^ found - 2 ^ Suc j) * 4096 ..<
        unat block + (2 ^ found - 2 ^ j) * 4096})"
      by (rule SUP_cong) (simp_all add: ep del: power_Suc)
    with split_intervals [OF assms(1), of "unat block"] show ?thesis
      unfolding eb extent_def [of block] by (simp only:)
  qed
  show "extent (split_piece found i block) i \<inter> extent b' order = {}" if "order \<le> i" "i < found"
    unfolding ep [OF that(2)] eb using that(1) by (intro interval_disjoint piece_bound_mono)
  show "extent (split_piece found i block) i \<inter> extent (split_piece found j block) j = {}"
    if "order \<le> i" "i < j" "j < found"
    unfolding ep [OF less_trans [OF that(2,3)]] ep [OF that(3)] using that(2)
    by (subst Int_commute) (intro interval_disjoint piece_bound_mono Suc_leI)
qed


lemma pool_block_ok: "block_ok (\<lambda>_. []) (buddy pool_state) 0x400000 2"
  by (auto simp: block_ok_def aligned8_def extent_def bitmap_region_def)

lemma empty_pool_chains:
  "free_chains (\<lambda>_. []) (set_free_list 0 0 pool_state)"
  using free_chains_set_head [OF pool_chains, of 0 0 "[]"]
  by (simp add: MAX_ORDER_BITS_def pool_lists_def [abs_def] fun_upd_def cong: if_cong)

text \<open>
  C1: Splitting a block of order \<open>found\<close> down to \<open>order\<close> partitions it: the block
  handed on and the pieces put on the free lists of the orders between cover exactly the
  addresses of the original block and do not overlap, and the free lists in memory are the
  old ones with those pieces in front.
\<close>

theorem split_block_partitions:
  assumes "order \<le> found" "found < MAX_ORDER_BITS" "free_chains L s"
    "block_ok L (buddy s) block found"
  defines "b' \<equiv> fst (split_block found order block s)"
  shows "free_chains (\<lambda>j. if order \<le> j \<and> j < found then split_piece found j block # L j else L j)
      (snd (split_block found order block s)) \<and>
    extent block found =
      extent b' order \<union> (\<Union>j\<in>{order..<found}. extent (split_piece found j block) j) \<and>
    (\<forall>i. order \<le> i \<and> i < found \<longrightarrow>
      extent (split_piece found i block) i \<inter> extent b' order = {}) \<and>
    (\<forall>i j. order \<le> i \<and> i < j \<and> j < found \<longrightarrow>
      extent (split_piece found i block) i \<inter> extent (split_piece found j block) j = {})"
  unfolding b'_def
  by (intro conjI allI impI; (elim conjE)?)
    (rule split_block_pieces [OF assms(1-4)]; assumption)+

theorem split_block_partitions_witness:
  "extent 0x400000 2 =
     extent (fst (split_block 2 0 0x400000 (set_free_list 0 0 pool_state))) 0 \<union>
     (\<Union>j\<in>{0..<2}. extent (split_piece 2 j 0x400000) j) \<and>
   split_piece 2 1 0x400000 = 0x400000 \<and> split_piece 2 0 0x400000 = 0x402000"
proof -
  have "block_ok (\<lambda>_. []) (buddy (set_free_list 0 0 pool_state)) 0x400000 2"
    using pool_block_ok by (simp add: block_ok_def bitmap_region_def)
  moreover have "2 < MAX_ORDER_BITS" "0 \<le> (2 :: nat)" by (simp_all add: MAX_ORDER_BITS_def)
  moreover have "split_piece 2 1 0x400000 = 0x400000 \<and> split_piece 2 0 0x400000 = 0x402000"
    by (simp add: split_piece_def)
  ultimately show ?thesis
    using split_block_partitions [OF _ _ empty_pool_chains, of 0 2 "0x400000"] by (simp only:)
qed

section \<open>Release\<close>

text \<open>
  Unlinking a block from a free list returns and removes exactly that block from that
  list; the other lists, the pool's geometry and the free count stay as they are.
\<close>

theorem unlink_removes_block:
  assumes "free_chains L s" "k < MAX_ORDER_BITS"
  shows "\<exists>s'. unlink k target 0 (free_lists (buddy s) ! k) s = Some s' \<and>
    free_chains (L(k := remove1 target (L k))) s' \<and>
    same_geometry (buddy s) (buddy s') \<and> buddy_free_pages s' = buddy_free_pages s"
  using unlink_removes [OF assms, of target] unfolding buddy_free_pages_def by blast

theorem unlink_removes_block_witness:
  "\<exists>s'. unlink 0 0x201000 0 0x200000 pool_state = Some s' \<and>
    free_chains (pool_lists(0 := [0x200000])) s'"
  using unlink_removes_block [OF pool_chains, of 0 "0x201000"]
  by (auto simp: MAX_ORDER_BITS_def pool_lists_def)

text \<open>
  C8: On well-formed free lists releasing a block always returns, whatever the address and
  the order; the pool's geometry stays and exactly one line is logged unless the call is
  refused silently.
\<close>

theorem free_pages_terminates:
  assumes "free_chains L s"
  shows "\<exists>s'. free_pages phys order s = Some s' \<and> same_geometry (buddy s) (buddy s') \<and>
    length (klog s') \<le> Suc (length (klog s))"
proof (cases "unat order < MAX_ORDER_BITS")
  case True
  obtain c' p' s' where "coalesce (unat order) phys s = Some (c', p', s')"
    "klog s' = klog s" "same_geometry (buddy s) (buddy s')"
    using coalesce_returns [OF assms True, of phys] by blast
  with True show ?thesis
    by (auto simp: free_pages_def Let_def same_geometry_def)
qed (simp add: free_pages_def)

theorem free_pages_terminates_witness:
  "\<exists>s'. free_pages 0x201000 0 pool_state = Some s' \<and>
    same_geometry (buddy pool_state) (buddy s') \<and> length (klog s') \<le> Suc 0"
  using free_pages_terminates [OF pool_chains, of "0x201000" 0] by simp

lemma coalesce_stop:
  "MAX_ORDER_BITS \<le> Suc k \<or> \<not> pages_free (neighbour_idx (buddy s) phys k) (2 ^ k) s \<Longrightarrow>
   coalesce k phys s = Some (k, phys, s)"
  by (subst coalesce_unfold) auto

text \<open>
  Releasing a block whose neighbour is in use (or that has the largest order) puts the
  block at the front of the free list of its order, clears the bits of its index range,
  and leaves the free count as it was.
\<close>

theorem free_pages_no_merge:
  assumes "free_chains L s" "initialized (buddy s)" "unat order < MAX_ORDER_BITS"
    "phys mod (PAGE_SIZE * push_bit (unat order) 1) = 0"
    "MAX_ORDER_BITS \<le> Suc (unat order) \<or>
       \<not> pages_free (neighbour_idx (buddy s) phys (unat order)) (2 ^ unat order) s"
    "node_free (buddy s) phys" "phys \<noteq> 0" "\<forall>j<MAX_ORDER_BITS. phys \<notin> set (L j)"
  shows "\<exists>s'. free_pages phys order s = Some s' \<and>
    free_chains (L(unat order := phys # L (unat order))) s' \<and>
    buddy_free_pages s' = buddy_free_pages s \<and>
    (\<forall>q. unat (q - buddy_phys_to_idx (buddy s) phys (unat order)) < 2 ^ unat order \<and>
         q div 64 < bitmap_words (buddy s) \<longrightarrow> \<not> buddy_is_allocated q s')"
proof -
  let ?k = "unat order" and ?st = "buddy_phys_to_idx (buddy s) phys (unat order)"
  define s3 where "s3 = set_free_list ?k phys (poke64 phys (free_lists (buddy s) ! ?k) s)"
  have fc3: "free_chains (L(?k := phys # L ?k)) s3"
    unfolding s3_def by (rule free_chains_push [OF assms(1,3,6,7,8)])
  have small: "(2 :: nat) ^ ?k < 2 ^ 64"
    using assms(3) by (intro power_strict_increasing) (simp_all add: MAX_ORDER_BITS_def)
  have geo: "buddy_phys_to_idx (buddy s3) phys ?k = ?st" "bitmap_words (buddy s3) = bitmap_words (buddy s)"
    by (simp_all add: s3_def buddy_phys_to_idx_def)
  have "free_pages phys order s = Some (emit
      ''[BUDDY] Freed order %u at 0x%lx (coalesced to %u, %zu free pages)\<newline>''
      [VWord (ucast order), VWord phys, VWord (of_nat ?k), VWord (free_count (buddy s))]
      (add_free_count 0 (mark_pages ?st (2 ^ ?k) False s3)))"
    using assms(2-4) coalesce_stop [OF assms(5)] geo
    by (simp add: free_pages_def Let_def s3_def del: of_nat_unat)
  moreover have "\<not> buddy_is_allocated q (mark_pages ?st (2 ^ ?k) False s3)"
    if "unat (q - ?st) < 2 ^ ?k" "q div 64 < bitmap_words (buddy s)" for q
    using that geo is_allocated_mark_pages [OF free_chainsD(1) [OF fc3] small] by simp
  ultimately show ?thesis
    using free_chains_mark_pages [OF fc3] by (auto simp: buddy_free_pages_def s3_def)
qed


theorem free_pages_no_merge_witness:
  "\<exists>s'. free_pages 0x202000 0 (mark_pages 3 1 True pool_state) = Some s' \<and>
    free_chains (pool_lists(0 := 0x202000 # pool_lists 0)) s'"
proof -
  let ?s = "mark_pages 3 1 True pool_state"
  have alloc: "buddy_is_allocated 3 ?s"
    using is_allocated_mark_pages [OF pool_wf, of 1 3 3 True] by simp
  have idx: "buddy_phys_to_idx (buddy pool_state) 0x202000 0 = 2"
    by (simp add: buddy_phys_to_idx_def)
  have "neighbour_idx (buddy ?s) 0x202000 0 = 3" by (simp add: neighbour_idx_def idx)
  with alloc have "\<not> pages_free (neighbour_idx (buddy ?s) 0x202000 0) (2 ^ 0) ?s" by simp
  moreover have "node_free (buddy ?s) 0x202000"
    unfolding node_free_def bitmap_region_def
    using region_interval [of "0x202000" 8] by (auto simp: aligned8_def)
  ultimately show ?thesis
    using free_pages_no_merge [OF free_chains_mark_pages [OF pool_chains], of 3 1 True 0 "0x202000"]
    by (auto simp: MAX_ORDER_BITS_def pool_lists_def)
qed

section \<open>Coalescing finds the enclosing block\<close>

lemma round_down_trans:
  "(a div b * b) div (b * m) * (b * m) = a div (b * m) * (b * (m :: nat))"
  by (cases "b = 0") (simp_all add: div_mult2_eq)

lemma neighbour_min:
  assumes c: "c < MAX_ORDER_BITS" and p: "pool_start b \<le> p" "unat p + 2 ^ c * 4096 < 2 ^ 64"
    and al: "unat (p - pool_start b) mod (2 ^ c * 4096) = 0"
  shows "pool_start b \<le> min (neighbour_phys b p c) p"
    "min (neighbour_phys b p c) p \<le> p"
    "unat (min (neighbour_phys b p c) p - pool_start b) =
       unat (p - pool_start b) div (2 ^ Suc c * 4096) * (2 ^ Suc c * 4096)"
proof -
  let ?S = "push_bit c (1 :: u64) * PAGE_SIZE" and ?r = "unat (p - pool_start b)"
  define S where "S = (2 :: nat) ^ c * 4096"
  have S: "unat ?S = S" "0 < S" unfolding S_def by (rule unat_block_size [OF c]) simp
  obtain q where q: "?r = S * q" using al unfolding S_def by auto
  have idx: "unat (buddy_phys_to_idx b p c) = q"
    unfolding buddy_phys_to_idx_def unat_div_distrib S(1) q using S(2) by simp
  then have par: "buddy_phys_to_idx b p c mod 2 = 0 \<longleftrightarrow> even q"
    by (simp only: word_unat_eq_iff unat_mod_distrib) (simp add: even_iff_mod_2_eq_zero)
  have rp: "?r = unat p - unat (pool_start b)" "unat (pool_start b) \<le> unat p"
    using p(1) by (simp_all add: unat_minus64 word_le_nat_alt)
  have two: "2 ^ Suc c * 4096 = 2 * S" unfolding S_def by simp
  have "pool_start b \<le> min (neighbour_phys b p c) p \<and> min (neighbour_phys b p c) p \<le> p \<and>
    unat (min (neighbour_phys b p c) p - pool_start b) = q div 2 * (2 * S)"
  proof (cases "even q")
    case True
    have "unat (p + ?S) = unat p + S" using p(2) S by (subst unat_plus64) (simp_all add: S_def)
    then have "min (neighbour_phys b p c) p = p"
      using True par S(2) unfolding neighbour_phys_def by (simp add: min_def word_le_nat_alt)
    moreover have "S * q = q div 2 * (2 * S)" using True by (simp add: ac_simps)
    ultimately show ?thesis using p(1) trans [OF q] by (simp only: order_refl simp_thms)
  next
    case False
    then obtain h where h: "q = Suc (2 * h)" by (metis oddE Suc_eq_plus1)
    have ge: "unat (pool_start b) + S \<le> unat p" using rp q h by (simp add: algebra_simps)
    then have le: "?S \<le> p" by (simp only: word_le_nat_alt S(1))
    have m: "unat (p - ?S) = unat p - S" unfolding unat_minus64 [OF le] S(1) ..
    have lt: "p - ?S < p" unfolding word_less_nat_alt m using S(2) ge by linarith
    have mn: "min (neighbour_phys b p c) p = p - ?S"
      using False par lt unfolding neighbour_phys_def by (simp add: min_def order.strict_implies_order)
    have pl: "pool_start b \<le> p - ?S" unfolding word_le_nat_alt m using ge by linarith
    have "unat (p - ?S - pool_start b) = S * q - S"
      unfolding unat_minus64 [OF pl] m using rp q by linarith
    also have "\<dots> = q div 2 * (2 * S)" using h by (simp add: algebra_simps)
    finally show ?thesis using mn pl lt by simp
  qed
  then show "pool_start b \<le> min (neighbour_phys b p c) p" "min (neighbour_phys b p c) p \<le> p"
    "unat (min (neighbour_phys b p c) p - pool_start b) =
       ?r div (2 ^ Suc c * 4096) * (2 ^ Suc c * 4096)"
    unfolding two q using S(2) by (simp_all add: mult.commute [of 2 S])
qed


lemma coalesce_enclosing:
  assumes "coalesce c p s = Some (c', p', s')" "free_chains L s" "c < MAX_ORDER_BITS"
    "pool_start (buddy s) \<le> p" "unat p + 2 ^ MAX_ORDER_BITS * 4096 < 2 ^ 64"
    "unat (p - pool_start (buddy s)) mod (2 ^ c * 4096) = 0"
  shows "c \<le> c' \<and> c' < MAX_ORDER_BITS \<and> unat (p' - pool_start (buddy s)) =
    unat (p - pool_start (buddy s)) div (2 ^ c' * 4096) * (2 ^ c' * 4096)"
  using assms
proof (induction "MAX_ORDER_BITS - c" arbitrary: c p s L rule: less_induct)
  case less
  let ?bp = "neighbour_phys (buddy s) p c" and ?s2 = "clear_neighbour p c s"
  let ?r = "unat (p - pool_start (buddy s))"
  show ?case
  proof (cases "c < MAX_ORDER_BITS - 1 \<and> pages_free (neighbour_idx (buddy s) p c) (2 ^ c) s \<and>
      free_lists (buddy s) ! c \<noteq> 0")
    case False
    then have "c' = c" "p' = p"
      using less.prems(1) by (auto simp: coalesce_unfold [of c p s] split: if_splits)
    with less.prems(3,6) show ?thesis by auto
  next
    case True
    obtain s3 where s3: "unlink c ?bp 0 (free_lists (buddy s) ! c) ?s2 = Some s3"
      "free_chains (L(c := remove1 ?bp (L c))) s3" "same_geometry (buddy ?s2) (buddy s3)"
      using unlink_removes [OF free_chains_clear_neighbour [OF less.prems(2)] less.prems(3)]
      by fastforce
    have ps: "pool_start (buddy s3) = pool_start (buddy s)"
      using s3(3) by (simp add: same_geometry_def)
    have co: "coalesce (Suc c) (min ?bp p) s3 = Some (c', p', s')"
      using True s3(1) less.prems(1) by (simp add: coalesce_unfold [of c p s])
    have "(2 :: nat) ^ c * 4096 \<le> 2 ^ MAX_ORDER_BITS * 4096"
      using less.prems(3) by (simp add: power_increasing)
    then have fit: "unat p + 2 ^ c * 4096 < 2 ^ 64" using less.prems(5) by linarith
    note nb = neighbour_min [OF less.prems(3,4) fit less.prems(6)]
    have "unat (min ?bp p) \<le> unat p" using nb(2) by (simp add: word_le_nat_alt)
    then have "unat (min ?bp p) + 2 ^ MAX_ORDER_BITS * 4096 < 2 ^ 64" using less.prems(5) by linarith
    moreover have "unat (min ?bp p - pool_start (buddy s3)) mod (2 ^ Suc c * 4096) = 0"
      unfolding ps nb(3) by simp
    moreover have "MAX_ORDER_BITS - Suc c < MAX_ORDER_BITS - c" "Suc c < MAX_ORDER_BITS"
      using True by linarith+
    ultimately have ih: "Suc c \<le> c' \<and> c' < MAX_ORDER_BITS \<and> unat (p' - pool_start (buddy s)) =
      unat (min ?bp p - pool_start (buddy s)) div (2 ^ c' * 4096) * (2 ^ c' * 4096)"
      using less.hyps [OF _ co s3(2)] nb(1) ps by simp
    then obtain d where d: "c' = Suc c + d" using le_Suc_ex by blast
    have "(2 :: nat) ^ c' * 4096 = (2 ^ Suc c * 4096) * 2 ^ d" by (simp add: d power_add)
    with ih show ?thesis unfolding nb(3) by (simp only: round_down_trans) simp
  qed
qed

text \<open>
  C7: Coalescing a released block that is aligned in the pool ends with the block of the
  reached order that encloses it: its offset in the pool is the released offset rounded
  down to a multiple of the new size.
\<close>

theorem coalesce_reaches_enclosing_block:
  assumes "free_chains L s" "c < MAX_ORDER_BITS" "pool_start (buddy s) \<le> p"
    "unat p + 2 ^ MAX_ORDER_BITS * 4096 < 2 ^ 64"
    "unat (p - pool_start (buddy s)) mod (2 ^ c * 4096) = 0"
  shows "\<exists>c' p' s'. coalesce c p s = Some (c', p', s') \<and> c \<le> c' \<and> c' < MAX_ORDER_BITS \<and>
    unat (p' - pool_start (buddy s)) =
      unat (p - pool_start (buddy s)) div (2 ^ c' * 4096) * (2 ^ c' * 4096)"
proof -
  obtain c' p' s' where "coalesce c p s = Some (c', p', s')"
    using coalesce_returns [OF assms(1,2), of p] by blast
  with coalesce_enclosing [OF this assms] show ?thesis by blast
qed

theorem coalesce_reaches_enclosing_block_witness:
  "\<exists>c' p' s'. coalesce 0 0x201000 pool_state = Some (c', p', s') \<and> c' < MAX_ORDER_BITS \<and>
    unat (p' - 0x200000) = 4096 div (2 ^ c' * 4096) * (2 ^ c' * 4096)"
  using coalesce_reaches_enclosing_block [OF pool_chains, of 0 "0x201000"]
  by (auto simp: MAX_ORDER_BITS_def)

end
