(* ===== verification/Mm_Spec.thy ===== *)
theory Mm_Spec
  imports Mm Buddy_Spec
begin

text \<open>
  What the heap and the wrappers around the page allocator do: the shape of a new slab, what the zeroing in \<^verbatim>\<open>kmalloc\<close> does to
  the slab's own header, and what \<^verbatim>\<open>kfree\<close> and \<^verbatim>\<open>krealloc\<close> make of that.
\<close>

section \<open>Allocation of one page\<close>

lemma split_block_slab [simp, frame_simps]:
  "slab (snd (split_block f order block s)) = slab s"
proof (induction f order block s rule: split_block.induct)
  case (1 f order block s)
  then show ?case by (subst split_block.simps) (simp add: Let_def)
qed

lemma alloc_pages_slab [simp, frame_simps]: "slab (snd (alloc_pages order s)) = slab s"
  by (simp add: alloc_pages_def Let_def split_def)

definition one_page :: "'a buddy_state_scheme \<Rightarrow> bool" where
  "one_page s \<longleftrightarrow> buddy_wf (buddy s) \<and> initialized (buddy s) \<and> pool_pages (buddy s) \<noteq> 0 \<and>
     free_lists (buddy s) ! 0 \<noteq> 0"

abbreviation next_page :: "'a buddy_state_scheme \<Rightarrow> u64" where
  "next_page s \<equiv> peek64 s (free_lists (buddy s) ! 0)"

lemma alloc_page:
  assumes "one_page s"
  shows "alloc_pages 0 s = (Some (next_page s), add_free_count (- 1)
    (buddy_set_allocated (buddy_phys_to_idx (buddy s) (next_page s) 0) True
      (set_free_list 0 (next_page s) s)))"
  using alloc_pages_unfold [of s 0 0] assms
  by (simp add: one_page_def MAX_ORDER_BITS_def split_block.simps [of 0 0])

lemma alloc_page_outside:
  assumes "one_page s" "x \<notin> bitmap_region (buddy s)"
  shows "kmem (snd (alloc_pages 0 s)) x = kmem s x"
proof -
  have "buddy_wf (buddy (set_free_list 0 (next_page s) s))"
    "bitmap_region (buddy (set_free_list 0 (next_page s) s)) = bitmap_region (buddy s)"
    using assms(1) by (simp_all add: one_page_def buddy_wf_def bitmap_region_def)
  with assms show ?thesis by (simp add: alloc_page set_allocated_outside)
qed

section \<open>Slabs\<close>

text \<open>
  when no slab on the list has a free object and the page allocator hands out the page
  \<open>p\<close>, \<^verbatim>\<open>slab_alloc\<close> returns \<open>p\<close> and puts a slab for it at the front of the list, whose free
  list holds the other 63 objects of the page in ascending order; no byte outside the
  page changes.
\<close>

theorem slab_alloc_builds_slab:
  assumes "chain (slab_next (kmem s)) (slabs (slab s)) as"
    and "\<forall>a\<in>set as. slab_free_list (kmem s) a = 0"
    and "alloc_pages 0 s = (Some p, s1)" "page_ok p"
  shows "\<exists>s'. slab_alloc s = Some (p, s') \<and> slabs (slab s') = p \<and>
    slab_page_phys (kmem s') p = p \<and> slab_next (kmem s') p = slabs (slab s) \<and>
    chain (peek64 s') (slab_free_list (kmem s') p) (slab_objs p) \<and>
    used_objs (slab s') = used_objs (slab s) + 1 \<and>
    total_objs (slab s') = total_objs (slab s) + 64 \<and>
    (\<forall>x. x \<notin> region p 4096 \<longrightarrow> kmem s' x = kmem s1 x)"
proof -
  have sl: "slab s1 = slab s" using alloc_pages_slab [of 0 s] assms(3) by simp
  have "slab_alloc s = Some (slab_new p s1)"
    using assms(2,3) slab_with_free_chain [OF assms(1)]
    by (simp add: slab_alloc_def first_such_none)
  then have "slab_alloc s = Some (p, snd (slab_new p s1))" by (simp add: prod_eq_iff)
  with slab_new_header [OF assms(4), of s1] slab_new_objs [OF assms(4), of s1]
    slab_new_outside [OF assms(4), of _ s1] sl show ?thesis by auto
qed

definition mm_pool :: mm_state where
  "mm_pool = buddy_state.extend pool_state \<lparr>slab = slab_static\<rparr>"

lemma mm_pool_sel [simp]:
  "kmem mm_pool = pool_mem" "buddy mm_pool = buddy pool_state" "slab mm_pool = slab_static"
  "klog mm_pool = []"
  by (simp_all add: mm_pool_def buddy_state.defs pool_state_def)

lemma mm_pool_one_page: "one_page mm_pool" "page_ok 0x201000"
  using pool_wf by (simp_all add: one_page_def page_ok_def)

theorem slab_alloc_builds_slab_witness:
  "\<exists>s'. slab_alloc mm_pool = Some (0x201000, s') \<and>
     chain (peek64 s') (slab_free_list (kmem s') 0x201000) (slab_objs 0x201000)"
proof -
  obtain s1 where "alloc_pages 0 mm_pool = (Some 0x201000, s1)"
    using alloc_page [OF mm_pool_one_page(1)] by simp
  from slab_alloc_builds_slab [OF _ _ this mm_pool_one_page(2), of "[]"] show ?thesis
    by (auto simp: slab_static_def)
qed


text \<open>Two different pages have no byte in common.\<close>

lemma pages_disjoint:
  assumes "page_ok p" "page_ok q" "p \<noteq> q"
  shows "region p 4096 \<inter> region q 4096 = {}"
proof (rule ccontr)
  assume "region p 4096 \<inter> region q 4096 \<noteq> {}"
  then obtain x where x: "x \<in> region p 4096" "x \<in> region q 4096" by blast
  have "unat x div 4096 = unat p div 4096" if "page_ok p" "x \<in> region p 4096" for p
  proof -
    have "unat p \<le> unat x" "unat x < unat p + 4096"
      using page_region [OF that(1), of 0 4096 x] that(2) by auto
    moreover have "unat p = 4096 * (unat p div 4096)"
      using that(1) div_mult_mod_eq [of "unat p" 4096] by (simp add: page_ok_def)
    ultimately show ?thesis by (intro div_nat_eqI) auto
  qed
  then have "unat p div 4096 = unat q div 4096" using x assms(1,2) by metis
  moreover have "4096 dvd unat p" "4096 dvd unat q" using assms by (auto simp: page_ok_def)
  ultimately have "unat p = unat q" by (metis dvd_div_mult_self)
  with assms(3) show False by (simp add: word_unat_eq_iff)
qed

text \<open>Words of a page read the same in two memories that agree on the page.\<close>

lemma load64_in_page:
  assumes "page_ok p" "unat k + 8 \<le> 4096" "\<And>x. x \<in> region p 4096 \<Longrightarrow> m x = m' x"
  shows "load64 m (p + k) = load64 m' (p + k)"
proof (rule load64_cong)
  fix x assume "x \<in> region (p + k) 8"
  then have "x \<in> region p 4096"
    using page_region [OF assms(1), of k 8 x] page_region [OF assms(1), of 0 4096 x] assms(2)
    by simp
  then show "m x = m' x" by (rule assms(3))
qed

lemma header_in_page:
  assumes "page_ok p" "\<And>x. x \<in> region p 4096 \<Longrightarrow> m x = m' x"
  shows "slab_page_phys m p = slab_page_phys m' p" "slab_free_list m p = slab_free_list m' p"
    "slab_next m p = slab_next m' p"
  using load64_in_page [OF assms(1), of 0 m m'] load64_in_page [OF assms(1), of 8 m m']
    load64_in_page [OF assms(1), of 80 m m'] assms(2)
  by (simp_all add: slab_page_phys_def slab_free_list_def slab_next_def)

section \<open>The kernel heap\<close>

text \<open>
  The slab list as \<^verbatim>\<open>kmalloc\<close> leaves it: slabs whose header has been zeroed, so that none of
  them has a free object or knows its page any more.
\<close>

definition spent_slabs :: "u64 list \<Rightarrow> 'a mm_state_scheme \<Rightarrow> bool" where
  "spent_slabs as s \<longleftrightarrow>
     chain (slab_next (kmem s)) (slabs (slab s)) as \<and>
     (\<forall>a\<in>set as. page_ok a \<and> slab_page_phys (kmem s) a = 0 \<and> slab_free_list (kmem s) a = 0)"

lemma spent_slabs_cong:
  assumes "spent_slabs as s" "slabs (slab t) = slabs (slab s)"
    and "\<And>a x. a \<in> set as \<Longrightarrow> x \<in> region a 4096 \<Longrightarrow> kmem t x = kmem s x"
  shows "spent_slabs as t"
proof -
  have "slab_page_phys (kmem t) a = slab_page_phys (kmem s) a \<and>
      slab_free_list (kmem t) a = slab_free_list (kmem s) a \<and>
      slab_next (kmem t) a = slab_next (kmem s) a" if "a \<in> set as" for a
    using header_in_page [of a "kmem t" "kmem s"] that assms by (auto simp: spent_slabs_def)
  note same = this
  have "chain (slab_next (kmem t)) (slabs (slab s)) as \<longleftrightarrow>
      chain (slab_next (kmem s)) (slabs (slab s)) as"
    using same by (intro chain_cong) simp
  with same assms(1,2) show ?thesis by (simp add: spent_slabs_def)
qed

text \<open>The size \<^verbatim>\<open>kmalloc\<close> zeroes.\<close>

lemma kmalloc_size:
  fixes sz :: u64
  assumes "unat sz \<le> 4096"
  defines "sz2 \<equiv> ((if sz < SLAB_OBJ_SIZE then SLAB_OBJ_SIZE else sz) + 7) AND NOT 7"
  shows "unat sz \<le> unat sz2" "64 \<le> unat sz2" "unat sz2 \<le> 4096"
    "if unat sz \<le> 80 then unat sz2 \<le> 80 else 88 \<le> unat sz2"
proof -
  define r where "r = (if sz < 64 then 64 else sz)"
  have r: "unat r = max 64 (unat sz)" by (simp add: r_def word_less_nat_alt)
  have e: "sz2 = align_up 8 r" by (simp add: sz2_def align_up_def r_def)
  have "unat r + 2 ^ 3 \<le> 2 ^ 64" using r assms(1) by simp
  note b = align_up_bounds [of 8 3 r, OF _ _ this]
  obtain k where k: "unat sz2 = 8 * k" using b(3) by (auto simp: e)
  have "unat r \<le> 8 * k" "8 * k < unat r + 8" using b(1,2) k by (simp_all add: e)
  with r assms(1) show "unat sz \<le> unat sz2" "64 \<le> unat sz2" "unat sz2 \<le> 4096"
    "if unat sz \<le> 80 then unat sz2 \<le> 80 else 88 \<le> unat sz2"
    unfolding k by (auto split: if_splits)
qed

text \<open>Zeroing \<open>n\<close> bytes from the start of a page that carries a slab header.\<close>

lemma memset_header:
  assumes p: "page_ok p" and n: "unat n \<le> 4096"
  shows "unat k + 8 \<le> unat n \<Longrightarrow> load64 (memset m p 0 n) (p + k) = 0"
    "unat n \<le> unat k \<Longrightarrow> unat k + 8 \<le> 4096 \<Longrightarrow>
       load64 (memset m p 0 n) (p + k) = load64 m (p + k)"
proof -
  have i: "x - p < n \<longleftrightarrow> unat p \<le> unat x \<and> unat x < unat p + unat n" for x
    using region_interval [of p n x] page_end [OF p] n by simp
  { assume "unat k + 8 \<le> unat n"
    with page_region [OF p, of k 8] n show "load64 (memset m p 0 n) (p + k) = 0"
      by (intro load64_zero) (auto simp: memset_apply i simp del: in_region) }
  { assume "unat n \<le> unat k" "unat k + 8 \<le> 4096"
    with page_region [OF p, of k 8] show "load64 (memset m p 0 n) (p + k) = load64 m (p + k)"
      by (intro load64_cong) (auto simp: memset_apply i simp del: in_region) }
qed

lemma memset_outside_page:
  "page_ok p \<Longrightarrow> unat n \<le> 4096 \<Longrightarrow> x \<notin> region p 4096 \<Longrightarrow> memset m p c n x = m x"
  using word_le_nat_alt [of n 4096] by (auto simp: memset_apply)

text \<open>
  What the next allocation of a page must find for the heap: a page of its own, apart from
  the slabs and the bitmap.
\<close>

definition fresh_page :: "u64 list \<Rightarrow> 'a mm_state_scheme \<Rightarrow> bool" where
  "fresh_page as s \<longleftrightarrow> one_page s \<and> page_ok (next_page s) \<and> next_page s \<notin> set as \<and>
     (\<forall>a\<in>set as. region a 4096 \<inter> bitmap_region (buddy s) = {})"

lemma kmalloc_new_page:
  assumes sp: "spent_slabs as s" and fr: "fresh_page as s" and sz: "0 < sz" "unat sz \<le> 4096"
  defines "p \<equiv> next_page s"
  shows "\<exists>s'. kmalloc sz s = Some (p, s') \<and>
    spent_slabs (if unat sz \<le> 80 then p # as else [p]) s' \<and>
    (\<forall>x. x - p < sz \<longrightarrow> kmem s' x = 0) \<and>
    (\<forall>x. x \<notin> region p 4096 \<longrightarrow> x \<notin> bitmap_region (buddy s) \<longrightarrow> kmem s' x = kmem s x) \<and>
    free_lists (buddy s') = (free_lists (buddy s))[0 := p]"
proof -
  define s1 where "s1 = snd (alloc_pages 0 s)"
  define n where "n = ((if sz < SLAB_OBJ_SIZE then SLAB_OBJ_SIZE else sz) + 7) AND NOT 7"
  define s' where "s' = kmemset p 0 n (snd (slab_new p s1))"
  have p: "page_ok p" "p \<notin> set as" and one: "one_page s"
    and bm: "\<forall>a\<in>set as. region a 4096 \<inter> bitmap_region (buddy s) = {}"
    using fr by (auto simp: fresh_page_def p_def)
  have al: "alloc_pages 0 s = (Some p, s1)" using alloc_page [OF one] by (simp add: s1_def p_def)
  have sl: "slab s1 = slab s" by (simp add: s1_def)
  note n = kmalloc_size [OF sz(2), folded n_def]
  have "slab_alloc s = Some (slab_new p s1)"
    using sp al slab_with_free_chain [of "kmem s" "slabs (slab s)" as]
    by (simp add: slab_alloc_def first_such_none spent_slabs_def)
  then have "slab_alloc s = Some (p, snd (slab_new p s1))" by (simp add: prod_eq_iff)
  then have k: "kmalloc sz s = Some (p, s')"
    using sz(1) p(1) by (simp add: kmalloc_def Let_def s'_def n_def page_ok_def)
  have out: "kmem s' x = kmem s x" if "x \<notin> region p 4096" "x \<notin> bitmap_region (buddy s)" for x
    using that memset_outside_page [OF p(1) n(3), of x] slab_new_outside [OF p(1), of x s1]
      alloc_page_outside [OF one, of x]
    by (simp add: s'_def s1_def)
  note hd = memset_header [OF p(1) n(3)]
  have zero: "slab_page_phys (kmem s') p = 0" "slab_free_list (kmem s') p = 0"
    using hd(1) [of 0] hd(1) [of 8] n(2)
    by (simp_all add: s'_def slab_page_phys_def slab_free_list_def)
  have nx: "slab_next (kmem s') p = (if unat sz \<le> 80 then slabs (slab s) else 0)"
    using hd(1) [of 80] hd(2) [of 80] n(4) slab_new_header(3) [OF p(1), of s1] sl
    by (simp add: s'_def slab_next_def split: if_splits)
  have disj: "region a 4096 \<inter> region p 4096 = {}" if "a \<in> set as" for a
    using that sp p by (intro pages_disjoint) (auto simp: spent_slabs_def)
  have "spent_slabs as (s'\<lparr>slab := slab s\<rparr>)"
    using out disj bm by (intro spent_slabs_cong [OF sp]) (simp, force simp del: in_region)
  moreover have "slabs (slab s') = p" by (simp add: s'_def)
  ultimately have "spent_slabs (if unat sz \<le> 80 then p # as else [p]) s'"
    using zero nx p(1) by (auto simp: spent_slabs_def page_ok_def)
  moreover have "kmem s' x = 0" if "x - p < sz" for x
    using that n(1) by (simp add: s'_def memset_apply word_less_nat_alt)
  moreover have "free_lists (buddy s') = (free_lists (buddy s))[0 := p]"
    using alloc_page [OF one] by (simp add: s'_def s1_def p_def)
  ultimately show ?thesis using k out by blast
qed


text \<open>
  C30: one \<^verbatim>\<open>kmalloc\<close> of 1 to 4096 bytes on a heap whose slabs are all spent (for instance the
  empty heap), when the page allocator offers a page of its own: it takes that whole page for
  the request and returns its address, the requested bytes are zero, and the zeroing
  wipes the header of the new slab, so that its 63 other objects are lost and the heap is spent
  again. A request of more than 80 bytes also wipes the link to the other slabs.
\<close>

theorem kmalloc_takes_whole_page:
  assumes "spent_slabs as s" "fresh_page as s" "0 < sz" "unat sz \<le> 4096"
  shows "\<exists>s'. kmalloc sz s = Some (next_page s, s') \<and>
    spent_slabs (if unat sz \<le> 80 then next_page s # as else [next_page s]) s' \<and>
    (\<forall>x. x - next_page s < sz \<longrightarrow> kmem s' x = 0)"
  using kmalloc_new_page [OF assms] by blast

lemma mm_pool_spent: "spent_slabs [] mm_pool" "fresh_page [] mm_pool"
  using mm_pool_one_page by (simp_all add: spent_slabs_def slab_static_def fresh_page_def)

theorem kmalloc_takes_whole_page_witness:
  "\<exists>s'. kmalloc 32 mm_pool = Some (0x201000, s') \<and> spent_slabs [0x201000] s' \<and>
     (\<forall>x. x - 0x201000 < 32 \<longrightarrow> kmem s' x = 0)"
  using kmalloc_takes_whole_page [OF mm_pool_spent, of 32] by simp

text \<open>
  C18: on a heap of spent slabs, as \<^verbatim>\<open>kmalloc\<close> leaves it before the owners of the objects write
  over the slab headers, \<^verbatim>\<open>kfree\<close> of any address above the first page returns and changes nothing at
  all: no slab recognises the object, so neither the object nor its page becomes available again.
\<close>

theorem kfree_never_recycles:
  assumes "spent_slabs as s" "4096 \<le> unat ptr"
  shows "kfree ptr s = Some s"
proof -
  have "\<not> in_slab_page (kmem s) ptr a" if "a \<in> set as" for a
    using that assms by (auto simp: spent_slabs_def in_slab_page_def word_less_nat_alt)
  then have "slab_of (kmem s) ptr (slabs (slab s)) = Some 0"
    using assms(1) slab_of_chain [of "kmem s" "slabs (slab s)" as ptr]
    by (simp add: spent_slabs_def first_such_none)
  then show ?thesis by (simp add: kfree_def slab_free_def)
qed

theorem kfree_never_recycles_witness:
  "\<exists>s'. kmalloc 32 mm_pool = Some (0x201000, s') \<and> kfree 0x201000 s' = Some s'"
proof -
  obtain s' where "kmalloc 32 mm_pool = Some (0x201000, s')" "spent_slabs [0x201000] s'"
    using kmalloc_new_page [OF mm_pool_spent, of 32] by auto
  with kfree_never_recycles [of "[0x201000]" s' "0x201000"] show ?thesis by simp
qed

text \<open>
  the header of a slab lies inside the object \<^verbatim>\<open>kmalloc\<close> hands out, so its owner
  overwrites it: once the owner of a fresh object has stored the non-zero word \<open>v\<close> at
  offset 8, the next \<^verbatim>\<open>kmalloc\<close> of any size returns \<open>v\<close>.
\<close>

theorem kmalloc_returns_object_contents:
  assumes "spent_slabs as s" "fresh_page as s" "0 < sz" "unat sz \<le> 4096" "0 < sz'" "v \<noteq> 0"
  shows "\<exists>p s'. kmalloc sz s = Some (p, s') \<and>
    (\<exists>s''. kmalloc sz' (poke64 (p + 8) v s') = Some (v, s''))"
proof -
  let ?p = "next_page s"
  obtain s' where k: "kmalloc sz s = Some (?p, s')"
    and sp: "spent_slabs (if unat sz \<le> 80 then ?p # as else [?p]) s'"
    using kmalloc_new_page [OF assms(1-4)] by blast
  from sp have hd: "slabs (slab s') = ?p" "?p \<noteq> 0" by (auto simp: spent_slabs_def split: if_splits)
  have fl: "slab_free_list (kmem (poke64 (?p + 8) v s')) ?p = v" by (simp add: slab_free_list_def)
  have "slab_with_free (kmem (poke64 (?p + 8) v s')) ?p = Some ?p"
    using hd(2) fl assms(6) by (subst slab_with_free.simps) simp
  then have "slab_alloc (poke64 (?p + 8) v s') = Some (slab_take ?p (poke64 (?p + 8) v s'))"
    using hd by (simp add: slab_alloc_def)
  then obtain t where "slab_alloc (poke64 (?p + 8) v s') = Some (v, t)"
    using fl by (simp add: slab_take_def Let_def)
  then have "\<exists>s''. kmalloc sz' (poke64 (?p + 8) v s') = Some (v, s'')"
    using assms(5,6) by (auto simp: kmalloc_def Let_def)
  with k show ?thesis by blast
qed

theorem kmalloc_returns_object_contents_witness:
  "\<exists>p s'. kmalloc 64 mm_pool = Some (p, s') \<and>
     (\<exists>s''. kmalloc 16 (poke64 (p + 8) 0xBAD s') = Some (0xBAD, s''))"
  using kmalloc_returns_object_contents [OF mm_pool_spent, of 64 16 "0xBAD"] by simp

lemma load64_shift:
  assumes "\<And>i. i < 8 \<Longrightarrow> m (p + i) = m' (q + i)"
  shows "load64 m p = load64 m' q"
  unfolding load64_def using assms [of 0] assms [of 1] assms [of 2] assms [of 3] assms [of 4]
    assms [of 5] assms [of 6] assms [of 7] by simp

lemma region_mono: "n \<le> k \<Longrightarrow> region p n \<subseteq> region p k"
  by auto

text \<open>Copying a few bytes of another page over the header of one of the slabs.\<close>

lemma kmemcpy_slabs:
  assumes sp: "spent_slabs L s" "p \<in> set L" and n: "8 \<le> n" "n \<le> 64"
    and dj: "region p 4096 \<inter> region ptr 4096 = {}"
  defines "s2 \<equiv> kmemcpy p ptr n s"
  shows "kmem s2 x = (if x - p < n then kmem s (ptr + (x - p)) else kmem s x)"
    "chain (slab_next (kmem s2)) (slabs (slab s)) L"
    "a \<in> set L \<Longrightarrow> slab_page_phys (kmem s2) a = (if a = p then peek64 s ptr else 0)"
proof -
  have p: "page_ok p" using sp by (simp add: spent_slabs_def)
  have n': "n \<le> 4096" using n(2) by (rule order_trans) simp
  have "region p n \<inter> region ptr n = {}"
    using region_mono [OF n', of p] region_mono [OF n', of ptr] dj by blast
  from copy_up_apply [OF safe_up_disjoint [OF this]]
  show cp: "kmem s2 x = (if x - p < n then kmem s (ptr + (x - p)) else kmem s x)" for x
    by (simp add: s2_def kmemcpy_def memcpy_def)
  have "load64 (kmem s2) (p + 80) = load64 (kmem s) (p + 80)"
  proof (rule load64_cong)
    fix x assume "x \<in> region (p + 80) 8"
    then have "\<not> x - p < n"
      using page_region [OF p, of 80 8 x] n(2) region_interval [of p n x] page_end [OF p]
      by (auto simp: word_le_nat_alt)
    then show "kmem s2 x = kmem s x" by (simp add: cp)
  qed
  moreover have "load64 (kmem s2) p = peek64 s ptr"
    using n(1) by (intro load64_shift) (auto simp: cp)
  moreover have "slab_next (kmem s2) a = slab_next (kmem s) a \<and>
      slab_page_phys (kmem s2) a = slab_page_phys (kmem s) a" if a: "a \<in> set L" "a \<noteq> p" for a
  proof -
    have ok: "page_ok a" using a sp by (simp add: spent_slabs_def)
    have "x \<notin> region p n" if "x \<in> region a 4096" for x
      using region_mono [OF n', of p] pages_disjoint [OF ok p a(2)] that by blast
    then have "kmem s2 x = kmem s x" if "x \<in> region a 4096" for x using that by (simp add: cp)
    then show ?thesis using header_in_page [OF ok, of "kmem s2" "kmem s"] by auto
  qed
  ultimately have hd: "slab_next (kmem s2) a = slab_next (kmem s) a \<and>
      slab_page_phys (kmem s2) a = (if a = p then peek64 s ptr else 0)" if "a \<in> set L" for a
    using that sp by (cases "a = p") (auto simp: slab_next_def slab_page_phys_def spent_slabs_def)
  then show "a \<in> set L \<Longrightarrow> slab_page_phys (kmem s2) a = (if a = p then peek64 s ptr else 0)" by blast
  have "chain (slab_next (kmem s2)) (slabs (slab s)) L \<longleftrightarrow> chain (slab_next (kmem s)) (slabs (slab s)) L"
    using hd by (intro chain_cong) simp
  with sp show "chain (slab_next (kmem s2)) (slabs (slab s)) L" by (simp add: spent_slabs_def)
qed

lemma no_slab_claims:
  assumes "chain (slab_next m) q L" "page_ok ptr"
    "\<And>a. a \<in> set L \<Longrightarrow> slab_page_phys m a = 0 \<or> slab_page_phys m a = w"
    "\<not> (w \<le> ptr \<and> ptr < w + 4096)"
  shows "slab_of m ptr q = Some 0"
proof -
  have "4096 \<le> unat ptr" using assms(2) unat_gt_0 [of ptr]
    by (auto simp: page_ok_def dest!: dvd_imp_le)
  then have "\<not> ptr < 4096" by (simp add: word_less_nat_alt)
  then have "\<not> in_slab_page m ptr a" if "a \<in> set L" for a
    using assms(3) [OF that] assms(4) by (auto simp: in_slab_page_def)
  then show ?thesis using slab_of_chain [OF assms(1), of ptr] by (simp add: first_such_none)
qed

text \<open>
  \<^verbatim>\<open>krealloc\<close> of the object \<open>ptr\<close> on a heap with no free object moves it to a page
  that starts with the first \<open>min new_size 64\<close> bytes of the old one and is zero from there
  up to the new size, so data beyond the first 64 bytes does not survive. The first word of
  the object, which the copy puts where the new slab keeps its page address, must not be an
  address of the old object's page.
\<close>

theorem krealloc_copies_one_object:
  assumes sp: "spent_slabs as s" "fresh_page as s" and sz: "8 \<le> sz" "sz \<le> 4096"
    and ptr: "page_ok ptr" "ptr \<noteq> next_page s" "region ptr 4096 \<inter> bitmap_region (buddy s) = {}"
    and w: "\<not> (peek64 s ptr \<le> ptr \<and> ptr < peek64 s ptr + 4096)"
  shows "\<exists>s'. krealloc ptr sz s = Some (next_page s, s') \<and>
    (\<forall>x. x - next_page s < sz \<longrightarrow>
       kmem s' x = (if x - next_page s < 64 then kmem s (ptr + (x - next_page s)) else 0))"
proof -
  define n where "n = (if sz < 64 then sz else 64)"
  define p where "p = next_page s"
  define L where "L = (if unat sz \<le> 80 then p # as else [p])"
  have n: "8 \<le> n" "n \<le> 64" using sz by (auto simp: n_def)
  have "0 < sz" "unat sz \<le> 4096"
    using sz by (auto simp: word_less_nat_alt word_le_nat_alt)
  then obtain s1 where k: "kmalloc sz s = Some (p, s1)" and sp1: "spent_slabs L s1"
    and z: "\<forall>x. x - p < sz \<longrightarrow> kmem s1 x = 0"
    and out: "\<forall>x. x \<notin> region p 4096 \<longrightarrow> x \<notin> bitmap_region (buddy s) \<longrightarrow> kmem s1 x = kmem s x"
    using kmalloc_new_page [OF sp, of sz] unfolding p_def L_def by blast
  have p: "page_ok p" "p \<noteq> 0" "p \<in> set L" using sp(2) by (auto simp: fresh_page_def page_ok_def p_def L_def)
  have dj: "region p 4096 \<inter> region ptr 4096 = {}"
    using pages_disjoint [OF p(1) ptr(1)] ptr(2) by (simp add: p_def)
  then have old: "kmem s1 x = kmem s x" if "x \<in> region ptr 4096" for x
    using that out ptr(3) by blast
  then have w1: "peek64 s1 ptr = peek64 s ptr" using load64_in_page [OF ptr(1), of 0 "kmem s1" "kmem s"] by simp
  note cp = kmemcpy_slabs [OF sp1 p(3) n dj, unfolded w1]
  have "slab_of (kmem s1) ptr (slabs (slab s1)) = Some 0"
    using sp1 w by (intro no_slab_claims [of _ _ L _ "peek64 s ptr"] ptr) (auto simp: spent_slabs_def)
  moreover have "slab_of (kmem (kmemcpy p ptr n s1)) ptr (slabs (slab s1)) = Some 0"
    using cp(3) by (intro no_slab_claims [OF cp(2) ptr(1) _ w]) auto
  ultimately have "krealloc ptr sz s = Some (p, kmemcpy p ptr n s1)"
    using k p(2) ptr(1) sz(1)
    by (auto simp: krealloc_def kfree_def slab_free_def page_ok_def n_def kmemcpy_def)
  moreover have "kmem (kmemcpy p ptr n s1) x = (if x - p < 64 then kmem s (ptr + (x - p)) else 0)"
    if x: "x - p < sz" for x
  proof (cases "x - p < 64")
    case True
    then have "x - p < n" "x - p < 4096" using x by (auto simp: n_def intro: order.strict_trans)
    with cp(1) [of x] old [of "ptr + (x - p)"] True show ?thesis by simp
  next
    case False
    then have "\<not> x - p < n" using n(2) by auto
    with cp(1) [of x] z x False show ?thesis by simp
  qed
  ultimately show ?thesis unfolding p_def by blast
qed

theorem krealloc_copies_one_object_witness:
  "\<exists>s'. krealloc 0x200000 100 mm_pool = Some (0x201000, s') \<and>
     kmem s' 0x201001 = kmem mm_pool 0x200001 \<and> kmem s' 0x201050 = 0"
proof -
  have "region 0x200000 4096 \<inter> bitmap_region (buddy mm_pool) = {}"
    using region_interval [of "0x200000" 4096]
    by (auto simp: bitmap_region_def simp del: in_region)
  with krealloc_copies_one_object [OF mm_pool_spent, of 100 "0x200000"]
  obtain s' where r: "krealloc 0x200000 100 mm_pool = Some (0x201000, s')"
    and c: "\<forall>x. x - 0x201000 < 100 \<longrightarrow> kmem s' x =
      (if x - 0x201000 < 64 then kmem mm_pool (0x200000 + (x - 0x201000)) else 0)"
    by (auto simp: page_ok_def)
  show ?thesis using r c [rule_format, of "0x201001"] c [rule_format, of "0x201050"] by simp
qed

end
