(* ===== verification/Mm_Init.thy ===== *)
theory Mm_Init
  imports Mm_Spec
begin

text \<open>
  The pool \<^verbatim>\<open>mm_init\<close> sets up, what the first allocations from it return, and the orders
  that \<^verbatim>\<open>phys_alloc\<close> and \<^verbatim>\<open>stack_alloc\<close> ask the page allocator for.
\<close>

section \<open>Initialisation of the pool\<close>

lemma link_pool_eq:
  assumes "0 < unat n"
  shows "link_pool start n m = store64
    (for_loop 0 (unat n - 1) (\<lambda>i m. store64 m (start + 8 * of_nat i)
       (start + (of_nat i + 1) * 4096)) m)
    (start + 8 * of_nat (unat n - 1)) 0"
proof -
  have "unat (n - 1) = unat n - 1"
    using assms by (subst unat_minus64) (auto simp: word_le_nat_alt)
  moreover from this have "n - 1 = of_nat (unat n - 1)" by (metis of_nat_unat ucast_id)
  ultimately show ?thesis unfolding link_pool_def page_size_val by metis
qed

lemma link_pool_next:
  assumes "unat start + 8 * unat n \<le> 2 ^ 64" "8 * unat n < 2 ^ 64" "Suc i < unat n"
  shows "load64 (link_pool start n m) (start + 8 * of_nat i) = start + (of_nat i + 1) * 4096"
proof -
  have "load64 (for_loop 0 (unat n - 1) (\<lambda>i m. store64 m (start + 8 * of_nat i)
      (start + (of_nat i + 1) * 4096)) m) (start + 8 * of_nat i) = start + (of_nat i + 1) * 4096"
    using assms by (intro store_loop_inside [where f = "\<lambda>i. start + 8 * of_nat i" and
          g = "\<lambda>i. start + (of_nat i + 1) * 4096"] word_regions_disjoint [OF assms(1)]) auto
  moreover have "region (start + 8 * of_nat (unat n - 1)) 8 \<inter> region (start + 8 * of_nat i) 8 = {}"
    using assms by (intro word_regions_disjoint [OF assms(1)]) auto
  moreover have "0 < unat n" using assms(3) by simp
  ultimately show ?thesis by (simp only: link_pool_eq load64_store64_disjoint)
qed

lemma link_pool_outside:
  assumes "unat start + 8 * unat n \<le> 2 ^ 64" "8 * unat n < 2 ^ 64" "0 < unat n"
    "\<not> (unat start \<le> unat x \<and> unat x < unat start + 8 * unat n)"
  shows "link_pool start n m x = m x"
proof -
  have o: "x \<notin> region (start + 8 * of_nat i) 8" if "i < unat n" for i
    unfolding word_region [OF assms(1) that assms(2)] using that assms(4) by linarith
  have "\<not> x - (start + 8 * of_nat (unat n - 1)) < 8" using o [of "unat n - 1"] assms(3) by simp
  note out = store64_outside [OF this]
  show ?thesis unfolding link_pool_eq [OF assms(3)] out
    using o by (intro store_loop_byte) simp
qed

text \<open>
  Where the linker puts things: the bitmap of \<^verbatim>\<open>mm_init\<close> is an aligned array below the end
  of the kernel image, and the pool of 64 megabytes fits above it.
\<close>

definition image_ok :: "u64 \<Rightarrow> u64 \<Rightarrow> bool" where
  "image_ok kernel_end static_bitmap \<longleftrightarrow> aligned8 static_bitmap \<and> static_bitmap \<noteq> 0 \<and>
     unat static_bitmap + 8192 \<le> unat kernel_end \<and> unat kernel_end + 2 ^ 21 + 2 ^ 26 \<le> 2 ^ 64"

abbreviation pool_base :: "u64 \<Rightarrow> u64" where
  "pool_base kernel_end \<equiv> align_up (2 * 1024 * 1024) kernel_end"

lemma pool_base_bounds:
  assumes "image_ok ke sb"
  shows "unat ke \<le> unat (pool_base ke)" "unat (pool_base ke) + 2 ^ 26 \<le> 2 ^ 64"
    "2 ^ 21 dvd unat (pool_base ke)" "unat (pool_base ke) < unat ke + 2 ^ 21"
proof -
  have "unat ke + 2 ^ 21 \<le> 2 ^ 64" using assms by (simp add: image_ok_def)
  note b = align_up_bounds [of "2 * 1024 * 1024" 21 ke, OF _ _ this]
  show "unat ke \<le> unat (pool_base ke)" "2 ^ 21 dvd unat (pool_base ke)"
    "unat (pool_base ke) < unat ke + 2 ^ 21" using b by simp_all
  show "unat (pool_base ke) + 2 ^ 26 \<le> 2 ^ 64" using b(2) assms by (simp add: image_ok_def)
qed

lemma mm_init_buddy:
  "buddy (mm_init ke sb s) = (buddy s)\<lparr>bitmap := sb, bitmap_words := 1024,
     pool_start := pool_base ke, pool_pages := 16384, free_count := 16384,
     free_lists := (free_lists (buddy s))[0 := pool_base ke], initialized := True\<rparr>"
  by (simp add: mm_init_def Let_def)

lemma mm_init_mem:
  "kmem (mm_init ke sb s) = link_pool (pool_base ke) 16384 (memset (kmem s) sb 0 8192)"
  by (simp add: mm_init_def Let_def)


lemma mm_init_wf:
  assumes "image_ok ke sb" "length (free_lists (buddy s)) = MAX_ORDER_BITS"
  shows "buddy_wf (buddy (mm_init ke sb s))"
  using assms by (simp add: mm_init_buddy buddy_wf_def image_ok_def)

lemma mm_init_facts:
  assumes im: "image_ok ke sb" and len: "length (free_lists (buddy s)) = MAX_ORDER_BITS"
  defines "s' \<equiv> mm_init ke sb s"
  shows "unat ke \<le> unat (pool_start (buddy s'))" "unat (pool_start (buddy s')) < unat ke + 2 ^ 21"
    "2 ^ 21 dvd unat (pool_start (buddy s'))"
    "initialized (buddy s')" "buddy_total_pages s' = 16384" "buddy_free_pages s' = 16384"
    "\<forall>q<16384. \<not> buddy_is_allocated q s'"
    "\<forall>x. unat x < unat (pool_start (buddy s')) \<longrightarrow> x \<notin> region sb 8192 \<longrightarrow> kmem s' x = kmem s x"
proof -
  note b = pool_base_bounds [OF im]
  have out: "kmem s' x = memset (kmem s) sb 0 8192 x" if "unat x < unat (pool_base ke)" for x
    unfolding s'_def mm_init_mem using that b(2) by (intro link_pool_outside) simp_all
  show "\<forall>x. unat x < unat (pool_start (buddy s')) \<longrightarrow> x \<notin> region sb 8192 \<longrightarrow> kmem s' x = kmem s x"
    using out by (simp add: memset_apply s'_def mm_init_buddy)
  show "unat ke \<le> unat (pool_start (buddy s'))" "unat (pool_start (buddy s')) < unat ke + 2 ^ 21"
    "2 ^ 21 dvd unat (pool_start (buddy s'))"
    "initialized (buddy s')" "buddy_total_pages s' = 16384" "buddy_free_pages s' = 16384"
    using b by (simp_all add: s'_def mm_init_buddy buddy_total_pages_def buddy_free_pages_def)
  show "\<forall>q<16384. \<not> buddy_is_allocated q s'"
  proof (intro allI impI)
    fix q :: u64 assume "q < 16384"
    then have w: "unat (q div 64) < 256" by (simp add: word_less_nat_alt unat_div_distrib)
    have sb: "unat sb + 8192 \<le> unat ke" using im by (simp add: image_ok_def)
    have lt: "unat ke < 2 ^ 64" by simp
    have o: "unat (8 * (q div 64)) = 8 * unat (q div 64)" using w by (subst unat_mult64) simp_all
    then have a: "unat (sb + 8 * (q div 64)) = unat sb + 8 * unat (q div 64)"
      using w sb lt by (subst unat_plus64) linarith+
    have "peek64 s' (sb + 8 * (q div 64)) = 0"
    proof (rule load64_zero)
      fix x assume "x \<in> region (sb + 8 * (q div 64)) 8"
      then have "unat sb \<le> unat x" "unat x < unat sb + 8192"
        using region_interval [of "sb + 8 * (q div 64)" 8 x] a w sb lt
        by (auto simp del: in_region unat_less_2p64)
      moreover from this have "x \<in> region sb 8192"
        using region_interval [of sb 8192 x] sb lt by (simp del: unat_less_2p64)
      ultimately show "kmem s' x = 0" using out [of x] sb b(1) by (simp add: memset_apply)
    qed
    then show "\<not> buddy_is_allocated q s'"
      using w by (simp add: buddy_is_allocated_def Let_def s'_def mm_init_buddy word_le_nat_alt)
  qed
qed


text \<open>
  C28: \<^verbatim>\<open>mm_init\<close> sets up a pool of 16384 pages that starts at the first 2 MiB boundary
  at or above the end of the kernel image (the multiple of 2 MiB in the 2 MiB from there), with
  every page marked free and the free count equal to the number of pages. Of the memory below
  the pool it changes the bitmap only, besides the variables of the allocator itself, which are
  the fields of the record \<open>buddy\<close>.
\<close>

theorem mm_init_pool:
  assumes im: "image_ok ke sb" and len: "length (free_lists (buddy s)) = MAX_ORDER_BITS"
  defines "s' \<equiv> mm_init ke sb s"
  shows "unat ke \<le> unat (pool_start (buddy s')) \<and> unat (pool_start (buddy s')) < unat ke + 2 ^ 21 \<and>
    2 ^ 21 dvd unat (pool_start (buddy s')) \<and>
    initialized (buddy s') \<and> buddy_total_pages s' = 16384 \<and> buddy_free_pages s' = 16384 \<and>
    (\<forall>q<16384. \<not> buddy_is_allocated q s') \<and>
    (\<forall>x. unat x < unat (pool_start (buddy s')) \<longrightarrow> x \<notin> region sb 8192 \<longrightarrow> kmem s' x = kmem s x)"
  unfolding s'_def by (intro conjI mm_init_facts [OF im len])

definition boot_state :: mm_state where
  "boot_state = \<lparr>kmem = \<lambda>_. 0xA5, klog = [], buddy = buddy_static, slab = slab_static\<rparr>"

lemma boot_ok:
  "image_ok 0x150000 0x100000" "length (free_lists (buddy boot_state)) = MAX_ORDER_BITS"
  by (simp_all add: image_ok_def boot_state_def buddy_static_def aligned8_def)

theorem mm_init_pool_witness:
  "buddy_free_pages (mm_init 0x150000 0x100000 boot_state) = 16384 \<and>
   \<not> buddy_is_allocated 77 (mm_init 0x150000 0x100000 boot_state)"
  using mm_init_pool [OF boot_ok] by simp

text \<open>The state after one page has been taken, as far as the next allocation looks at it.\<close>

lemma one_page_after:
  assumes "one_page s" "next_page s \<noteq> 0"
    "region (next_page s) 8 \<inter> bitmap_region (buddy s) = {}"
  shows "one_page (snd (alloc_pages 0 s))"
    "next_page (snd (alloc_pages 0 s)) = peek64 s (next_page s)"
    "bitmap_region (buddy (snd (alloc_pages 0 s))) = bitmap_region (buddy s)"
proof -
  have "0 < length (free_lists (buddy s))"
    using assms(1) by (simp add: one_page_def buddy_wf_def MAX_ORDER_BITS_def)
  note nth = nth_list_update_eq [OF this]
  have "load64 (kmem (snd (alloc_pages 0 s))) (next_page s) = peek64 s (next_page s)"
    using assms(1,3) by (intro load64_cong alloc_page_outside) auto
  with nth show "next_page (snd (alloc_pages 0 s)) = peek64 s (next_page s)"
    using alloc_page [OF assms(1)] by simp
  show "one_page (snd (alloc_pages 0 s))"
    "bitmap_region (buddy (snd (alloc_pages 0 s))) = bitmap_region (buddy s)"
    using nth assms(1,2) alloc_page [OF assms(1)]
    by (simp_all add: one_page_def buddy_wf_def bitmap_region_def)
qed

lemma pool_clear:
  assumes im: "image_ok ke sb" and k: "unat k + 8 \<le> 2 ^ 26"
    and b: "bitmap b = sb" "bitmap_words b = 1024"
  shows "unat (pool_base ke + k) = unat (pool_base ke) + unat k"
    "region (pool_base ke + k) 8 \<inter> bitmap_region b = {}" "pool_base ke + k \<noteq> 0"
proof -
  note pb = pool_base_bounds [OF im]
  show u: "unat (pool_base ke + k) = unat (pool_base ke) + unat k"
    using pb(2) k by (subst unat_plus64) simp_all
  have r: "x \<in> region (pool_base ke + k) 8 \<longleftrightarrow>
      unat (pool_base ke) + unat k \<le> unat x \<and> unat x < unat (pool_base ke) + unat k + 8" for x
    using region_interval [of "pool_base ke + k" 8 x] u pb(2) k by simp
  have sb: "unat sb + 8192 \<le> unat ke" using im by (simp add: image_ok_def)
  then show "region (pool_base ke + k) 8 \<inter> bitmap_region b = {}"
    using pb(1) r u by (auto simp: bitmap_region_def b simp del: in_region)
  have "unat (pool_base ke + k) \<noteq> 0" using u pb(1) sb by simp
  then show "pool_base ke + k \<noteq> 0" by auto
qed

text \<open>The links the initialisation leaves, and the memory it leaves alone.\<close>

lemma mm_init_links:
  assumes im: "image_ok ke sb"
  shows "i < 16383 \<Longrightarrow>
      peek64 (mm_init ke sb s) (pool_base ke + 8 * of_nat i) = pool_base ke + (of_nat i + 1) * 4096"
    "0x20000 \<le> unat k \<Longrightarrow> unat k + 8 \<le> 2 ^ 26 \<Longrightarrow>
      peek64 (mm_init ke sb s) (pool_base ke + k) = peek64 s (pool_base ke + k)"
proof -
  note pb = pool_base_bounds [OF im]
  show "peek64 (mm_init ke sb s) (pool_base ke + 8 * of_nat i) = pool_base ke + (of_nat i + 1) * 4096"
    if "i < 16383"
    unfolding mm_init_mem using that pb(2) by (intro link_pool_next) simp_all
  assume k: "0x20000 \<le> unat k" "unat k + 8 \<le> 2 ^ 26"
  show "peek64 (mm_init ke sb s) (pool_base ke + k) = peek64 s (pool_base ke + k)"
  proof (rule load64_cong)
    fix x assume "x \<in> region (pool_base ke + k) 8"
    moreover have "unat (pool_base ke + k) = unat (pool_base ke) + unat k"
      using pb(2) k by (subst unat_plus64) simp_all
    ultimately have x: "unat (pool_base ke) + 0x20000 \<le> unat x"
      using region_interval [of "pool_base ke + k" 8 x] pb(2) k by simp
    then have "x \<notin> region sb 8192"
      using im pb(1) region_interval [of sb 8192 x] by (auto simp: image_ok_def simp del: in_region)
    then show "kmem (mm_init ke sb s) x = kmem s x"
      unfolding mm_init_mem using x pb(2) by (subst link_pool_outside) (simp_all add: memset_apply)
  qed
qed

text \<open>
  C29: after \<^verbatim>\<open>mm_init\<close> the first two single pages handed out are the second page of the
  pool and its page 513, and the third is whatever word the memory held at the start of
  page 513 before the initialisation: the initialisation links its list through consecutive
  eight-byte cells and not through the pages.
\<close>

theorem mm_init_first_allocs:
  assumes im: "image_ok ke sb" and len: "length (free_lists (buddy s)) = MAX_ORDER_BITS"
  shows "\<exists>s1 s2 s3. page_alloc (mm_init ke sb s) = (Some (pool_base ke + 0x1000), s1) \<and>
    page_alloc s1 = (Some (pool_base ke + 0x201000), s2) \<and>
    page_alloc s2 = (Some (peek64 s (pool_base ke + 0x201000)), s3)"
proof -
  let ?b = "pool_base ke" and ?s0 = "mm_init ke sb s"
  let ?s1 = "snd (alloc_pages 0 ?s0)"
  let ?s2 = "snd (alloc_pages 0 ?s1)"
  have fl: "free_lists (buddy ?s0) ! 0 = ?b" using len by (simp add: mm_init_buddy MAX_ORDER_BITS_def)
  have "bitmap (buddy ?s0) = sb" "bitmap_words (buddy ?s0) = 1024" by (simp_all add: mm_init_buddy)
  note clear = pool_clear(2,3) [OF im _ this]
  have c1: "region (?b + 0x1000) 8 \<inter> bitmap_region (buddy ?s0) = {}" "?b + 0x1000 \<noteq> 0"
    and c2: "region (?b + 0x201000) 8 \<inter> bitmap_region (buddy ?s0) = {}" "?b + 0x201000 \<noteq> 0"
    using clear [of "0x1000"] clear [of "0x201000"] by simp_all
  have one: "one_page ?s0"
    using mm_init_wf [OF im len] fl clear(2) [of 0] by (simp add: one_page_def mm_init_buddy)
  have n0: "next_page ?s0 = ?b + 0x1000" using mm_init_links(1) [OF im, of 0 s] fl by simp
  note a1 = one_page_after [OF one, unfolded n0, OF c1(2,1)]
  have n1: "next_page ?s1 = ?b + 0x201000" using a1(2) mm_init_links(1) [OF im, of 512 s] by simp
  have "peek64 ?s1 (?b + 0x201000) = peek64 ?s0 (?b + 0x201000)"
    using c2(1) by (intro load64_cong alloc_page_outside one) auto
  also have "\<dots> = peek64 s (?b + 0x201000)" by (intro mm_init_links(2) [OF im]) simp_all
  finally have n2: "peek64 ?s1 (?b + 0x201000) = peek64 s (?b + 0x201000)" .
  note a2 = one_page_after [OF a1(1), unfolded n1 a1(3), OF c2(2,1)]
  have "alloc_pages 0 ?s0 = (Some (?b + 0x1000), ?s1)" using alloc_page [OF one] n0 by simp
  moreover have "alloc_pages 0 ?s1 = (Some (?b + 0x201000), ?s2)" using alloc_page [OF a1(1)] n1 by simp
  moreover have "alloc_pages 0 ?s2 = (Some (peek64 s (?b + 0x201000)), snd (alloc_pages 0 ?s2))"
    using alloc_page [OF a2(1)] a2(2) n2 by simp
  ultimately show ?thesis unfolding page_alloc_def by blast
qed

theorem mm_init_first_allocs_witness:
  "\<exists>s1 s2 s3. page_alloc (mm_init 0x150000 0x100000 boot_state) = (Some 0x201000, s1) \<and>
     page_alloc s1 = (Some 0x401000, s2) \<and> page_alloc s2 = (Some 0xA5A5A5A5A5A5A5A5, s3)"
proof -
  have "pool_base 0x150000 = 0x200000" by (simp add: align_up_def)
  with mm_init_first_allocs [OF boot_ok] show ?thesis
    by (simp add: boot_state_def load64_def)
qed


section \<open>The orders the wrappers ask for\<close>

lemma order_for_spec:
  assumes "k \<le> 9" "\<forall>j<k. 2 ^ j < unat pages"
  shows "order_for pages k \<le> 9 \<and> (\<forall>j<order_for pages k. 2 ^ j < unat pages) \<and>
    (order_for pages k < 9 \<longrightarrow> unat pages \<le> 2 ^ order_for pages k)"
  using assms
proof (induction pages k rule: order_for.induct)
  case (1 pages k)
  have lt: "push_bit k 1 < pages \<longleftrightarrow> 2 ^ k < unat pages"
    unfolding word_less_nat_alt using 1(2) unat_shift1 [of k] by (simp del: push_bit_of_1)
  show ?case
  proof (cases "push_bit k 1 < pages \<and> k < MAX_ORDER_BITS - 1")
    case True
    then have "order_for pages k = order_for pages (Suc k)" by (subst order_for.simps) simp
    moreover have "\<forall>j<Suc k. 2 ^ j < unat pages" using 1(3) True lt by (auto simp: less_Suc_eq)
    ultimately show ?thesis using 1(1) [OF True] True by (simp add: MAX_ORDER_BITS_def)
  next
    case False
    then have "order_for pages k = k" by (subst order_for.simps) auto
    with False 1(2,3) lt show ?thesis by (auto simp: MAX_ORDER_BITS_def)
  qed
qed

abbreviation pages_of :: "u64 \<Rightarrow> u64" where
  "pages_of sz \<equiv> (sz + PAGE_SIZE - 1) div PAGE_SIZE"

lemma unat_pages_of:
  assumes "unat sz + 4095 < 2 ^ 64"
  shows "unat (pages_of sz) = (unat sz + 4095) div 4096"
proof -
  have "unat (sz + 4095) = unat sz + 4095" using assms by (subst unat_plus64) simp_all
  moreover have "sz + PAGE_SIZE - 1 = sz + 4095" by (simp add: algebra_simps)
  ultimately show ?thesis by (simp only: page_size_val unat_div_distrib) simp
qed

lemma phys_alloc_facts:
  assumes "0 < sz" "unat sz + 4095 < 2 ^ 64"
  defines "k \<equiv> order_for (pages_of sz) 0"
  shows "phys_alloc sz s = (case alloc_pages (of_nat k) s of
      (None, s1) \<Rightarrow> (0, s1)
    | (Some p, s1) \<Rightarrow> (p, kmemset p 0 (pages_of sz * 4096) s1))"
    "unat sz \<le> unat (pages_of sz) * 4096" "\<forall>j<k. 2 ^ j < unat (pages_of sz)"
    "unat (pages_of sz) \<le> 512 \<longrightarrow> unat (pages_of sz) \<le> 2 ^ k"
    "512 < unat (pages_of sz) \<longrightarrow> k = 9 \<and> 2 ^ k * 4096 < unat (pages_of sz) * 4096"
proof -
  show "phys_alloc sz s = (case alloc_pages (of_nat k) s of
      (None, s1) \<Rightarrow> (0, s1)
    | (Some p, s1) \<Rightarrow> (p, kmemset p 0 (pages_of sz * 4096) s1))"
    using assms(1) by (auto simp: phys_alloc_def Let_def k_def split: prod.split option.split)
  show "unat sz \<le> unat (pages_of sz) * 4096" unfolding unat_pages_of [OF assms(2)] by simp
  have o: "k \<le> 9" "\<forall>j<k. 2 ^ j < unat (pages_of sz)"
    "k < 9 \<longrightarrow> unat (pages_of sz) \<le> 2 ^ k"
    using order_for_spec [of 0 "pages_of sz"] unfolding k_def by blast+
  show "\<forall>j<k. 2 ^ j < unat (pages_of sz)" by (rule o(2))
  show "unat (pages_of sz) \<le> 512 \<longrightarrow> unat (pages_of sz) \<le> 2 ^ k"
  proof (cases "k = 9")
    case False
    with o(1,3) show ?thesis by simp
  qed simp
  show "512 < unat (pages_of sz) \<longrightarrow> k = 9 \<and> 2 ^ k * 4096 < unat (pages_of sz) * 4096"
  proof (cases "k = 9")
    case False
    then have "(2 :: nat) ^ k \<le> 2 ^ 8" using o(1) by (intro power_increasing) simp_all
    with False o(1,3) show ?thesis by simp
  qed simp
qed

text \<open>
  for a request of \<open>k\<close> pages \<^verbatim>\<open>phys_alloc\<close> asks the page allocator for the smallest
  order whose block holds \<open>k\<close> pages when \<open>k\<close> is at most 512, and for order 9 when it is
  more. It then zeroes all \<open>k\<close> pages: up to 512 pages these bytes cover the request and lie
  in the block, above they reach beyond the 512 pages of the block.
\<close>

theorem phys_alloc_order:
  assumes "0 < sz" "unat sz + 4095 < 2 ^ 64"
  defines "k \<equiv> order_for (pages_of sz) 0"
  shows "phys_alloc sz s = (case alloc_pages (of_nat k) s of
      (None, s1) \<Rightarrow> (0, s1)
    | (Some p, s1) \<Rightarrow> (p, kmemset p 0 (pages_of sz * 4096) s1)) \<and>
    unat sz \<le> unat (pages_of sz) * 4096 \<and> (\<forall>j<k. 2 ^ j < unat (pages_of sz)) \<and>
    (unat (pages_of sz) \<le> 512 \<longrightarrow> unat (pages_of sz) \<le> 2 ^ k) \<and>
    (512 < unat (pages_of sz) \<longrightarrow> k = 9 \<and> 2 ^ k * 4096 < unat (pages_of sz) * 4096)"
  unfolding k_def by (intro conjI phys_alloc_facts [OF assms(1,2)])

theorem phys_alloc_order_witness:
  "unat (pages_of 5000) \<le> 2 ^ order_for (pages_of 5000) 0 \<and>
   order_for (pages_of 0x400000) 0 = 9 \<and>
   2 ^ order_for (pages_of 0x400000) 0 * 4096 < unat (pages_of 0x400000) * 4096"
  using phys_alloc_order [of 5000 mm_pool] phys_alloc_order [of "0x400000" mm_pool] by simp

lemma stack_alloc_facts:
  assumes "unat sz + 4095 < 2 ^ 64"
  defines "k \<equiv> (unat sz + 4095) div 4096"
  shows "stack_alloc sz s = (case alloc_pages (of_nat k) s of
      (None, s1) \<Rightarrow> (0, s1)
    | (Some p, s1) \<Rightarrow> (p, kmemset p 0 (of_nat k * 4096) s1))"
    "10 \<le> k \<Longrightarrow> k < 2 ^ 32 \<Longrightarrow> fst (stack_alloc sz s) = 0"
proof -
  have a: "(sz + PAGE_SIZE - 1) AND NOT (PAGE_SIZE - 1) = align_up 4096 sz"
    by (simp add: align_up_def algebra_simps)
  have u: "unat (align_up 4096 sz) = k * 4096"
    using unat_align_up [of 4096 12 sz] assms(1) by (simp add: k_def)
  have lt: "k * 4096 < 2 ^ 64" unfolding u [symmetric] by simp
  have "unat (align_up 4096 sz div PAGE_SIZE) = k" using u by (simp add: unat_div_distrib)
  then have d: "align_up 4096 sz div PAGE_SIZE = of_nat k" by (metis of_nat_unat ucast_id)
  have e: "align_up 4096 sz = of_nat k * 4096"
    using u lt by (simp add: word_unat_eq_iff unat_mult64 unat_of_nat64)
  have c: "(ucast (of_nat k :: u64) :: u32) = of_nat k"
    using lt by (simp add: unsigned_of_nat take_bit_nat_eq_self)
  show st: "stack_alloc sz s = (case alloc_pages (of_nat k) s of
      (None, s1) \<Rightarrow> (0, s1) | (Some p, s1) \<Rightarrow> (p, kmemset p 0 (of_nat k * 4096) s1))"
    unfolding stack_alloc_def Let_def a d c unfolding e ..
  assume "10 \<le> k" "k < 2 ^ 32"
  then have "fst (alloc_pages (of_nat k) s) = None"
    using alloc_pages_fail_cases [of "of_nat k" s]
    by (simp add: MAX_ORDER_BITS_def unat_of_nat take_bit_nat_eq_self)
  then show "fst (stack_alloc sz s) = 0" unfolding st by (auto split: prod.split)
qed

text \<open>
  \<^verbatim>\<open>stack_alloc\<close> passes the number of pages where \<^verbatim>\<open>alloc_pages\<close> takes an order: a
  stack of \<open>k\<close> pages takes a block of \<open>2^k\<close> pages, and a stack of ten pages (40 KiB) or
  more is never allocated.
\<close>

theorem stack_alloc_pages_as_order:
  assumes "unat sz + 4095 < 2 ^ 64"
  defines "k \<equiv> (unat sz + 4095) div 4096"
  shows "stack_alloc sz s = (case alloc_pages (of_nat k) s of
      (None, s1) \<Rightarrow> (0, s1)
    | (Some p, s1) \<Rightarrow> (p, kmemset p 0 (of_nat k * 4096) s1)) \<and>
    (10 \<le> k \<and> k < 2 ^ 32 \<longrightarrow> fst (stack_alloc sz s) = 0)"
  unfolding k_def using stack_alloc_facts [OF assms(1)] by blast

theorem stack_alloc_pages_as_order_witness: "fst (stack_alloc 0x10000 mm_pool) = 0"
proof -
  have "10 \<le> (unat (0x10000 :: u64) + 4095) div 4096 \<and> (unat (0x10000 :: u64) + 4095) div 4096 < 2 ^ 32"
    by simp
  moreover have "unat (0x10000 :: u64) + 4095 < 2 ^ 64" by simp
  ultimately show ?thesis using stack_alloc_pages_as_order [of "0x10000" mm_pool] by blast
qed

end
