(* ===== verification/Process_Spec.thy ===== *)
theory Process_Spec
  imports Process
begin

text \<open>
  What the scheduler and process creation promise. The scheduler is refined to a round robin
  over the set of ready slots, stated as an interface; process creation and scheduling are
  the steps of a transition system whose reachable states satisfy an invariant of the process
  table.
\<close>

section \<open>The round robin\<close>

text \<open>
  The slots that are ready, the running one, and the slot the next search starts behind. The
  next one is the ready slot at the least cyclic distance behind the cursor.
\<close>

record sched_view =
  ready :: "nat set"
  running :: "nat option"
  cursor :: nat

definition cdist :: "nat \<Rightarrow> nat \<Rightarrow> nat" where
  "cdist l i = (i + 63 - l) mod 64"

definition rr_next :: "nat \<Rightarrow> nat set \<Rightarrow> nat" where
  "rr_next l R = (l + 1 + Min (cdist l ` R)) mod 64"

definition rr_step :: "sched_view \<Rightarrow> sched_view" where
  "rr_step v =
     (case running v of
        None \<Rightarrow> v
      | Some c \<Rightarrow>
          if ready v = {} then v
          else let n = rr_next (cursor v) (ready v) in
            if n = c then v\<lparr>cursor := n\<rparr>
            else \<lparr>ready = ready v - {c}, running = Some n, cursor = n\<rparr>)"

definition view_ok :: "sched_view \<Rightarrow> bool" where
  "view_ok v \<longleftrightarrow> ready v \<subseteq> {..<64} \<and> cursor v < 64 \<and> (\<exists>c \<in> ready v. running v = Some c)"

lemma cdist_inv:
  assumes "l < 64"
  shows "i < 64 \<Longrightarrow> (l + 1 + cdist l i) mod 64 = i" "j < 64 \<Longrightarrow> cdist l ((l + 1 + j) mod 64) = j"
    "cdist l i < 64" "cdist l l = 63"
proof -
  show "(l + 1 + cdist l i) mod 64 = i" if "i < 64"
  proof -
    have "(l + 1 + cdist l i) mod 64 = (l + 1 + (i + 63 - l)) mod 64"
      unfolding cdist_def by (rule mod_add_right_eq)
    also have "l + 1 + (i + 63 - l) = i + 64" using assms by simp
    finally show ?thesis using that by simp
  qed
  show "cdist l ((l + 1 + j) mod 64) = j" if "j < 64"
  proof (cases "l + 1 + j < 64")
    case True
    then have "(l + 1 + j) mod 64 + 63 - l = j + 64" using assms by simp
    then show ?thesis using that by (simp add: cdist_def)
  next
    case False
    then have "(l + 1 + j) mod 64 = l + 1 + j - 64" using assms that by (subst le_mod_geq) simp_all
    then have "(l + 1 + j) mod 64 + 63 - l = j" using False by simp
    then show ?thesis using that by (simp add: cdist_def)
  qed
qed (use assms in \<open>simp_all add: cdist_def\<close>)

lemma rr_next_least:
  assumes "finite R" "R \<noteq> {}" "R \<subseteq> {..<64}" "l < 64"
  shows "rr_next l R \<in> R" "i \<in> R \<Longrightarrow> cdist l (rr_next l R) \<le> cdist l i"
proof -
  have "Min (cdist l ` R) \<in> cdist l ` R" using assms by (intro Min_in) auto
  then obtain k where k: "k \<in> R" "Min (cdist l ` R) = cdist l k" by auto
  then have e: "rr_next l R = k"
    using assms cdist_inv(1) [of l k] by (auto simp: rr_next_def)
  show "rr_next l R \<in> R" using k e by simp
  show "i \<in> R \<Longrightarrow> cdist l (rr_next l R) \<le> cdist l i"
    using e k(2) assms(1) Min_le [of "cdist l ` R" "cdist l i"] by simp
qed

lemma rr_next_other:
  assumes "R \<subseteq> {..<64}" "R - {c} \<noteq> {}" "c < 64"
  shows "rr_next c R \<noteq> c"
proof
  assume a: "rr_next c R = c"
  obtain i where i: "i \<in> R" "i \<noteq> c" using assms(2) by blast
  have "finite R" "R \<noteq> {}" using assms finite_subset by auto
  from rr_next_least(2) [OF this assms(1,3) i(1)] a have "cdist c c \<le> cdist c i" by simp
  with cdist_inv(4) [OF assms(3)] cdist_inv(3) [OF assms(3), of i] have "cdist c i = cdist c c" by simp
  with cdist_inv(1) [OF assms(3), of i] cdist_inv(1) [OF assms(3), of c] i assms show False by auto
qed

lemma view_ok_ready:
  assumes "view_ok v"
  shows "finite (ready v)" "ready v \<noteq> {}" "ready v \<subseteq> {..<64}" "cursor v < 64"
  using assms finite_subset [of "ready v" "{..<64}"] by (auto simp: view_ok_def)

lemma rr_step_ok:
  assumes "view_ok v"
  shows "view_ok (rr_step v)" "running (rr_step v) = Some (cursor (rr_step v))"
proof -
  note v = view_ok_ready [OF assms]
  obtain c where c: "c \<in> ready v" "running v = Some c" using assms by (auto simp: view_ok_def)
  have n: "rr_next (cursor v) (ready v) \<in> ready v" by (rule rr_next_least(1) [OF v])
  show "view_ok (rr_step v)"
    using n v(3) c by (auto simp: rr_step_def Let_def view_ok_def)
  show "running (rr_step v) = Some (cursor (rr_step v))"
    using v(2) c by (auto simp: rr_step_def Let_def)
qed

text \<open>
  A switch takes the running slot out of the ready set. With the cursor on the running slot
  this happens whenever another slot is ready.
\<close>

lemma rr_step_switch:
  assumes "view_ok v" "running v = Some (cursor v)" "ready v \<noteq> {cursor v}"
  shows "ready (rr_step v) = ready v - {cursor v}" "card (ready v) = Suc (card (ready (rr_step v)))"
proof -
  note v = view_ok_ready [OF assms(1)]
  have c: "cursor v \<in> ready v" using assms(1,2) by (auto simp: view_ok_def)
  have "rr_next (cursor v) (ready v) \<noteq> cursor v"
    using v c assms(3) by (intro rr_next_other) auto
  then show r: "ready (rr_step v) = ready v - {cursor v}"
    using assms(2) v(2) by (simp add: rr_step_def Let_def)
  show "card (ready v) = Suc (card (ready (rr_step v)))"
    unfolding r using v(1) c by (rule card.remove)
qed

lemma rr_step_alone:
  assumes "view_ok v" "ready v = {c}"
  shows "ready (rr_step v) = {c}" "running (rr_step v) = Some c"
proof -
  have r: "running v = Some c" and c: "c < 64" "cursor v < 64"
    using assms by (auto simp: view_ok_def)
  have "rr_next (cursor v) {c} = c" using cdist_inv(1) [OF c(2,1)] by (simp add: rr_next_def)
  then show "ready (rr_step v) = {c}" "running (rr_step v) = Some c"
    using assms(2) r by (simp_all add: rr_step_def)
qed

lemma rr_all_run:
  assumes "view_ok v" "running v = Some (cursor v)" "j \<in> ready v" "card (ready v) = Suc m"
  shows "\<exists>k\<le>m. running ((rr_step ^^ k) v) = Some j"
  using assms
proof (induction m arbitrary: v)
  case 0
  then have "ready v = {j}" by (metis card_1_singletonE One_nat_def singletonD)
  with 0 show ?case by (auto simp: view_ok_def)
next
  case (Suc m)
  show ?case
  proof (cases "j = cursor v")
    case False
    with Suc.prems have "ready v \<noteq> {cursor v}" by auto
    note s = rr_step_switch [OF Suc.prems(1,2) this]
    have "\<exists>k\<le>m. running ((rr_step ^^ k) (rr_step v)) = Some j"
      using rr_step_ok [OF Suc.prems(1)] s False Suc.prems by (intro Suc.IH) auto
    then obtain k where "k \<le> m" "running ((rr_step ^^ Suc k) v) = Some j"
      by (auto simp: funpow_swap1)
    then show ?thesis by (intro exI [of _ "Suc k"]) simp
  qed (use Suc.prems in \<open>auto intro: exI [of _ 0]\<close>)
qed

lemma rr_iterate_ok: "view_ok v \<Longrightarrow> view_ok ((rr_step ^^ k) v)"
  by (induction k) (simp_all add: rr_step_ok)

lemma rr_fair:
  assumes "view_ok v" "j \<in> ready v"
  shows "\<exists>k\<le>card (ready v). running ((rr_step ^^ k) v) = Some j"
proof (cases "running v = Some j")
  case False
  note v = view_ok_ready [OF assms(1)]
  have j: "j \<in> ready (rr_step v)" using assms False
    by (auto simp: rr_step_def Let_def split: option.splits)
  have le: "card (ready (rr_step v)) \<le> card (ready v)"
    by (rule card_mono [OF v(1)]) (auto simp: rr_step_def Let_def split: option.splits)
  have "card (ready (rr_step v)) \<noteq> 0"
    using view_ok_ready [OF rr_step_ok(1) [OF assms(1)]] by simp
  then obtain m where m: "card (ready (rr_step v)) = Suc m" by (auto simp: gr0_conv_Suc)
  from rr_all_run [OF rr_step_ok [OF assms(1)] j m] obtain k where
    "k \<le> m" "running ((rr_step ^^ Suc k) v) = Some j" by (auto simp: funpow_swap1)
  with m le show ?thesis by (intro exI [of _ "Suc k"]) simp
qed (auto intro: exI [of _ 0])

lemma rr_card:
  assumes "view_ok v" "running v = Some (cursor v)"
  shows "card (ready ((rr_step ^^ k) v)) = max 1 (card (ready v) - k)"
  using assms
proof (induction k arbitrary: v)
  case 0
  with view_ok_ready [OF 0(1)] have "0 < card (ready v)" by (simp add: card_gt_0_iff)
  then show ?case by simp
next
  case (Suc k)
  have IH: "card (ready ((rr_step ^^ Suc k) v)) = max 1 (card (ready (rr_step v)) - k)"
    using Suc.IH [OF rr_step_ok [OF Suc.prems(1)]] by (simp add: funpow_swap1)
  show ?case
  proof (cases "ready v = {cursor v}")
    case True
    with rr_step_alone(1) [OF Suc.prems(1) True] IH show ?thesis by simp
  next
    case False
    from rr_step_switch(2) [OF Suc.prems False] IH show ?thesis by simp
  qed
qed

lemma rr_settles:
  assumes "view_ok v" "card (ready v) \<le> k"
  shows "\<exists>c. ready ((rr_step ^^ k) v) = {c} \<and> running ((rr_step ^^ k) v) = Some c"
proof -
  note v = view_ok_ready [OF assms(1)]
  have "0 < card (ready v)" using v by (simp add: card_gt_0_iff)
  with assms(2) obtain k' where k: "k = Suc k'" by (cases k) auto
  have "card (ready (rr_step v)) \<le> card (ready v)"
    by (rule card_mono [OF v(1)]) (auto simp: rr_step_def Let_def split: option.splits)
  with assms(2) k rr_card [OF rr_step_ok [OF assms(1)], of k']
  have "card (ready ((rr_step ^^ k) v)) = 1" by (simp add: funpow_swap1)
  then obtain c where "ready ((rr_step ^^ k) v) = {c}" by (rule card_1_singletonE)
  with rr_iterate_ok [OF assms(1), of k] show ?thesis by (auto simp: view_ok_def)
qed

text \<open>
  The interface of a scheduler: on well-formed states its step is the round robin on what the
  view shows. Then every ready slot runs within as many steps as there are ready slots, and
  after that many a single slot is left.
\<close>

locale rr_scheduler =
  fixes wf :: "'s \<Rightarrow> bool" and view :: "'s \<Rightarrow> sched_view" and step :: "'s \<Rightarrow> 's"
  assumes step_wf: "wf s \<Longrightarrow> wf (step s)"
    and step_view: "wf s \<Longrightarrow> view (step s) = rr_step (view s)"
begin

lemma iterate: "wf s \<Longrightarrow> wf ((step ^^ k) s) \<and> view ((step ^^ k) s) = (rr_step ^^ k) (view s)"
  by (induction k) (simp_all add: step_wf step_view)

lemma fair:
  "wf s \<Longrightarrow> view_ok (view s) \<Longrightarrow> j \<in> ready (view s) \<Longrightarrow>
   \<exists>k\<le>card (ready (view s)). running (view ((step ^^ k) s)) = Some j"
  using rr_fair [of "view s" j] by (simp add: iterate)

lemma settles:
  "wf s \<Longrightarrow> view_ok (view s) \<Longrightarrow> card (ready (view s)) \<le> k \<Longrightarrow>
   \<exists>c. ready (view ((step ^^ k) s)) = {c} \<and> running (view ((step ^^ k) s)) = Some c"
  using rr_settles [of "view s" k] by (simp add: iterate)

end

section \<open>The kernel's scheduler\<close>

definition sched_of :: "'a proc_state_scheme \<Rightarrow> sched_view" where
  "sched_of s = \<lparr>ready = set (filter (\<lambda>i. runnable (proc s i)) [0..<64]),
     running = current_process s, cursor = last_idx s\<rparr>"

definition table_ok :: "'a proc_state_scheme \<Rightarrow> bool" where
  "table_ok s \<longleftrightarrow> length (process_table s) = 64 \<and> last_idx s < 64 \<and>
     (case current_process s of None \<Rightarrow> True | Some c \<Rightarrow> c < 64)"

lemma proc_frames [simp, frame_simps]:
  "process_table (emit f as s) = process_table s" "current_process (emit f as s) = current_process s"
  "next_pid (emit f as s) = next_pid s" "last_idx (emit f as s) = last_idx s"
  "table_base (emit f as s) = table_base s" "arm (emit f as s) = arm s" "x86 (emit f as s) = x86 s"
  "process_table (poke64 a v s) = process_table s" "current_process (poke64 a v s) = current_process s"
  "next_pid (poke64 a v s) = next_pid s" "last_idx (poke64 a v s) = last_idx s"
  "table_base (poke64 a v s) = table_base s" "arm (poke64 a v s) = arm s" "x86 (poke64 a v s) = x86 s"
  by (simp_all add: emit_def poke64_def)

lemma upd_proc_frames [simp, frame_simps]:
  "process_table (upd_proc i f s) = (process_table s)[i := f (proc s i)]"
  "current_process (upd_proc i f s) = current_process s" "next_pid (upd_proc i f s) = next_pid s"
  "last_idx (upd_proc i f s) = last_idx s" "table_base (upd_proc i f s) = table_base s"
  "arm (upd_proc i f s) = arm s" "x86 (upd_proc i f s) = x86 s" "kmem (upd_proc i f s) = kmem s"
  "klog (upd_proc i f s) = klog s"
  by (simp_all add: upd_proc_def)

lemma save_context_frames [simp, frame_simps]:
  "process_table (save_context T i s) = process_table s"
  "current_process (save_context T i s) = current_process s"
  "next_pid (save_context T i s) = next_pid s" "last_idx (save_context T i s) = last_idx s"
  "table_base (save_context T i s) = table_base s" "klog (save_context T i s) = klog s"
  by (simp_all add: save_context_def Let_def split: target.splits prod.splits)

lemma restore_context_frames [simp, frame_simps]:
  "process_table (restore_context T i s) = process_table s"
  "current_process (restore_context T i s) = current_process s"
  "next_pid (restore_context T i s) = next_pid s" "last_idx (restore_context T i s) = last_idx s"
  "table_base (restore_context T i s) = table_base s" "klog (restore_context T i s) = klog s"
  by (simp_all add: restore_context_def Let_def split: target.splits prod.splits)

lemma next_runnable_eq:
  assumes "l < 64"
  shows "next_runnable ps l =
    (let R = set (filter (\<lambda>i. runnable (ps ! i)) [0..<64])
     in if R = {} then None else Some (rr_next l R))"
proof -
  define R where "R = set (filter (\<lambda>i. runnable (ps ! i)) [0..<64])"
  define xs where "xs = map (\<lambda>i. (l + i) mod MAX_PROCESSES) [1..<Suc MAX_PROCESSES]"
  have len: "length xs = 64" by (simp add: xs_def MAX_PROCESSES_def)
  have nth: "xs ! j = (l + 1 + j) mod 64" if "j < 64" for j
    using that by (simp add: xs_def MAX_PROCESSES_def del: upt_Suc)
  have mem: "runnable (ps ! (xs ! j)) \<longleftrightarrow> xs ! j \<in> R" if "j < 64" for j
    using nth [OF that] by (simp add: R_def)
  show ?thesis
  proof (cases "R = {}")
    case True
    then have "find (\<lambda>idx. runnable (ps ! idx)) xs = None"
      using mem len by (auto simp: find_None_iff in_set_conv_nth)
    with True show ?thesis by (simp add: next_runnable_def xs_def R_def Let_def)
  next
    case False
    have R: "finite R" "R \<subseteq> {..<64}" by (auto simp: R_def)
    note least = rr_next_least [OF R(1) False R(2) assms]
    let ?d = "cdist l (rr_next l R)"
    have d: "?d < 64" by (rule cdist_inv(3) [OF assms])
    have n: "xs ! ?d = rr_next l R"
      using nth [OF d] cdist_inv(1) [OF assms] least(1) R(2) by auto
    have "\<not> runnable (ps ! (xs ! j))" if "j < ?d" for j
    proof
      assume "runnable (ps ! (xs ! j))"
      moreover have j: "j < 64" using that d by simp
      ultimately have "?d \<le> cdist l (xs ! j)" using mem least(2) by simp
      with cdist_inv(2) [OF assms j] nth [OF j] that show False by simp
    qed
    moreover have "runnable (ps ! (xs ! ?d))" using mem [OF d] n least(1) by simp
    ultimately have "find (\<lambda>idx. runnable (ps ! idx)) xs = Some (rr_next l R)"
      unfolding find_Some_iff using d len n by (intro exI [of _ ?d]) auto
    with False show ?thesis by (simp add: next_runnable_def xs_def R_def Let_def)
  qed
qed

text \<open>What a switch to a process that is marked running does to the table.\<close>

lemma context_switch_table:
  assumes "pstate (proc s n) = PROC_RUNNING" "n \<noteq> c" "n < length (process_table s)"
  shows "process_table (context_switch T (Some c) (Some n) s) =
      (process_table s)[c := (proc s c)\<lparr>pstate := PROC_SLEEPING\<rparr>]"
    "current_process (context_switch T (Some c) (Some n) s) = Some n"
    "last_idx (context_switch T (Some c) (Some n) s) = last_idx s"
    "next_pid (context_switch T (Some c) (Some n) s) = next_pid s"
    "table_base (context_switch T (Some c) (Some n) s) = table_base s"
proof -
  have "(process_table s)[n := (proc s n)\<lparr>pstate := PROC_RUNNING\<rparr>] = process_table s"
    using assms(1) by (metis (full_types) list_update_id process_t.surjective process_t.update_convs(3))
  then show "process_table (context_switch T (Some c) (Some n) s) =
      (process_table s)[c := (proc s c)\<lparr>pstate := PROC_SLEEPING\<rparr>]"
    using assms by (simp add: context_switch_def Let_def list_update_swap [of c n])
qed (use assms in \<open>simp_all add: context_switch_def Let_def\<close>)

lemma ready_sleep:
  assumes "c < 64" "length ps = 64"
  shows "set (filter (\<lambda>i. runnable (ps[c := (ps ! c)\<lparr>pstate := PROC_SLEEPING\<rparr>] ! i)) [0..<64]) =
    set (filter (\<lambda>i. runnable (ps ! i)) [0..<64]) - {c}"
  using assms by (auto simp: nth_list_update runnable_def split: if_splits)

lemma schedule_cases:
  fixes s :: "'a proc_state_scheme"
  assumes "table_ok s" "current_process s = Some c" "ready (sched_of s) \<noteq> {}"
  defines "n \<equiv> rr_next (last_idx s) (ready (sched_of s))"
  shows "n < 64" "runnable (proc s n)"
    "schedule T s =
      (if n = c then s\<lparr>last_idx := n\<rparr>
       else context_switch T (Some c) (Some n)
         (emit ''[SCHED] Switching from pid %d ('%s') to pid %d ('%s')\<newline>''
            [int_arg (pid (proc s c)), name_arg (proc s c), int_arg (pid (proc s n)), name_arg (proc s n)]
            (s\<lparr>last_idx := n\<rparr>)))"
proof -
  have l: "last_idx s < 64" using assms(1) by (simp add: table_ok_def)
  have R: "finite (ready (sched_of s))" "ready (sched_of s) \<subseteq> {..<64}" by (auto simp: sched_of_def)
  have "n \<in> ready (sched_of s)" unfolding n_def by (rule rr_next_least(1) [OF R(1) assms(3) R(2) l])
  then show "n < 64" "runnable (proc s n)" by (simp_all add: sched_of_def)
  have nr: "next_runnable (process_table s) (last_idx s) = Some n"
    unfolding next_runnable_eq [OF l] n_def using assms(3)
    by (simp add: sched_of_def Let_def del: set_filter)
  show "schedule T s = (if n = c then s\<lparr>last_idx := n\<rparr> else context_switch T (Some c) (Some n)
         (emit ''[SCHED] Switching from pid %d ('%s') to pid %d ('%s')\<newline>''
            [int_arg (pid (proc s c)), name_arg (proc s c), int_arg (pid (proc s n)), name_arg (proc s n)]
            (s\<lparr>last_idx := n\<rparr>)))"
    using assms(2) nr by (simp add: schedule_def Let_def)
qed

lemma schedule_view:
  fixes s :: "'a proc_state_scheme"
  assumes "table_ok s"
  shows "sched_of (schedule T s) = rr_step (sched_of s)" "table_ok (schedule T s)"
proof -
  have "sched_of (schedule T s) = rr_step (sched_of s) \<and> table_ok (schedule T s)"
  proof (cases "current_process s")
    case None
    then show ?thesis using assms by (simp add: schedule_def sched_of_def rr_step_def table_ok_def)
  next
    case (Some c)
    have c: "c < 64" "length (process_table s) = 64" "last_idx s < 64"
      using assms Some by (simp_all add: table_ok_def)
    show ?thesis
    proof (cases "ready (sched_of s) = {}")
      case True
      with assms Some c(3) show ?thesis
        by (simp add: schedule_def sched_of_def rr_step_def next_runnable_eq table_ok_def)
    next
      case False
      let ?n = "rr_next (last_idx s) (ready (sched_of s))"
      note S = schedule_cases [OF assms Some False]
      show ?thesis
      proof (cases "?n = c")
        case True
        with S(3) [of T] Some False c show ?thesis
          by (auto simp: sched_of_def rr_step_def table_ok_def)
      next
        case False
        have r: "pstate (proc s ?n) = PROC_RUNNING" using S(2) by (simp add: runnable_def)
        with S(1) S(3) [of T] False Some \<open>ready (sched_of s) \<noteq> {}\<close> c ready_sleep [OF c(1,2)] show ?thesis
          by (simp add: context_switch_table sched_of_def rr_step_def Let_def table_ok_def)
      qed
    qed
  qed
  then show "sched_of (schedule T s) = rr_step (sched_of s)" "table_ok (schedule T s)" by simp_all
qed

interpretation sch: rr_scheduler table_ok sched_of "schedule T" for T
  by unfold_locales (simp_all add: schedule_view)

section \<open>Creation\<close>

lemma kmemset_proc_frames [simp, frame_simps]:
  "process_table (kmemset a c n s) = process_table s"
  "current_process (kmemset a c n s) = current_process s" "next_pid (kmemset a c n s) = next_pid s"
  "last_idx (kmemset a c n s) = last_idx s" "table_base (kmemset a c n s) = table_base s"
  "arm (kmemset a c n s) = arm s" "x86 (kmemset a c n s) = x86 s"
  by (simp_all add: kmemset_def)

lemma zero_down_frames [simp, frame_simps]:
  "process_table (zero_down n a s) = process_table s"
  "current_process (zero_down n a s) = current_process s" "next_pid (zero_down n a s) = next_pid s"
  "last_idx (zero_down n a s) = last_idx s" "table_base (zero_down n a s) = table_base s"
  "arm (zero_down n a s) = arm s" "x86 (zero_down n a s) = x86 s" "klog (zero_down n a s) = klog s"
  by (induction n arbitrary: a s) simp_all

lemma proc_addrs [simp]:
  "process_addr (emit f as s) = process_addr s" "process_addr (poke64 a v s) = process_addr s"
  "process_addr (upd_proc i g s) = process_addr s" "process_addr (kmemset b c n s) = process_addr s"
  "process_addr (zero_down k a s) = process_addr s" "process_addr (save_context T j s) = process_addr s"
  "process_addr (s\<lparr>next_pid := p\<rparr>) = process_addr s" "process_addr (s\<lparr>last_idx := l\<rparr>) = process_addr s"
  by (simp_all add: process_addr_def fun_eq_iff)

lemma find_slot_Some:
  "find_slot ps = Some i \<longleftrightarrow> i < 64 \<and> pid (ps ! i) = 0 \<and> (\<forall>j<i. pid (ps ! j) \<noteq> 0)"
  by (auto simp: find_slot_def find_Some_iff MAX_PROCESSES_def)

lemma find_slot_None: "find_slot ps = None \<longleftrightarrow> (\<forall>i<64. pid (ps ! i) \<noteq> 0)"
  by (auto simp: find_slot_def find_None_iff MAX_PROCESSES_def)

text \<open>The control block a successful creation fills in.\<close>

definition new_process ::
  "'a proc_state_scheme \<Rightarrow> nat \<Rightarrow> u64 \<Rightarrow> u64 \<Rightarrow> u8 list option \<Rightarrow> process_t" where
  "new_process s i stack stack_size name =
     \<lparr>pid = next_pid s,
      ppid = (case current_process s of None \<Rightarrow> 0 | Some c \<Rightarrow> if c = i then next_pid s else pid (proc s c)),
      pstate = PROC_RUNNING,
      pname = (strncpy_array 15 (case name of Some nm \<Rightarrow> nm | None \<Rightarrow> pid_name (next_pid s)) (pname (proc s i)))[15 := 0],
      user_stack = (if stack \<noteq> 0 \<and> 0 < stack_size then stack + stack_size else user_stack (proc s i)),
      user_space = stack, user_space_size = stack_size, exit_code = 0\<rparr>"

lemma create_process_table:
  assumes "find_slot (process_table s) = Some i" "length (process_table s) = 64"
  shows "process_table (snd (create_process e stk n nm s)) = (process_table s)[i := new_process s i stk n nm]"
    "fst (create_process e stk n nm s) = Some i"
    "next_pid (snd (create_process e stk n nm s)) = next_pid s + 1"
proof -
  have i: "i < length (process_table s)" using assms by (simp add: find_slot_Some)
  show "process_table (snd (create_process e stk n nm s)) = (process_table s)[i := new_process s i stk n nm]"
    using i assms(1)
    by (cases "proc s i") (simp add: create_process_def Let_def new_process_def set_name_def split: option.split)
  show "fst (create_process e stk n nm s) = Some i" using assms by (simp add: create_process_def Let_def)
  show "next_pid (snd (create_process e stk n nm s)) = next_pid s + 1"
    using assms by (simp add: create_process_def Let_def)
qed

lemma create_process_frames [simp]:
  "current_process (snd (create_process e stk n nm s)) = current_process s"
  "last_idx (snd (create_process e stk n nm s)) = last_idx s"
  "table_base (snd (create_process e stk n nm s)) = table_base s"
  by (simp_all add: create_process_def Let_def split: option.split)

lemma create_process_full:
  assumes "find_slot (process_table s) = None"
  shows "create_process e stk n nm s = (None, emit ''[PROC] Cannot create process: table full\<newline>'' [] s)"
  using assms by (simp add: create_process_def)

lemma strncpy_array_length [simp]:
  "length arr = 16 \<Longrightarrow> length (strncpy_array 15 xs arr) = 16"
  by (simp add: strncpy_array_def Let_def)

text \<open>The operation on an array is \<^verbatim>\<open>strncpy\<close> on the memory that holds it.\<close>

lemma strncpy_array_refines:
  assumes "cstr m src xs" "copy_ok dst src (length xs)"
  shows "read_bytes (fst (strncpy m dst src 15)) dst 16 = strncpy_array 15 xs (read_bytes m dst 16)"
proof -
  define w where "w = (if length xs < 15 then xs @ replicate (15 - length xs + 1) 0 else take 15 xs)"
  have w: "length w \<le> 16" by (simp add: w_def)
  have s: "fst (strncpy m dst src 15) = write_bytes m dst w"
    unfolding strncpy_cstr [OF assms] by (simp add: w_def Suc_diff_le)
  show ?thesis
    unfolding s
  proof (rule nth_equalityI)
    fix i assume "i < length (read_bytes (write_bytes m dst w) dst 16)"
    then have i: "i < 16" by simp
    then have "unat (of_nat i :: u64) = i" by (intro unat_of_nat64) simp
    then show "read_bytes (write_bytes m dst w) dst 16 ! i = strncpy_array 15 xs (read_bytes m dst 16) ! i"
      using i w by (simp add: read_bytes_nth write_bytes_apply strncpy_array_def flip: w_def)
        (simp add: nth_append read_bytes_nth Let_def)
  qed (use w in \<open>simp add: strncpy_array_def Let_def flip: w_def\<close>)
qed

section \<open>The transition system\<close>

text \<open>
  Creating a process and scheduling are steps, as is anything else the kernel does that leaves
  the globals of \<^verbatim>\<open>process.c\<close> alone. A run starts when \<^verbatim>\<open>init_process\<close> returns, on a process
  table that is zeroed.
\<close>

inductive proc_step :: "target \<Rightarrow> 'a proc_state_scheme \<Rightarrow> 'a proc_state_scheme \<Rightarrow> bool" for T where
  create: "proc_step T s (snd (create_process e stk n nm s))"
| sched: "proc_step T s (schedule T s)"
| other: "process_table s' = process_table s \<Longrightarrow> current_process s' = current_process s \<Longrightarrow>
    next_pid s' = next_pid s \<Longrightarrow> last_idx s' = last_idx s \<Longrightarrow> proc_step T s s'"

definition table_zero :: "'a proc_state_scheme \<Rightarrow> bool" where
  "table_zero s \<longleftrightarrow> process_table s = replicate 64 process_zero \<and> current_process s = None \<and>
     next_pid s = 1 \<and> last_idx s = 0"

inductive proc_reach :: "target \<Rightarrow> 'a proc_state_scheme \<Rightarrow> bool" for T where
  start: "table_zero s \<Longrightarrow> proc_reach T (init_process T e s)"
| step: "proc_reach T s \<Longrightarrow> proc_step T s s' \<Longrightarrow> proc_reach T s'"

text \<open>
  The invariant: slots are used from the front, slot \<open>i\<close> holds pid \<open>i\<close> except slot 0, which
  holds pid 1; the running process is ready; every name is terminated.
\<close>

definition pids_ok :: "nat \<Rightarrow> process_t list \<Rightarrow> bool" where
  "pids_ok m ps \<longleftrightarrow> 1 \<le> m \<and> m \<le> 64 \<and> map pid ps = 1 # map int [1..<m] @ replicate (64 - m) 0"

definition names_ok :: "process_t list \<Rightarrow> bool" where
  "names_ok ps \<longleftrightarrow> list_all (\<lambda>p. length (pname p) = 16 \<and> pname p ! 15 = 0) ps"

definition proc_inv :: "'a proc_state_scheme \<Rightarrow> bool" where
  "proc_inv s \<longleftrightarrow> table_ok s \<and> view_ok (sched_of s) \<and> names_ok (process_table s) \<and>
     (\<exists>m. next_pid s = int m \<and> pids_ok m (process_table s))"

lemma pids_ok_nth:
  assumes "pids_ok m ps"
  shows "length ps = 64" "i < 64 \<Longrightarrow> pid (ps ! i) = (if i = 0 then 1 else if i < m then int i else 0)"
proof -
  have p: "map pid ps = 1 # map int [1..<m] @ replicate (64 - m) 0" and m: "1 \<le> m" "m \<le> 64"
    using assms by (auto simp: pids_ok_def)
  show l: "length ps = 64" using arg_cong [OF p, of length] m by simp
  show "pid (ps ! i) = (if i = 0 then 1 else if i < m then int i else 0)" if i: "i < 64"
  proof -
    have "pid (ps ! i) = (1 # map int [1..<m] @ replicate (64 - m) 0) ! i"
      using p l i by (metis nth_map)
    also have "\<dots> = (if i = 0 then 1 else if i < m then int i else 0)"
      using m i by (auto simp: nth_Cons' nth_append)
    finally show ?thesis .
  qed
qed

lemma pids_ok_free:
  assumes "pids_ok m ps"
  shows "find_slot ps = (if m < 64 then Some m else None)"
proof -
  have m: "1 \<le> m" "m \<le> 64" using assms by (simp_all add: pids_ok_def)
  show ?thesis
    using m pids_ok_nth(2) [OF assms] by (auto simp: find_slot_Some find_slot_None)
qed

lemma pids_ok_add:
  assumes "pids_ok m ps" "m < 64" "pid p = int m"
  shows "pids_ok (Suc m) (ps[m := p])"
proof -
  have m: "1 \<le> m" and p: "map pid ps = 1 # map int [1..<m] @ replicate (64 - m) 0"
    using assms(1) by (auto simp: pids_ok_def)
  have r: "replicate (64 - m) (0 :: int) = 0 # replicate (64 - Suc m) 0"
    using assms(2) by (simp flip: replicate_Suc add: Suc_diff_Suc)
  have "map pid (ps[m := p]) = (1 # map int [1..<m] @ replicate (64 - m) 0)[m := int m]"
    by (simp add: map_update p assms(3))
  also have "\<dots> = 1 # map int [1..<Suc m] @ replicate (64 - Suc m) 0"
    using m r by (cases m) (simp_all add: list_update_append)
  finally show ?thesis using assms(2) by (simp add: pids_ok_def)
qed

lemma map_update_same: "f p = f (ps ! i) \<Longrightarrow> map f (ps[i := p]) = map f ps"
  by (metis list_update_id map_update)

lemma setup_context_table:
  "\<exists>us. process_table (setup_context i s) = (process_table s)[i := (proc s i)\<lparr>user_stack := us\<rparr>]"
  by (auto simp: setup_context_def Let_def split: if_splits)

lemma setup_context_frames [simp, frame_simps]:
  "current_process (setup_context i s) = current_process s" "next_pid (setup_context i s) = next_pid s"
  "last_idx (setup_context i s) = last_idx s" "table_base (setup_context i s) = table_base s"
  "arm (setup_context i s) = arm s" "x86 (setup_context i s) = x86 s"
  by (simp_all add: setup_context_def Let_def)

lemma schedule_keeps:
  fixes s :: "'a proc_state_scheme"
  assumes "\<And>p g. f (pstate_update g p) = f p" "\<And>p g. f (user_stack_update g p) = f p"
  shows "map f (process_table (schedule T s)) = map f (process_table s)" "next_pid (schedule T s) = next_pid s"
proof -
  have u: "map f (process_table (upd_proc i (pstate_update g) t)) = map f (process_table t)" 
    for i g and t :: "'a proc_state_scheme"
    by (simp add: map_update_same assms(1))
  have w: "map f (process_table (setup_context i t)) = map f (process_table t)"
    for i and t :: "'a proc_state_scheme"
    using setup_context_table [of i t] by (auto simp: map_update_same assms(2))
  show "map f (process_table (schedule T s)) = map f (process_table s)"
    using u w by (simp add: schedule_def context_switch_def Let_def split: option.split)
  show "next_pid (schedule T s) = next_pid s"
    by (simp add: schedule_def context_switch_def Let_def split: option.split)
qed

lemma names_ok_map: "names_ok ps \<longleftrightarrow> (\<forall>xs \<in> set (map pname ps). length xs = 16 \<and> xs ! 15 = 0)"
  by (simp add: names_ok_def list_all_iff)

lemma pids_ok_map: "map pid ps = map pid qs \<Longrightarrow> pids_ok m ps = pids_ok m qs"
  by (simp add: pids_ok_def)

lemma proc_inv_schedule:
  assumes "proc_inv s" shows "proc_inv (schedule T s)"
proof -
  have t: "table_ok s" "view_ok (sched_of s)" using assms by (simp_all add: proc_inv_def)
  have "map pname (process_table (schedule T s)) = map pname (process_table s)"
    by (rule schedule_keeps(1)) simp_all
  then have "names_ok (process_table (schedule T s)) = names_ok (process_table s)"
    by (simp only: names_ok_map)
  moreover have "pids_ok m (process_table (schedule T s)) = pids_ok m (process_table s)" for m
    by (rule pids_ok_map) (simp add: schedule_keeps)
  moreover have "next_pid (schedule T s) = next_pid s"
    by (rule schedule_keeps(2) [of "\<lambda>_. ()"]) simp_all
  ultimately show ?thesis
    using assms schedule_view [OF t(1), of T] rr_step_ok(1) [OF t(2)] by (simp add: proc_inv_def)
qed

lemma proc_inv_cong:
  "process_table s' = process_table s \<Longrightarrow> current_process s' = current_process s \<Longrightarrow>
   next_pid s' = next_pid s \<Longrightarrow> last_idx s' = last_idx s \<Longrightarrow> proc_inv s' = proc_inv s"
  by (simp add: proc_inv_def table_ok_def sched_of_def)

lemma proc_inv_create:
  assumes "proc_inv s" shows "proc_inv (snd (create_process e stk n nm s))"
proof -
  obtain m where m: "next_pid s = int m" "pids_ok m (process_table s)"
    using assms by (auto simp: proc_inv_def)
  have t: "table_ok s" "view_ok (sched_of s)" "names_ok (process_table s)"
    using assms by (simp_all add: proc_inv_def)
  have len: "length (process_table s) = 64" using t by (simp add: table_ok_def)
  show ?thesis
  proof (cases "m < 64")
    case False
    then have "find_slot (process_table s) = None" using pids_ok_free [OF m(2)] by simp
    then show ?thesis
      using assms create_process_full [of s e stk n nm] by (simp add: proc_inv_cong [of "emit _ _ s" s])
  next
    case True
    let ?p = "new_process s m stk n nm"
    let ?s = "snd (create_process e stk n nm s)"
    have slot: "find_slot (process_table s) = Some m" using True pids_ok_free [OF m(2)] by simp
    note C = create_process_table [OF slot len, of e stk n nm]
    have "length (pname (proc s m)) = 16" using t(3) True len by (simp add: names_ok_def list_all_length)
    then have p: "pid ?p = int m" "runnable ?p" "length (pname ?p) = 16" "pname ?p ! 15 = 0"
      using m pids_ok_nth [OF m(2)] by (auto simp: new_process_def runnable_def pids_ok_def)
    have "names_ok ((process_table s)[m := ?p])"
      using t(3) p set_update_subset_insert [of "process_table s" m ?p] by (auto simp: names_ok_def list_all_iff)
    moreover have "pids_ok (Suc m) ((process_table s)[m := ?p])"
      by (rule pids_ok_add [OF m(2) True p(1)])
    moreover have "ready (sched_of ?s) = insert m (ready (sched_of s))"
      using True len p(2) C(1) by (auto simp: sched_of_def nth_list_update)
    then have "view_ok (sched_of ?s)"
      using t(2) True by (auto simp: view_ok_def sched_of_def)
    ultimately show ?thesis using t(1) C m(1) by (auto simp: proc_inv_def table_ok_def intro!: exI [of _ "Suc m"])
  qed
qed

text \<open>Only the init process is ready after \<^verbatim>\<open>init_process\<close>, and its ten ticks all yield to itself.\<close>

lemma init_name: "strncpy_array 15 (map of_char ''init'') (replicate 16 0) = map of_char ''init'' @ replicate 12 0"
  by (simp add: strncpy_array_def Let_def numeral_eq_Suc)

definition only_init :: "'a proc_state_scheme \<Rightarrow> bool" where
  "only_init s \<longleftrightarrow> proc_inv s \<and> ready (sched_of s) = {0} \<and> next_pid s = 1"

lemma only_init_emit [simp]: "only_init (emit f as s) = only_init s"
  using proc_inv_cong [of "emit f as s" s] by (simp add: only_init_def sched_of_def)

lemma only_init_schedule:
  assumes "only_init s" shows "only_init (schedule T s)"
proof -
  have s: "proc_inv s" "ready (sched_of s) = {0}" "next_pid s = 1" using assms by (simp_all add: only_init_def)
  then have v: "table_ok s" "view_ok (sched_of s)" by (simp_all add: proc_inv_def)
  have "next_pid (schedule T s) = next_pid s" by (rule schedule_keeps(2) [of "\<lambda>_. ()"]) simp_all
  with proc_inv_schedule [OF s(1), of T] schedule_view(1) [OF v(1), of T] rr_step_alone(1) [OF v(2) s(2)] s(3)
  show ?thesis by (simp add: only_init_def)
qed

lemma only_init_first:
  assumes s: "process_table s = (replicate 64 process_zero)[0 := p]" "current_process s = Some 0" "next_pid s = 1" "last_idx s = 0"
    and p: "pid p = 1" "pstate p = PROC_RUNNING" "length (pname p) = 16" "pname p ! 15 = 0"
  shows "only_init s"
proof -
  have r: "proc s i = (if i = 0 then p else process_zero)" if "i < 64" for i
    using that s(1) by (cases i) simp_all
  have R: "ready (sched_of s) = {0}" using r p by (auto simp: sched_of_def runnable_def process_zero_def split: if_splits)
  have "names_ok (process_table s)"
    using s(1) p by (auto simp: names_ok_def list_all_length nth_list_update process_zero_def)
  moreover have "pids_ok 1 (process_table s)"
    using p by (simp add: pids_ok_def s(1) map_update numeral_eq_Suc process_zero_def)
  ultimately show ?thesis
    using s R by (auto simp: only_init_def proc_inv_def table_ok_def view_ok_def sched_of_def intro!: exI [of _ 1])
qed

lemma init_ticks:
  assumes "only_init s"
  shows "only_init (emit ''[INIT] Init completed\<newline>'' [] (for_loop 0 10
    (\<lambda>i s. schedule T (emit ''[INIT] Init tick %d\<newline>'' [int_arg (int i)] s)) s))"
  using for_loop_inv [of "\<lambda>_. only_init" 0 s 10] assms by (simp add: only_init_schedule)

lemma init_process_reach:
  assumes "table_zero s"
  shows "proc_inv (init_process T e s) \<and> ready (sched_of (init_process T e s)) = {0} \<and>
    next_pid (init_process T e s) = 1"
proof -
  have z: "process_table s = replicate 64 process_zero" "next_pid s = 1" "last_idx s = 0"
    using assms by (simp_all add: table_zero_def)
  obtain us where us: "process_table (setup_context i t) = (process_table t)[i := (proc t i)\<lparr>user_stack := us i t\<rparr>]"
    for i and t :: "'a proc_state_scheme"
    using setup_context_table by metis
  have "only_init (init_process T e s)"
    unfolding init_process_def Let_def
    by (rule init_ticks, rule only_init_first, simp add: us z process_zero_def)
      (simp_all add: init_name [simplified] z)
  then show ?thesis by (simp add: only_init_def)
qed

lemma proc_reach_proc_inv: "proc_reach T s \<Longrightarrow> proc_inv s"
proof (induction rule: proc_reach.induct)
  case (start s e)
  then show ?case by (simp add: init_process_reach)
next
  case (step s s')
  from step.hyps(2) show ?case
  proof (cases rule: proc_step.cases)
    case (create e stk n nm)
    then show ?thesis using proc_inv_create [OF step.IH] by simp
  next
    case sched
    then show ?thesis using proc_inv_schedule [OF step.IH] by simp
  next
    case other
    then show ?thesis using step.IH proc_inv_cong by blast
  qed
qed

section \<open>Properties\<close>

text \<open>A zeroed process table to start from.\<close>

definition proc_demo :: proc_state where
  "proc_demo = \<lparr>kmem = (\<lambda>_. 0), klog = [], buddy = buddy_static, slab = slab_static,
     process_table = replicate 64 process_zero, table_base = 0x100000, current_process = None,
     next_pid = 1, last_idx = 0, arm = \<lparr>xr = (\<lambda>_. 0), sp_el0 = 0\<rparr>, x86 = (\<lambda>_. 0)\<rparr>"

lemma proc_demo_zero: "table_zero proc_demo"
  by (simp add: table_zero_def proc_demo_def)

abbreviation proc_booted :: proc_state where
  "proc_booted \<equiv> init_process (X86_64 RDI RDI) 0x4000 proc_demo"

lemmas proc_booted_facts =
  init_process_reach [OF proc_demo_zero, of "X86_64 RDI RDI" "0x4000"]
  proc_reach.start [OF proc_demo_zero, of "X86_64 RDI RDI" "0x4000"]

text \<open>
  C2: the scheduler implements a round robin. Seen as the set of ready slots, the running slot
  and the search position, a call of \<^verbatim>\<open>schedule\<close> moves to the ready slot at the least cyclic
  distance behind the search position; if that is another slot than the running one, the
  running one leaves the ready set. Without a running process, or with none ready, nothing
  changes.
\<close>

theorem schedule_refines_round_robin:
  assumes "table_ok s"
  shows "sched_of (schedule T s) = rr_step (sched_of s)"
  by (rule schedule_view(1) [OF assms])

theorem schedule_refines_round_robin_witness:
  "table_ok proc_booted \<and>
   sched_of (schedule (X86_64 RDI RDI) proc_booted) = rr_step (sched_of proc_booted)"
proof -
  have "table_ok proc_booted" using proc_booted_facts(1) by (simp add: proc_inv_def)
  from schedule_refines_round_robin [OF this] this show ?thesis by simp
qed

text \<open>
  C4: from the end of \<^verbatim>\<open>init_process\<close> on, whatever processes are created and however often
  the scheduler runs, the process table satisfies its invariant: slots are used from the front,
  the slot \<open>i\<close> holds pid \<open>i\<close> except slot 0 with pid 1, the next pid is the number of used
  slots and so at most 64, there is a running process and it is ready, the search position is
  in the table, and every name is a terminated string.
\<close>

theorem process_table_invariant:
  assumes "proc_reach T s"
  shows "proc_inv s"
  by (rule proc_reach_proc_inv [OF assms])

theorem process_table_invariant_witness:
  "proc_inv (snd (create_process 0x5000 0x80000 0x1000 None proc_booted))"
  by (rule process_table_invariant [OF proc_reach.step [OF proc_booted_facts(2) proc_step.create]])

text \<open>
  no ready process waits forever: in a reachable state, each process that is marked
  running becomes the current one within at most 64 calls of \<^verbatim>\<open>schedule\<close>.
\<close>

theorem ready_process_runs:
  assumes "proc_reach T s" "j < 64" "runnable (proc s j)"
  shows "\<exists>k\<le>64. current_process ((schedule T ^^ k) s) = Some j"
proof -
  have i: "table_ok s" "view_ok (sched_of s)" "j \<in> ready (sched_of s)"
    using proc_reach_proc_inv [OF assms(1)] assms(2,3) by (simp_all add: proc_inv_def sched_of_def)
  have "card (ready (sched_of s)) \<le> card {..<64 :: nat}"
    by (rule card_mono) (auto simp: sched_of_def)
  moreover obtain k where "k \<le> card (ready (sched_of s))" "running (sched_of ((schedule T ^^ k) s)) = Some j"
    using sch.fair [OF i] by blast
  ultimately show ?thesis by (intro exI [of _ k]) (simp add: sched_of_def)
qed

theorem ready_process_runs_witness:
  "\<exists>k\<le>64. current_process ((schedule (X86_64 RDI RDI) ^^ k) proc_booted) = Some 0"
proof -
  have "runnable (proc proc_booted 0)"
    using proc_booted_facts(1) by (auto simp: sched_of_def set_eq_iff)
  from ready_process_runs [OF proc_booted_facts(2) _ this] show ?thesis by simp
qed

text \<open>
  C24: the scheduler never returns to a process it switched away from. After 64 calls, and
  after any larger number, exactly one process is ready and it is the current one, however
  many there were: the others have been put to sleep for good.
\<close>

theorem scheduler_settles:
  assumes "proc_reach T s" "64 \<le> k"
  shows "\<exists>c. current_process ((schedule T ^^ k) s) = Some c \<and>
    {i. i < 64 \<and> runnable (proc ((schedule T ^^ k) s) i)} = {c}"
proof -
  have i: "table_ok s" "view_ok (sched_of s)"
    using proc_reach_proc_inv [OF assms(1)] by (simp_all add: proc_inv_def)
  have "card (ready (sched_of s)) \<le> card {..<64 :: nat}"
    by (rule card_mono) (auto simp: sched_of_def)
  then have "card (ready (sched_of s)) \<le> k" using assms(2) by simp
  from sch.settles [OF i this, of T] show ?thesis by (auto simp: sched_of_def)
qed

theorem scheduler_settles_witness:
  "\<exists>c. current_process ((schedule (X86_64 RDI RDI) ^^ 100) proc_booted) = Some c \<and>
    {i. i < 64 \<and> runnable (proc ((schedule (X86_64 RDI RDI) ^^ 100) proc_booted) i)} = {c}"
  by (rule scheduler_settles [OF proc_booted_facts(2)]) simp

text \<open>
  C25: creation in a reachable state. If 64 slots are in use it returns a null pointer, says
  so, and changes nothing else; otherwise it uses the first free slot, whose number is the next
  pid, gives it that pid and the pid of the running process as parent, and marks it ready. The
  first process created gets pid 1, which the init process already has.
\<close>

theorem create_process_result:
  assumes "proc_reach T s"
  shows "create_process e stk n nm s =
      (None, emit ''[PROC] Cannot create process: table full\<newline>'' [] s) \<and> next_pid s = 64 \<or>
    (\<exists>i c. next_pid s = int i \<and> 0 < i \<and> i < 64 \<and> current_process s = Some c \<and>
      fst (create_process e stk n nm s) = Some i \<and>
      process_table (snd (create_process e stk n nm s)) = (process_table s)[i := new_process s i stk n nm] \<and>
      pid (new_process s i stk n nm) = int i \<and> ppid (new_process s i stk n nm) = pid (proc s c) \<and>
      runnable (new_process s i stk n nm) \<and> pid (proc s 0) = 1)"
proof -
  have inv: "proc_inv s" by (rule proc_reach_proc_inv [OF assms])
  then obtain m c where m: "next_pid s = int m" "pids_ok m (process_table s)"
    and c: "current_process s = Some c" "runnable (proc s c)" "c < 64"
    by (auto simp: proc_inv_def view_ok_def sched_of_def)
  have len: "length (process_table s) = 64" and m1: "1 \<le> m" "m \<le> 64"
    using inv m(2) by (simp_all add: proc_inv_def table_ok_def pids_ok_def)
  show ?thesis
  proof (cases "m < 64")
    case False
    then show ?thesis using m m1 pids_ok_free [OF m(2)] create_process_full [of s] by simp
  next
    case True
    then have slot: "find_slot (process_table s) = Some m" using pids_ok_free [OF m(2)] by simp
    have "c \<noteq> m" using c(2) slot by (auto simp: find_slot_Some runnable_def)
    then have "ppid (new_process s m stk n nm) = pid (proc s c)" using c by (simp add: new_process_def)
    moreover have "pid (new_process s m stk n nm) = int m" "runnable (new_process s m stk n nm)"
      using m m1 by (simp_all add: new_process_def runnable_def)
    ultimately show ?thesis
      using create_process_table [OF slot len] m(1) m1 True c(1) pids_ok_nth(2) [OF m(2), of 0]
      by (intro disjI2 exI [of _ m] exI [of _ c]) simp
  qed
qed

theorem create_process_result_witness:
  "fst (create_process 0x5000 0x80000 0x1000 None proc_booted) = Some 1 \<and>
   pid (proc (snd (create_process 0x5000 0x80000 0x1000 None proc_booted)) 1) = 1 \<and>
   pid (proc proc_booted 0) = 1"
proof -
  have "next_pid proc_booted = 1" "length (process_table proc_booted) = 64"
    using proc_booted_facts(1) by (simp_all add: proc_inv_def table_ok_def)
  with create_process_result [OF proc_booted_facts(2), of "0x5000" "0x80000" "0x1000" None]
  show ?thesis by auto
qed

end
