(* ===== verification/Process_Mem.thy ===== *)
theory Process_Mem
  imports Process_Spec
begin

text \<open>
  What process creation and the context switch do to memory.
\<close>

section \<open>The words of a control block\<close>

lemma block_aligned:
  assumes "aligned8 (table_base s)"
  shows "aligned8 (process_addr s i)" "aligned8 (regs_addr s i)" "aligned8 (entry_addr s i)"
    "aligned8 (regs_addr s i + 240)"
proof -
  have "of_nat i * 8520 = (of_nat i * 1065) * (8 :: u64)" by simp
  then have "unat (of_nat i * 8520 :: u64) mod 8 = 0" by (simp only: aligned8_mult)
  then show p: "aligned8 (process_addr s i)"
    unfolding process_addr_def by (rule aligned8_add [OF assms])
  show "aligned8 (entry_addr s i)" unfolding entry_addr_def by (rule aligned8_add [OF p]) simp
  show r: "aligned8 (regs_addr s i)" unfolding regs_addr_def by (rule aligned8_add [OF p]) simp
  show "aligned8 (regs_addr s i + 240)" by (rule aligned8_add [OF r]) simp
qed

text \<open>The frame below the top of a new stack: 31 words.\<close>

abbreviation frame_base :: "u64 \<Rightarrow> u64 \<Rightarrow> u64" where
  "frame_base stk n \<equiv> stk + n - 496"

lemma frame_word: "k < 31 \<Longrightarrow> region (b + 8 * of_nat k) 8 \<subseteq> region b 248"
  by (rule region_sub) (simp add: unat_word_offset [of k 31])

lemma zero_down_mem:
  "kmem (zero_down n (a - 8 * of_nat lo) s) =
    for_loop lo n (\<lambda>i m. store64 m (a - 8 * of_nat (Suc i)) 0) (kmem s)"
proof (induction n arbitrary: lo s)
  case (Suc n)
  have "a - 8 * of_nat lo - 8 = a - 8 * of_nat (Suc lo)" by (simp add: algebra_simps)
  note e = this
  show ?case unfolding zero_down.simps for_loop.simps e
    using Suc.IH [of "Suc lo" "poke64 (a - 8 * of_nat (Suc lo)) 0 s"] by (simp del: of_nat_Suc)
qed simp

lemmas zero_down_mem0 = zero_down_mem [where lo = 0, simplified, folded of_nat_Suc]

lemma frame_word_down:
  assumes "k < 30"
  shows "(b :: u64) + 240 - 8 * of_nat (Suc k) = b + 8 * of_nat (29 - k)"
proof -
  have "k \<le> 29" using assms by simp
  then show ?thesis by (simp add: algebra_simps)
qed

lemma frame_words_differ:
  assumes "j < 31" "k < 31" "j \<noteq> k"
  shows "(b :: u64) + 8 * of_nat j \<noteq> b + 8 * of_nat k"
proof
  assume "b + 8 * of_nat j = b + 8 * of_nat k"
  then have "unat (8 * of_nat j :: u64) = unat (8 * of_nat k :: u64)" by (simp only: add_left_cancel)
  then show False using assms by (simp add: unat_word_offset [of _ 31])
qed

text \<open>The loop that clears the frame, and the word above it.\<close>

definition clear_frame :: "u64 \<Rightarrow> mem \<Rightarrow> mem" where
  "clear_frame b m = for_loop 0 30 (\<lambda>k m. store64 m (b + 240 - 8 * of_nat (Suc k)) 0) m"

lemma clear_frame_words:
  assumes "aligned8 b"
  shows "load64 (clear_frame b m) (b + 8 * of_nat 30) = load64 m (b + 8 * of_nat 30)"
    "k < 30 \<Longrightarrow> load64 (clear_frame b m) (b + 8 * of_nat k) = 0"
proof -
  have al: "aligned8 (b + 8 * of_nat k)" for k :: nat
    using assms aligned8_mult [of "of_nat k"] by (intro aligned8_add) (simp_all add: mult.commute)
  have apart: "region (b + 240 - 8 * of_nat (Suc j)) 8 \<inter> region (b + 8 * of_nat k) 8 = {}"
    if "j < 30" "k < 31" "k \<noteq> 29 - j" for j k
    unfolding frame_word_down [OF that(1)] using that by (intro aligned8_disjoint al frame_words_differ) simp_all
  show "load64 (clear_frame b m) (b + 8 * of_nat 30) = load64 m (b + 8 * of_nat 30)"
    unfolding clear_frame_def by (rule store_loop_outside) (rule apart, simp_all)
  assume k: "k < 30"
  have e: "b + 8 * of_nat k = b + 240 - 8 * of_nat (Suc (29 - k))"
    using frame_word_down [of "29 - k" b] k by simp
  show "load64 (clear_frame b m) (b + 8 * of_nat k) = 0"
    unfolding clear_frame_def e
  proof (rule store_loop_inside)
    show "region (b + 240 - 8 * of_nat (Suc j)) 8 \<inter> region (b + 240 - 8 * of_nat (Suc (29 - k))) 8 = {}"
      if "j < 30" "j \<noteq> 29 - k" for j
      unfolding e [symmetric] using that k by (intro apart) auto
  qed (use k in simp)
qed

lemma clear_frame_outside:
  assumes "region (b :: u64) 248 \<inter> region a 8 = {}"
  shows "load64 (clear_frame b m) a = load64 m a"
  unfolding clear_frame_def
proof (rule store_loop_outside)
  show "region (b + 240 - 8 * of_nat (Suc k)) 8 \<inter> region a 8 = {}" if "k < 30" for k
    unfolding frame_word_down [OF that] using frame_word [of "29 - k" b] assms that by force
qed

text \<open>The memory after a creation.\<close>

lemma create_process_mem:
  assumes "find_slot (process_table s) = Some i"
  shows "kmem (snd (create_process e stk n nm s)) =
    (let m1 = store64 (kmem s) (entry_addr s i) e
     in if stk \<noteq> 0 \<and> 0 < n then
          store64 (store64 (clear_frame (frame_base stk n) (store64 m1 (stk + n - 256) e)) (regs_addr s i) e)
            (regs_addr s i + 240) 0
        else m1)"
proof -
  have "frame_base stk n + 240 = stk + n - 256" by simp
  note f = clear_frame_def [of "frame_base stk n", unfolded this]
  show ?thesis
    using assms unfolding f
    by (simp add: create_process_def Let_def entry_addr_def regs_addr_def zero_down_mem0)
qed

lemma create_process_words:
  fixes s :: "'a proc_state_scheme" and e :: u64 and nm :: "u8 list option"
  assumes slot: "find_slot (process_table s) = Some i" and stk: "stk \<noteq> 0" "0 < n"
    and al: "aligned8 (table_base s)" "aligned8 (stk + n)"
    and dis: "region (process_addr s i) 8520 \<inter> region (frame_base stk n) 248 = {}"
  defines "m \<equiv> kmem (snd (create_process e stk n nm s))"
  shows "load64 m (entry_addr s i) = e" "load64 m (regs_addr s i) = e" "load64 m (regs_addr s i + 240) = 0"
    "load64 m (stk + n - 256) = e" "k < 30 \<Longrightarrow> load64 m (frame_base stk n + 8 * of_nat k) = 0"
proof -
  let ?E = "entry_addr s i" and ?r = "regs_addr s i" and ?F = "frame_base stk n"
  have top: "stk + n - 256 = ?F + 8 * of_nat 30" by simp
  define L where "L = clear_frame ?F (store64 (store64 (kmem s) ?E e) (?F + 8 * of_nat 30) e)"
  have m: "m = store64 (store64 L ?r e) (?r + 240) 0"
    unfolding m_def create_process_mem [OF slot] L_def top using stk by (simp add: Let_def)
  have "aligned8 (stk + n + 0xFFFFFFFFFFFFFE10)" by (rule aligned8_add [OF al(2)]) simp
  moreover have "stk + n + 0xFFFFFFFFFFFFFE10 = ?F" by simp
  ultimately have F: "aligned8 ?F" by (simp only:)
  have blk: "region ?E 8 \<subseteq> region (process_addr s i) 8520" "region ?r 8 \<subseteq> region (process_addr s i) 8520"
      "region (?r + 240) 8 \<subseteq> region (process_addr s i) 8520"
    unfolding entry_addr_def regs_addr_def add.assoc by (rule region_sub; simp)+
  note A = block_aligned [OF al(1), of i]
  have ne: "?r \<noteq> ?E" "?r + 240 \<noteq> ?E" "?r + 240 \<noteq> ?r" by (simp_all add: entry_addr_def regs_addr_def)
  have "region ?F 248 \<inter> region ?E 8 = {}" "region (?F + 8 * of_nat 30) 8 \<inter> region ?E 8 = {}"
    using dis blk(1) frame_word [of 30 ?F] by (blast, force)
  then have "load64 L ?E = e" unfolding L_def by (simp only: clear_frame_outside load64_store64_disjoint load64_store64)
  then show "load64 m ?E = e" unfolding m using A ne by (simp add: load64_store64_aligned)
  show "load64 m ?r = e" unfolding m using A ne by (simp add: load64_store64_aligned)
  show "load64 m (?r + 240) = 0" unfolding m by simp
  have out: "load64 m (?F + 8 * of_nat k) = load64 L (?F + 8 * of_nat k)" if "k < 31" for k
  proof -
    have "region ?r 8 \<inter> region (?F + 8 * of_nat k) 8 = {}" "region (?r + 240) 8 \<inter> region (?F + 8 * of_nat k) 8 = {}"
      using dis blk(2,3) frame_word [OF that, of ?F] by blast+
    then show ?thesis unfolding m by (simp only: load64_store64_disjoint)
  qed
  have o30: "load64 m (?F + 8 * of_nat 30) = load64 L (?F + 8 * of_nat 30)" by (rule out) simp
  show "load64 m (stk + n - 256) = e"
    unfolding top o30 L_def clear_frame_words(1) [OF F] by (rule load64_store64)
  show "load64 m (?F + 8 * of_nat k) = 0" if "k < 30"
    using out [of k] that unfolding L_def clear_frame_words(2) [OF F that] by simp
qed

lemma clear_frame_byte: "x \<notin> region b 248 \<Longrightarrow> clear_frame b m x = m x"
  unfolding clear_frame_def
proof (rule store_loop_byte)
  show "x \<notin> region (b + 240 - 8 * of_nat (Suc k)) 8" if "x \<notin> region b 248" "k < 30" for k
    unfolding frame_word_down [OF that(2)] using frame_word [of "29 - k" b] that by force
qed

lemma create_process_outside:
  assumes slot: "find_slot (process_table s) = Some i"
    and x: "x \<notin> region (entry_addr s i) 8" "x \<notin> region (regs_addr s i) 8"
      "x \<notin> region (regs_addr s i + 240) 8" "x \<notin> region (frame_base stk n) 248"
  shows "kmem (snd (create_process e stk n nm s)) x = kmem s x"
proof -
  have "x \<notin> region (frame_base stk n + 8 * of_nat 30) 8" using frame_word [of 30 "frame_base stk n"] x(4) by force
  then have top: "x \<notin> region (stk + n - 256) 8" by simp
  have o: "store64 m a v x = m x" if "x \<notin> region a 8" for m a v using that by (simp add: store64_outside)
  show ?thesis
    unfolding create_process_mem [OF slot] Let_def
    by (simp only: o [OF x(1)] o [OF x(2)] o [OF x(3)] o [OF top] clear_frame_byte [OF x(4)] split: if_split) simp
qed

text \<open>The three words lie in the control block of the slot, and no other slot changes.\<close>

lemma create_process_block:
  assumes "find_slot (process_table s) = Some i"
    and "x \<notin> region (process_addr s i) 8520 \<union> region (frame_base stk n) 248"
  shows "kmem (snd (create_process e stk n nm s)) x = kmem s x"
proof -
  have "region (entry_addr s i) 8 \<subseteq> region (process_addr s i) 8520" "region (regs_addr s i) 8 \<subseteq> region (process_addr s i) 8520"
      "region (regs_addr s i + 240) 8 \<subseteq> region (process_addr s i) 8520"
    unfolding entry_addr_def regs_addr_def add.assoc by (rule region_sub; simp)+
  with assms(2) show ?thesis by (intro create_process_outside [OF assms(1)]) blast+
qed

lemma create_process_others:
  assumes "find_slot (process_table s) = Some i" "j \<noteq> i"
  shows "proc (snd (create_process e stk n nm s)) j = proc s j"
  using assms by (simp add: create_process_def Let_def)

lemma block_in_table:
  assumes "i < 64"
  shows "region (process_addr s i) 8520 \<subseteq> region (table_base s) (64 * 8520)"
proof -
  have "unat (of_nat i * 8520 :: u64) = i * 8520"
    using assms by (subst unat_mult64) (simp_all add: unat_of_nat64)
  then show ?thesis unfolding process_addr_def using assms by (intro region_sub) simp
qed

section \<open>Setting up\<close>

text \<open>The stack pointer \<^verbatim>\<open>setup_context\<close> gives a process with a user space.\<close>

definition initial_stack :: "process_t \<Rightarrow> u64" where
  "initial_stack p = ((user_space p + user_space_size p) AND NOT 7) - 16"

definition stack_apart :: "'a proc_state_scheme \<Rightarrow> nat \<Rightarrow> bool" where
  "stack_apart s i \<longleftrightarrow> user_space (proc s i) = 0 \<or>
     region (process_addr s i) 8520 \<inter> region (initial_stack (proc s i)) 16 = {}"

text \<open>The words of the block after the registers were cleared and the entry point stored twice.\<close>

lemma setup_regs:
  fixes m :: mem and s :: "'a proc_state_scheme" and i :: nat
  assumes al: "aligned8 (table_base s)"
  defines "R \<equiv> regs_addr s i" and "E \<equiv> entry_addr s i"
  defines "m0 \<equiv> memset m (regs_addr s i) 0 248"
  defines "m1 \<equiv> store64 m0 R (load64 m E)"
  shows "load64 m0 E = load64 m E" "load64 m1 E = load64 m E"
    "load64 (store64 m1 (R + 240) (load64 m E)) (R + slot r) = (if r = RAX then load64 m E else 0)"
proof -
  note A = block_aligned [OF al, of i, folded R_def E_def]
  have E: "E = R + 248" by (simp add: E_def R_def entry_addr_def regs_addr_def)
  have "region E 8 \<inter> region R 248 = {}" unfolding E by (rule region_after) simp
  then show e0: "load64 m0 E = load64 m E" by (intro load64_cong) (auto simp: m0_def R_def memset_apply)
  show e1: "load64 m1 E = load64 m E" unfolding m1_def using A e0 by (simp add: load64_store64_aligned E)
  have ne: "R + 240 \<noteq> R + slot r" using slot_props(1) [of r] by auto
  have al_slot: "aligned8 (R + slot r)" using A(2) slot_props(2) by (rule aligned8_add)
  have "region (R + slot r) 8 \<subseteq> region R 248"
    using slot_props(1) [of r] by (intro region_sub) (simp add: word_le_nat_alt)
  then have z: "load64 m0 (R + slot r) = 0" by (intro load64_zero) (auto simp: m0_def R_def memset_apply)
  have "load64 m1 (R + slot r) = (if r = RAX then load64 m E else 0)"
  proof (cases "r = RAX")
    case True
    then have "R + slot r = R" by (simp add: slot_def)
    with True show ?thesis by (simp add: m1_def)
  next
    case False
    then have "R \<noteq> R + slot r" using slot_inj [of r RAX] by (simp add: slot_def [of RAX])
    with False z A(2) al_slot show ?thesis by (simp add: m1_def load64_store64_aligned)
  qed
  then show "load64 (store64 m1 (R + 240) (load64 m E)) (R + slot r) = (if r = RAX then load64 m E else 0)"
    using load64_store64_aligned [OF A(4) al_slot ne] by simp
qed

lemma setup_context_words:
  assumes al: "aligned8 (table_base s)" and st: "stack_apart s i" and i: "i < length (process_table s)"
  shows "load64 (kmem (setup_context i s)) (regs_addr s i + slot r) = (if r = RAX then peek64 s (entry_addr s i) else 0)"
proof -
  let ?R = "regs_addr s i" and ?E = "entry_addr s i" and ?us = "initial_stack (proc s i)"
  note S = setup_regs [OF al, where i = i and m = "kmem s"]
  define m2 where "m2 = store64 (store64 (memset (kmem s) ?R 0 248) ?R (peek64 s ?E)) (?R + 240) (peek64 s ?E)"
  have k: "kmem (setup_context i s) = (if user_space (proc s i) = 0 then m2 else store64 (store64 m2 (?us + 8) 0) ?us
      (load64 (store64 m2 (?us + 8) 0) ?E))"
    using S(1,2) by (simp add: setup_context_def Let_def initial_stack_def regs_addr_def entry_addr_def m2_def)
  have w: "load64 m2 (?R + slot r) = (if r = RAX then peek64 s ?E else 0)" unfolding m2_def by (rule S(3))
  show ?thesis
  proof (cases "user_space (proc s i) = 0")
    case False
    have "region (?R + slot r) 8 \<subseteq> region (process_addr s i) 8520"
      unfolding regs_addr_def add.assoc
      using slot_props(1) [of r] by (intro region_sub, subst unat_plus64) (simp_all add: word_le_nat_alt)
    moreover have "region (?us + 8) 8 \<subseteq> region ?us 16" "region ?us 8 \<subseteq> region ?us 16"
      using region_sub [of 8 8 16 ?us] region_sub [of 0 8 16 ?us] by simp_all
    moreover have "region (process_addr s i) 8520 \<inter> region ?us 16 = {}" using st False by (simp add: stack_apart_def)
    ultimately have "region ?us 8 \<inter> region (?R + slot r) 8 = {}" "region (?us + 8) 8 \<inter> region (?R + slot r) 8 = {}"
      by blast+
    then show ?thesis unfolding k using False w by (simp add: load64_store64_disjoint)
  qed (simp add: k w)
qed

section \<open>Switching back\<close>

lemma process_addr_cong: "table_base t = table_base s \<Longrightarrow> process_addr t = process_addr s"
  by (simp add: process_addr_def fun_eq_iff)

text \<open>Different control blocks do not share words.\<close>

lemma blocks_differ:
  assumes "c < 64" "n < 64" "c \<noteq> n" "unat k < 8520" "unat l < 8520"
  shows "process_addr s c + k \<noteq> process_addr s n + l"
proof
  assume e: "process_addr s c + k = process_addr s n + l"
  have u: "unat (of_nat j * 8520 + h :: u64) = j * 8520 + unat h" if "j < 64" "unat h < 8520" for j and h :: u64
  proof -
    have "unat (of_nat j * 8520 :: u64) = j * 8520"
      using that by (subst unat_mult64) (simp_all add: unat_of_nat64)
    then show ?thesis using that by (subst unat_plus64) simp_all
  qed
  have "of_nat c * 8520 + k = of_nat n * 8520 + l" using e by (simp add: process_addr_def add.assoc)
  then have "c * 8520 + unat k = n * 8520 + unat l" using u assms by metis
  then have "(c * 8520 + unat k) div 8520 = (n * 8520 + unat l) div 8520" by simp
  then show False using assms by simp
qed

lemma x86_save_outside:
  assumes "aligned8 (c p)" "p \<noteq> RAX" "aligned8 b" "\<And>r. c p + slot r \<noteq> b"
  shows "load64 (snd (x86_run (x86_save p) (c, m))) b = load64 m b"
proof -
  have al: "aligned8 (c p + slot r)" for r using assms(1) slot_props(2) by (rule aligned8_add)
  have stores: "load64 (snd (x86_run (map (\<lambda>r. MOVQ r (slot r) p) rs) (c, m))) b = load64 m b" for rs
    by (induction rs arbitrary: m) (simp_all add: load64_store64_aligned al assms)
  define m1 where "m1 = snd (x86_run (map (\<lambda>r. MOVQ r (slot r) p) saved_order) (c, m))"
  have "x86_run (map (\<lambda>r. MOVQ r (slot r) p) saved_order) (c, m) = (c, m1)"
    by (simp add: m1_def x86_stores_cpu prod_eq_iff)
  then have "snd (x86_run (x86_save p) (c, m)) = store64 m1 (c p + slot RSP) (c RSP + 8)"
    using assms(2) by (simp add: x86_save_eq x86_run_append slot_def [of RSP])
  with stores al assms(3,4) show ?thesis by (simp add: load64_store64_aligned m1_def)
qed

text \<open>Restoring leaves the saved words as they are, when the stack does not reach into them.\<close>

lemma x86_restore_words:
  assumes cl: "stack_clear c (c p)" and p: "p \<noteq> RSP"
  shows "load64 (snd (x86_run (x86_restore p) (c, m))) (c p + slot r) = load64 m (c p + slot r)"
proof -
  let ?st = "x86_run (map (\<lambda>r. PUSHQ (slot r) p) (rev pop_order)) (c, m)"
  have len: "length (rev pop_order) \<le> 15" by (simp add: pop_order_def)
  have "RSP \<notin> set pop_order" by (simp add: all_but_rsp)
  then have "snd (x86_run (map POPQ pop_order) ?st) = snd ?st"
    using x86_pops [OF all_but_rsp(3), of "fst ?st" "snd ?st"] by simp
  then show ?thesis
    unfolding x86_restore_eq x86_run_append using x86_pushes [OF cl p len, of m] by simp
qed

lemma restore_context_x86:
  assumes "q \<noteq> RSP" "stack_clear (x86 s) (regs_addr s n)"
  shows "peek64 (restore_context (X86_64 p q) n s) (regs_addr s n + slot r) = peek64 s (regs_addr s n + slot r)"
proof -
  let ?c = "(x86 s)(q := regs_addr s n)"
  have "stack_clear ?c (?c q)" using assms by (simp add: stack_clear_def)
  from x86_restore_words [OF this assms(1), of "kmem s" r] show ?thesis
    by (simp add: restore_context_def case_prod_beta)
qed

lemma save_context_x86:
  assumes "p \<noteq> RAX" "p \<noteq> RSP" "aligned8 (table_base s)"
  shows "x86 (save_context (X86_64 p q) c s) RSP = x86 s RSP"
    "r \<noteq> RSP \<Longrightarrow> r \<noteq> p \<Longrightarrow> peek64 (save_context (X86_64 p q) c s) (regs_addr s c + slot r) = x86 s r"
    "aligned8 b \<Longrightarrow> (\<And>r. regs_addr s c + slot r \<noteq> b) \<Longrightarrow>
      peek64 (save_context (X86_64 p q) c s) b = peek64 s b"
proof -
  let ?c = "(x86 s)(p := regs_addr s c)"
  have al: "aligned8 (?c p)" using block_aligned(2) [OF assms(3)] by simp
  note S = x86_save_words [where c = ?c and p = p and m = "kmem s", OF al assms(1)]
  show "x86 (save_context (X86_64 p q) c s) RSP = x86 s RSP"
    using S(3) assms(2) by (simp add: save_context_def case_prod_beta)
  show "r \<noteq> RSP \<Longrightarrow> r \<noteq> p \<Longrightarrow> peek64 (save_context (X86_64 p q) c s) (regs_addr s c + slot r) = x86 s r"
    using S(1) [of r] by (simp add: save_context_def case_prod_beta)
  show "aligned8 b \<Longrightarrow> (\<And>r. regs_addr s c + slot r \<noteq> b) \<Longrightarrow>
      peek64 (save_context (X86_64 p q) c s) b = peek64 s b"
    using x86_save_outside [where c = ?c and p = p and b = b and m = "kmem s", OF al assms(1)] by (simp add: save_context_def case_prod_beta)
qed

lemma switch_to_sleeping:
  assumes pq: "p \<noteq> RAX" "p \<noteq> RSP" "q \<noteq> RSP" and al: "aligned8 (table_base s)"
    and n: "n < 64" "c < 64" "c \<noteq> n" "length (process_table s) = 64" "pstate (proc s n) \<noteq> PROC_RUNNING"
    and st: "stack_apart s n" "stack_clear (x86 s) (regs_addr s n)"
  shows "peek64 (context_switch (X86_64 p q) (Some c) (Some n) s) (regs_addr s n + slot r) =
    (if r = RAX then peek64 s (entry_addr s n) else 0)"
proof -
  define s1 where "s1 = emit ''[CTX] Saved context for pid %d ('%s')\<newline>''
    [int_arg (pid (proc s c)), name_arg (proc s c)]
    (upd_proc c (pstate_update (\<lambda>_. PROC_SLEEPING)) (save_context (X86_64 p q) c s))"
  define s2 where "s2 = upd_proc n (pstate_update (\<lambda>_. PROC_RUNNING)) (setup_context n s1)"
  have nm: "name_arg (p\<lparr>pstate := x\<rparr>) = name_arg p" for p x by (simp add: name_arg_def)
  have p1: "proc s1 n = proc s n" "length (process_table s1) = 64" "process_addr s1 = process_addr s"
    "table_base s1 = table_base s" using n by (simp_all add: s1_def)
  have addr: "regs_addr s1 = regs_addr s" "entry_addr s1 = entry_addr s" "regs_addr s2 = regs_addr s"
    using p1(3) process_addr_cong [of s2 s1] by (simp_all add: regs_addr_def entry_addr_def fun_eq_iff s2_def)
  have "regs_addr s c + slot r \<noteq> entry_addr s n" for r
  proof -
    have "unat (slot r) \<le> 120" using slot_props(1) [of r] by (simp add: word_le_nat_alt)
    then have "unat (8232 + slot r) < 8520" by (subst unat_plus64) simp_all
    from blocks_differ [OF n(2,1,3) this, of 8480 s] show ?thesis
      by (simp add: regs_addr_def entry_addr_def add.assoc)
  qed
  then have e: "peek64 s1 (entry_addr s n) = peek64 s (entry_addr s n)"
    using save_context_x86(3) [OF pq(1,2) al block_aligned(3) [OF al]] by (simp add: s1_def)
  have rsp: "x86 s2 RSP = x86 s RSP" using save_context_x86(1) [OF pq(1,2) al] by (simp add: s2_def s1_def)
  have "stack_apart s1 n" using st(1) p1 by (simp add: stack_apart_def)
  then have w: "peek64 s2 (regs_addr s n + slot r) = (if r = RAX then peek64 s (entry_addr s n) else 0)"
    using setup_context_words [of s1 n r] al p1 n(1) addr e by (simp add: s2_def)
  have "context_switch (X86_64 p q) (Some c) (Some n) s =
      (let t = restore_context (X86_64 p q) n s2
       in (emit ''[CTX] Restored context for pid %d ('%s')\<newline>'' [int_arg (pid (proc t n)), name_arg (proc t n)] t)
          \<lparr>current_process := Some n\<rparr>)"
    using n p1(1) by (simp add: context_switch_def Let_def s2_def s1_def nm)
  then have "kmem (context_switch (X86_64 p q) (Some c) (Some n) s) = kmem (restore_context (X86_64 p q) n s2)"
    by (simp add: Let_def)
  moreover have "stack_clear (x86 s2) (regs_addr s2 n)" using st(2) rsp addr by (simp add: stack_clear_def)
  ultimately show ?thesis using restore_context_x86 [OF pq(3), of s2 n p r] w addr by simp
qed

section \<open>Properties\<close>

text \<open>
  C26: what creation writes, when the frame it makes on the new stack is outside the process table.
  The slot's entry point and the first saved register hold the entry
  point, the saved link register 0, and the 31 words that end 248 bytes below the top of the
  stack hold 30 zeros under the entry point. Memory outside the control block of the slot and
  outside these 31 words is unchanged, whatever the size of the stack, and so are the fields of
  every other slot; a stack of less than 496 bytes is therefore written below its start.
\<close>

theorem create_process_writes:
  fixes s :: "'a proc_state_scheme" and e :: u64 and nm :: "u8 list option"
  assumes "find_slot (process_table s) = Some i" "stk \<noteq> 0" "0 < n"
    and "aligned8 (table_base s)" "aligned8 (stk + n)"
    and "region (table_base s) (64 * 8520) \<inter> region (stk + n - 496) 248 = {}"
  defines "s' \<equiv> snd (create_process e stk n nm s)"
  shows "peek64 s' (entry_addr s i) = e \<and> peek64 s' (regs_addr s i) = e \<and> peek64 s' (regs_addr s i + 240) = 0 \<and>
    peek64 s' (stk + n - 256) = e \<and> (\<forall>k<30. peek64 s' (stk + n - 496 + 8 * of_nat k) = 0) \<and>
    (\<forall>x. x \<notin> region (process_addr s i) 8520 \<union> region (stk + n - 496) 248 \<longrightarrow> kmem s' x = kmem s x) \<and>
    (\<forall>j. j \<noteq> i \<longrightarrow> proc s' j = proc s j)"
proof -
  have blk: "region (process_addr s i) 8520 \<subseteq> region (table_base s) (64 * 8520)"
    by (rule block_in_table) (use assms(1) in \<open>auto simp: find_slot_Some\<close>)
  then have dis: "region (process_addr s i) 8520 \<inter> region (stk + n - 496) 248 = {}" using assms(6) by blast
  show ?thesis
    unfolding s'_def
    using create_process_words [OF assms(1-5) dis, where e = e and nm = nm]
      create_process_block [OF assms(1), where stk = stk and n = n and e = e and nm = nm]
      create_process_others [OF assms(1), where stk = stk and n = n and e = e and nm = nm]
    by (simp del: in_region)
qed

theorem create_process_writes_witness:
  "load64 (kmem (snd (create_process 0x5000 0x80000 0x1000 None proc_demo))) 0x80F00 = 0x5000 \<and>
   load64 (kmem (snd (create_process 0x5000 0x80000 0x1000 None proc_demo))) 0x80E18 = 0"
proof -
  have slot: "find_slot (process_table proc_demo) = Some 0"
    by (simp add: find_slot_Some proc_demo_def process_zero_def)
  have dis: "region (table_base proc_demo) (64 * 8520) \<inter> region (0x80000 + 0x1000 - 496) 248 = {}"
  proof -
    have "table_base proc_demo = 0x100000" by (simp add: proc_demo_def)
    then show ?thesis
      using region_interval [of "0x100000" "64 * 8520"] region_interval [of "0x80E10" 248]
      by (auto simp: disjoint_iff simp del: in_region)
  qed
  have al: "aligned8 (table_base proc_demo)" "aligned8 (0x80000 + 0x1000)"
    by (simp_all add: aligned8_def proc_demo_def)
  note W = create_process_writes [OF slot _ _ al dis, of "0x5000" None]
  have "load64 (kmem (snd (create_process 0x5000 0x80000 0x1000 None proc_demo))) (0x80000 + 0x1000 - 256) = 0x5000"
    using W by simp
  moreover have "\<forall>k<30. load64 (kmem (snd (create_process 0x5000 0x80000 0x1000 None proc_demo)))
      (0x80000 + 0x1000 - 496 + 8 * of_nat k) = 0"
    using W by simp
  from this [rule_format, of 1]
  have "load64 (kmem (snd (create_process 0x5000 0x80000 0x1000 None proc_demo))) 0x80E18 = 0" by simp
  ultimately show ?thesis by simp
qed

text \<open>
  C23: on x86-64, switching to a process that is asleep discards the context that was saved when it
  was switched away from. Whatever its control block held, after the switch the block holds its
  entry point in the word of \<^verbatim>\<open>rax\<close>, which the restore takes for the register \<^verbatim>\<open>rax\<close>, and 0
  in the words of the other fifteen registers.
\<close>

theorem switch_discards_saved_context:
  assumes "p \<noteq> RAX" "p \<noteq> RSP" "q \<noteq> RSP" "aligned8 (table_base s)"
    and "n < 64" "c < 64" "c \<noteq> n" "length (process_table s) = 64" "pstate (proc s n) = PROC_SLEEPING"
    and "stack_apart s n" "stack_clear (x86 s) (regs_addr s n)"
  shows "peek64 (context_switch (X86_64 p q) (Some c) (Some n) s) (regs_addr s n + slot r) =
    (if r = RAX then peek64 s (entry_addr s n) else 0)"
  using assms by (intro switch_to_sleeping) simp_all

text \<open>Slot 1 asleep with the entry point \<^verbatim>\<open>0x5000\<close>, and a processor full of other values.\<close>

definition sleeper_demo :: proc_state where
  "sleeper_demo = proc_demo\<lparr>kmem := store64 (\<lambda>_. 0xAA) 0x104268 0x5000,
     process_table := (replicate 64 process_zero)[1 := process_zero\<lparr>pid := 2, pstate := PROC_SLEEPING\<rparr>],
     x86 := (\<lambda>_. 0x9000)\<rparr>"

lemma sleeper_demo_stack: "stack_clear (x86 sleeper_demo) (regs_addr sleeper_demo 1)"
proof -
  have "0x9000 - 8 * of_nat (Suc i) \<noteq> 0x104170 + slot r" if "i < 15" for i r
  proof
    assume e: "0x9000 - 8 * of_nat (Suc i) = 0x104170 + slot r"
    have "unat (8 * of_nat (Suc i) :: u64) = 8 * Suc i" by (rule unat_word_offset [of _ 16]) (use that in simp_all)
    then have "unat (0x9000 - 8 * of_nat (Suc i) :: u64) \<le> 0x9000"
      using that by (subst unat_minus64) (simp_all add: word_le_nat_alt)
    moreover have "unat (0x104170 + slot r) = 0x104170 + unat (slot r)"
      using slot_props(1) [of r] by (subst unat_plus64) (simp_all add: word_le_nat_alt)
    ultimately show False unfolding e by simp
  qed
  then show ?thesis
    by (simp add: stack_clear_def aligned8_def sleeper_demo_def proc_demo_def regs_addr_def process_addr_def)
qed

theorem switch_discards_saved_context_witness:
  "peek64 sleeper_demo 0x104188 = 0xAAAAAAAAAAAAAAAA \<and>
   peek64 (context_switch (X86_64 RDI RDI) (Some 0) (Some 1) sleeper_demo) 0x104188 = 0 \<and>
   peek64 (context_switch (X86_64 RDI RDI) (Some 0) (Some 1) sleeper_demo) 0x104170 = 0x5000"
proof -
  have d: "table_base sleeper_demo = 0x100000" "process_table sleeper_demo =
      (replicate 64 process_zero)[1 := process_zero\<lparr>pid := 2, pstate := PROC_SLEEPING\<rparr>]"
    by (simp_all add: sleeper_demo_def proc_demo_def)
  have e: "entry_addr sleeper_demo 1 = 0x104268" "regs_addr sleeper_demo 1 = 0x104170"
    by (simp_all add: entry_addr_def regs_addr_def process_addr_def d)
  have "stack_apart sleeper_demo 1" "aligned8 (table_base sleeper_demo)"
    by (simp_all add: stack_apart_def d process_zero_def aligned8_def)
  note W = switch_discards_saved_context [where p = RDI and q = RDI and c = 0, OF _ _ _ this(2) _ _ _ _ _ this(1) sleeper_demo_stack]
  have "peek64 sleeper_demo 0x104268 = 0x5000" by (simp add: sleeper_demo_def)
  moreover have "peek64 sleeper_demo 0x104188 = load64 (\<lambda>_. 0xAA) 0x104188"
    unfolding sleeper_demo_def by (simp add: load64_store64_aligned aligned8_def)
  moreover have "load64 (\<lambda>_. 0xAA) 0x104188 = 0xAAAAAAAAAAAAAAAA" by (simp add: load64_def)
  ultimately show ?thesis using W [of RAX] W [of RDX] e by (simp add: d slot_def)
qed

end
