(* ===== verification/Boot.thy ===== *)
theory Boot
  imports Kernel Services_Spec Mm_Init Process_Mem
begin

text \<open>
  The parts of the state that the stages of the start leave alone: the process table before the
  init process is created, and the geometry of the page pool after the memory manager set it.
\<close>

section \<open>What the start leaves alone\<close>

lemma process_keeps_buddy [simp]:
  "buddy (upd_proc i f s) = buddy s" "buddy (save_context T i s) = buddy s" "buddy (restore_context T i s) = buddy s"
  "buddy (setup_context i s) = buddy s" "buddy (context_switch T p n s) = buddy s" "buddy (schedule T s) = buddy s"
proof -
  show u: "buddy (upd_proc i f s) = buddy s" for i f and s :: "'a proc_state_scheme" by (simp add: upd_proc_def)
  show sv: "buddy (save_context T i s) = buddy s" for i and s :: "'a proc_state_scheme"
    by (simp add: save_context_def Let_def split: target.splits prod.splits)
  show rs: "buddy (restore_context T i s) = buddy s" for i and s :: "'a proc_state_scheme"
    by (simp add: restore_context_def Let_def split: target.splits prod.splits)
  show st: "buddy (setup_context i s) = buddy s" for i and s :: "'a proc_state_scheme"
    by (simp add: setup_context_def Let_def u)
  show cs: "buddy (context_switch T p n s) = buddy s" for p n and s :: "'a proc_state_scheme"
    by (simp add: context_switch_def Let_def u sv rs st split: option.split)
  show "buddy (schedule T s) = buddy s" by (simp add: schedule_def Let_def cs split: option.split)
qed

lemma init_process_buddy [simp]: "buddy (init_process T e s) = buddy s"
  by (simp add: init_process_def Let_def for_loop_keeps [where f = buddy])

lemma table_zero_cong:
  "process_table t = process_table s \<Longrightarrow> current_process t = current_process s \<Longrightarrow> next_pid t = next_pid s \<Longrightarrow>
   last_idx t = last_idx s \<Longrightarrow> table_zero t = table_zero s"
  by (simp add: table_zero_def)

lemma table_zero_emit [simp]: "table_zero (emit f as s) = table_zero s"
  by (rule table_zero_cong) simp_all

lemma mm_init_table [simp]: "table_zero (mm_init ke bm s) = table_zero s"
  by (rule table_zero_cong) (simp_all add: mm_init_def Let_def set_free_list_def)

lemma arm_interrupt_init_frames [simp]:
  "table_zero (arm_interrupt_init s) = table_zero s" "buddy (arm_interrupt_init s) = buddy s"
proof -
  have w: "process_table (gic_write r v t) = process_table t" "current_process (gic_write r v t) = current_process t"
    "next_pid (gic_write r v t) = next_pid t" "last_idx (gic_write r v t) = last_idx t" "buddy (gic_write r v t) = buddy t"
    for r v and t :: "'a irq_state_scheme" by (simp_all add: gic_write_def)
  show "table_zero (arm_interrupt_init s) = table_zero s"
    by (rule table_zero_cong) (simp_all add: arm_interrupt_init_def Let_def case_prod_beta gic_read_def w
        for_loop_keeps [where f = process_table] for_loop_keeps [where f = current_process]
        for_loop_keeps [where f = next_pid] for_loop_keeps [where f = last_idx])
  show "buddy (arm_interrupt_init s) = buddy s"
    by (simp add: arm_interrupt_init_def Let_def case_prod_beta gic_read_def w for_loop_keeps [where f = buddy])
qed

lemma x86_interrupt_init_frames [simp]:
  "table_zero (x86_interrupt_init s) = table_zero s" "buddy (x86_interrupt_init s) = buddy s"
  by (simp_all add: x86_interrupt_init_def Let_def table_zero_def)

lemma mmu_init_frames [simp]:
  "table_zero (x86_mmu_init pml4 pdpt pd mb s) = table_zero s"
  "table_zero (arm_mmu_init l0 l1 dtb s) = table_zero s" "buddy (arm_mmu_init l0 l1 dtb s) = buddy s"
  by (simp_all add: x86_mmu_init_def arm_mmu_init_def Let_def table_zero_def
      for_loop_keeps [where f = process_table] for_loop_keeps [where f = current_process]
      for_loop_keeps [where f = next_pid] for_loop_keeps [where f = last_idx] for_loop_keeps [where f = buddy])

lemma stub_inits [simp]:
  "table_zero (fs_init s) = table_zero s" "table_zero (usr_init s) = table_zero s"
  "buddy (fs_init s) = buddy s" "buddy (usr_init s) = buddy s"
  by (simp_all add: fs_init_def usr_init_def)

lemma reach_emit: "proc_reach T s \<Longrightarrow> proc_reach T (emit f as s)"
  by (rule proc_reach.step, assumption, rule proc_step.other) simp_all

end
