(* ===== verification/Frames.thy ===== *)
theory Frames
  imports Boot Messages
begin

text \<open>
  What the operations of each component leave alone. An operation of the page allocator keeps
  the geometry of the pool and every field of the components above it, one of the heap keeps
  every field above the heap, one of \<^verbatim>\<open>process.c\<close> the memory manager's; all of them only add to
  the log. The relations are preorders, so they carry over to sequences of calls.
\<close>

section \<open>The page allocator\<close>

definition buddy_frame :: "'a buddy_state_scheme \<Rightarrow> 'a buddy_state_scheme \<Rightarrow> bool" where
  "buddy_frame s s' \<longleftrightarrow> buddy_state.more s' = buddy_state.more s \<and>
     same_geometry (buddy s) (buddy s') \<and> log_grows (klog s) (klog s')"

lemma buddy_frame_refl [simp]: "buddy_frame s s"
  by (simp add: buddy_frame_def)

lemma buddy_frame_trans: "buddy_frame s t \<Longrightarrow> buddy_frame t u \<Longrightarrow> buddy_frame s u"
  unfolding buddy_frame_def by (metis same_geometry_trans log_grows_trans)

text \<open>The single changes, as rules that add one change to the end of a sequence.\<close>

lemma buddy_frame_emit [simp]: "buddy_frame s t \<Longrightarrow> msg_ok (f, as) \<Longrightarrow> buddy_frame s (emit f as t)"
  by (simp add: buddy_frame_def emit_def)

lemma buddy_frame_kmem [simp]: "buddy_frame s t \<Longrightarrow> buddy_frame s (t\<lparr>kmem := m\<rparr>)"
  by (auto simp: buddy_frame_def)

lemma buddy_frame_stores [simp]:
  assumes "buddy_frame s t"
  shows "buddy_frame s (poke64 a v t)" "buddy_frame s (kmemset p c n t)"
  using assms by (simp_all add: poke64_def kmemset_def)

lemma buddy_frame_fields [simp]:
  assumes "buddy_frame s t"
  shows "buddy_frame s (set_free_list k p t)" "buddy_frame s (add_free_count n t)"
  using assms by (auto simp: buddy_frame_def same_geometry_def set_free_list_def add_free_count_def)

lemma buddy_frame_mark [simp]: "buddy_frame s t \<Longrightarrow> buddy_frame s (mark_pages p n v t)"
  by (induction n arbitrary: p t) (simp_all add: buddy_set_allocated_def Let_def)

lemma split_block_buddy_frame [simp]: "buddy_frame s t \<Longrightarrow> buddy_frame s (snd (split_block f k b t))"
proof (induction f arbitrary: b t)
  case 0
  then show ?case by (simp add: split_block.simps)
next
  case (Suc f)
  then show ?case by (simp add: split_block.simps [of "Suc f"] Let_def)
qed

lemma alloc_pages_frame: "buddy_frame s (snd (alloc_pages k s))"
  by (simp add: alloc_pages_def Let_def case_prod_beta msg_eval)

lemma unlink_frame:
  assumes "unlink k a p c s = Some s'"
  shows "buddy_frame s s'"
  by (rule unlink.raw_induct [OF _ assms, where P = "\<lambda>_ _ _ _. buddy_frame"]) (auto split: if_splits)

lemma coalesce_cases:
  assumes "coalesce k p s = Some (c, q, s')"
  obtains "s' = s"
  | b where "s' = add_free_count (push_bit k 1) (mark_pages b (2 ^ k) False s)"
  | b x h u r where "k < MAX_ORDER_BITS"
      "unlink k x 0 h (add_free_count (push_bit k 1) (mark_pages b (2 ^ k) False s)) = Some u"
      "coalesce (Suc k) r u = Some (c, q, s')"
  using assms unfolding coalesce.simps [of k p s] Let_def
  by (simp split: if_splits option.splits) blast+

lemma coalesce_frame: "coalesce k p s = Some (c, q, s') \<Longrightarrow> buddy_frame s s'"
proof (induction "MAX_ORDER_BITS - k" arbitrary: k p s rule: less_induct)
  case less
  from less.prems show ?case
  proof (cases rule: coalesce_cases)
    case (3 b x h u r)
    then have "buddy_frame u s'" by (intro less.hyps) simp_all
    moreover have "buddy_frame s (add_free_count (push_bit k 1) (mark_pages b (2 ^ k) False s))"
      by (simp del: push_bit_of_1)
    ultimately show ?thesis using unlink_frame [OF 3(2)] by (blast intro: buddy_frame_trans)
  qed simp_all
qed

lemma free_pages_frame: "free_pages p k s = Some s' \<Longrightarrow> buddy_frame s s'"
  by (auto simp: free_pages_def Let_def msg_eval split: if_splits option.splits dest!: coalesce_frame)


section \<open>The heap\<close>

text \<open>A heap on an allocator that was never set up: it has no slab, and no page to make one of.\<close>

definition no_memory :: "'a mm_state_scheme \<Rightarrow> bool" where
  "no_memory s \<longleftrightarrow> \<not> initialized (buddy s) \<and> slabs (slab s) = 0"

definition mm_frame :: "'a mm_state_scheme \<Rightarrow> 'a mm_state_scheme \<Rightarrow> bool" where
  "mm_frame s s' \<longleftrightarrow> mm_state.more s' = mm_state.more s \<and>
     same_geometry (buddy s) (buddy s') \<and> log_grows (klog s) (klog s') \<and> (no_memory s \<longrightarrow> no_memory s')"

lemma mm_frame_refl [simp]: "mm_frame s s"
  by (simp add: mm_frame_def)

lemma mm_frame_trans: "mm_frame s t \<Longrightarrow> mm_frame t u \<Longrightarrow> mm_frame s u"
  unfolding mm_frame_def by (metis same_geometry_trans log_grows_trans)

lemma buddy_mm_frame: "buddy_frame s s' \<Longrightarrow> mm_frame s s'" for s :: "'a mm_state_scheme"
  by (cases s; cases s') (simp add: buddy_frame_def mm_frame_def no_memory_def same_geometry_def)

lemma mm_frame_steps [simp]:
  assumes "mm_frame s t"
  shows "msg_ok (f, as) \<Longrightarrow> mm_frame s (emit f as t)" "mm_frame s (t\<lparr>kmem := m\<rparr>)"
    "mm_frame s (poke64 a v t)" "mm_frame s (poke8 a w t)" "mm_frame s (kmemset p c n t)" "mm_frame s (kmemcpy d p n t)"
    "slabs g = slabs (slab t) \<or> initialized (buddy s) \<Longrightarrow> mm_frame s (t\<lparr>slab := g\<rparr>)"
  using assms
  by (auto simp: mm_frame_def emit_def poke64_def poke8_def kmemset_def kmemcpy_def no_memory_def)

lemmas mm_pages_frame = buddy_mm_frame [OF alloc_pages_frame] buddy_mm_frame [OF free_pages_frame]

lemma slab_take_mm_frame: "mm_frame s (snd (slab_take p s))"
  by (simp add: slab_take_def Let_def)

lemma slab_new_mm_frame: "mm_frame s t \<Longrightarrow> initialized (buddy s) \<Longrightarrow> mm_frame s (snd (slab_new p t))"
  by (simp add: slab_new_def Let_def)

lemma alloc_pages_initialized: "alloc_pages k s = (Some p, s') \<Longrightarrow> initialized (buddy s)"
  by (auto simp: alloc_pages_def split: if_splits)

lemma slab_alloc_frame:
  assumes "slab_alloc s = Some (p, s')"
  shows "mm_frame s s'"
proof -
  obtain b where b: "slab_with_free (kmem s) (slabs (slab s)) = Some b"
    using assms by (auto simp: slab_alloc_def split: option.splits)
  show ?thesis
  proof (cases "b \<noteq> 0")
    case True
    with assms b slab_take_mm_frame [of s b] show ?thesis by (simp add: slab_alloc_def)
  next
    case False
    obtain r s1 where r: "alloc_pages 0 s = (r, s1)" by fastforce
    have "mm_frame s s1" using mm_pages_frame(1) [of s 0] r by simp
    show ?thesis
    proof (cases r)
      case None
      with \<open>mm_frame s s1\<close> False assms b r show ?thesis by (simp add: slab_alloc_def) (auto simp: msg_eval)
    next
      case (Some q)
      with alloc_pages_initialized [of 0 s q s1] r have "initialized (buddy s)" by simp
      from slab_new_mm_frame [OF \<open>mm_frame s s1\<close> this, of q] Some False assms b r show ?thesis
        by (simp add: slab_alloc_def)
    qed
  qed
qed

lemma slab_free_frame: "slab_free p s = Some s' \<Longrightarrow> mm_frame s s'"
  by (auto simp: slab_free_def Let_def split: option.splits if_splits)

lemma kmalloc_frame: "kmalloc n s = Some (p, s') \<Longrightarrow> mm_frame s s'"
  by (auto simp: kmalloc_def Let_def split: option.splits if_splits dest!: slab_alloc_frame)

lemma kfree_frame: "kfree p s = Some s' \<Longrightarrow> mm_frame s s'"
  by (auto simp: kfree_def split: if_splits dest!: slab_free_frame)

lemma krealloc_frame: "krealloc p n s = Some (q, s') \<Longrightarrow> mm_frame s s'"
  unfolding krealloc_def Let_def
  by (auto split: option.splits if_splits dest!: kmalloc_frame kfree_frame)
    (blast intro: mm_frame_trans mm_frame_steps(6))+

lemma wrapper_frames:
  "mm_frame s (snd (phys_alloc n s))" "mm_frame s (snd (stack_alloc n s))" "mm_frame s (snd (page_alloc s))"
  "phys_free p n s = Some s' \<Longrightarrow> mm_frame s s'" "stack_free p s = Some s' \<Longrightarrow> mm_frame s s'"
  "page_free p s = Some s' \<Longrightarrow> mm_frame s s'"
proof -
  show "mm_frame s (snd (phys_alloc n s))" "mm_frame s (snd (stack_alloc n s))"
    using mm_pages_frame(1) [of s]
    by (auto simp: phys_alloc_def stack_alloc_def Let_def split: prod.split option.split) (metis snd_conv mm_frame_steps(5))+
qed (auto simp: page_alloc_def phys_free_def stack_free_def page_free_def Let_def
    split: if_splits intro: mm_pages_frame)


text \<open>
  Initialising the page allocator a second time. Where no memory has been set up it fails, since it
  takes the bitmap from the heap, which needs pages.
\<close>

lemma no_memory_kmalloc:
  assumes "no_memory s"
  shows "\<exists>t. kmalloc n s = Some (0, t)"
proof -
  have "slabs (slab s) = 0" "alloc_pages 0 s = (None, emit ''[BUDDY] Not initialized!\<newline>'' [] s)"
    using assms by (simp_all add: alloc_pages_def no_memory_def)
  then show ?thesis by (simp add: kmalloc_def slab_alloc_def slab_with_free.simps Let_def)
qed

lemma buddy_init_frame:
  assumes "buddy_init start n s = Some (b, s')"
  shows "mm_state.more s' = mm_state.more s" "length (free_lists (buddy s')) = length (free_lists (buddy s))"
    "log_grows (klog s) (klog s')" "no_memory s \<Longrightarrow> \<not> b \<and> no_memory s'"
proof -
  define s1 where "s1 = s\<lparr>buddy := (buddy s)\<lparr>pool_start := start, pool_pages := n, free_count := n,
    bitmap_words := (n + 63) div 64\<rparr>\<rparr>"
  have s1: "mm_state.more s1 = mm_state.more s" "length (free_lists (buddy s1)) = length (free_lists (buddy s))"
    "klog s1 = klog s" "no_memory s1 = no_memory s" by (simp_all add: s1_def no_memory_def)
  have "b = False \<and> s' = emit ''[BUDDY] Invalid page count: %zu\<newline>'' [VWord n] s \<or>
      (\<exists>p s2. kmalloc (bitmap_words (buddy s1) * 8) s1 = Some (p, s2) \<and> mm_state.more s' = mm_state.more s2 \<and>
        length (free_lists (buddy s')) = length (free_lists (buddy s2)) \<and> log_grows (klog s2) (klog s') \<and>
        (p = 0 \<longrightarrow> \<not> b \<and> (no_memory s2 \<longrightarrow> no_memory s')))"
    using assms unfolding buddy_init_def s1_def [symmetric] Let_def
    by (auto simp: set_free_list_def kmemset_def emit_def no_memory_def msg_eval split: if_splits option.splits)
  then consider "b = False" "s' = emit ''[BUDDY] Invalid page count: %zu\<newline>'' [VWord n] s"
    | p s2 where "kmalloc (bitmap_words (buddy s1) * 8) s1 = Some (p, s2)" "mm_state.more s' = mm_state.more s2"
      "length (free_lists (buddy s')) = length (free_lists (buddy s2))" "log_grows (klog s2) (klog s')"
      "p = 0 \<longrightarrow> \<not> b \<and> (no_memory s2 \<longrightarrow> no_memory s')" by blast
  then have "mm_state.more s' = mm_state.more s \<and> length (free_lists (buddy s')) = length (free_lists (buddy s)) \<and>
      log_grows (klog s) (klog s') \<and> (no_memory s \<longrightarrow> \<not> b \<and> no_memory s')"
  proof cases
    case 1
    then show ?thesis by (simp add: emit_def no_memory_def msg_eval)
  next
    case (2 p s2)
    from kmalloc_frame [OF 2(1)] have m: "mm_frame s1 s2" .
    have "p = 0" if "no_memory s" using no_memory_kmalloc [of s1 "bitmap_words (buddy s1) * 8"] that s1(4) 2(1) by auto
    with 2 m s1 show ?thesis by (auto simp: mm_frame_def same_geometry_def intro: log_grows_trans)
  qed
  then show "mm_state.more s' = mm_state.more s" "length (free_lists (buddy s')) = length (free_lists (buddy s))"
    "log_grows (klog s) (klog s')" "no_memory s \<Longrightarrow> \<not> b \<and> no_memory s'" by blast+
qed

section \<open>Processes\<close>

definition proc_frame :: "'a proc_state_scheme \<Rightarrow> 'a proc_state_scheme \<Rightarrow> bool" where
  "proc_frame s s' \<longleftrightarrow> proc_state.more s' = proc_state.more s \<and> buddy s' = buddy s \<and> slab s' = slab s \<and>
     table_base s' = table_base s \<and> log_grows (klog s) (klog s')"

lemma proc_frame_refl [simp]: "proc_frame s s"
  by (simp add: proc_frame_def)

lemma proc_frame_steps [simp]:
  assumes "proc_frame s t"
  shows "msg_ok (f, as) \<Longrightarrow> proc_frame s (emit f as t)" "proc_frame s (poke64 a v t)" "proc_frame s (kmemset p c n t)"
    "proc_frame s (upd_proc i g t)" "proc_frame s (t\<lparr>current_process := cp\<rparr>)"
    "proc_frame s (t\<lparr>last_idx := l\<rparr>)" "proc_frame s (t\<lparr>next_pid := np\<rparr>)"
    "proc_frame s (save_context T i t)" "proc_frame s (restore_context T i t)"
  using assms
  by (auto simp: proc_frame_def emit_def poke64_def kmemset_def upd_proc_def save_context_def restore_context_def
      Let_def split: target.split prod.split)

lemma zero_down_frame [simp]: "proc_frame s t \<Longrightarrow> proc_frame s (zero_down n a t)"
  by (induction n arbitrary: a t) simp_all

lemma setup_context_frame [simp]: "proc_frame s t \<Longrightarrow> proc_frame s (setup_context i t)"
  by (simp add: setup_context_def Let_def msg_eval)

lemma context_switch_frame [simp]: "proc_frame s t \<Longrightarrow> proc_frame s (context_switch T p n t)"
  by (simp add: context_switch_def Let_def msg_eval split: option.split)

lemma schedule_frame: "proc_frame s (schedule T s)"
  by (simp add: schedule_def Let_def msg_eval split: option.split)

lemma create_process_frame: "proc_frame s (snd (create_process e stk n nm s))"
  by (simp add: create_process_def Let_def msg_eval split: option.split)

lemma init_process_frame: "proc_frame s (init_process T e s)"
proof -
  have t: "proc_frame u (schedule T t)" if "proc_frame u t" for t u :: "'a proc_state_scheme"
    using schedule_frame [of t T] that unfolding proc_frame_def by (metis log_grows_trans)
  let ?tick = "''[INIT] Init tick %d\<newline>''"
  have "proc_frame s (for_loop lo n (\<lambda>i t. schedule T (emit ?tick [int_arg (int i)] t)) t)" if "proc_frame s t" for lo n t
    using that by (rule for_loop_inv [where P = "\<lambda>_. proc_frame s"]) (simp_all add: t msg_eval)
  then show ?thesis by (simp add: init_process_def Let_def msg_eval)
qed

end
