(* ===== verification/Calls.thy ===== *)
theory Calls
  imports Frames
begin

text \<open>
  The kernel as one transition system. The functions through which a processor, a device or
  other code enters the modelled components and which change the kernel's state are calls, and so
  are stores by any code; a run is a sequence of calls that return. The interface
  \<open>call_relation\<close> carries a relation on states from the single calls to all runs.

  Not calls are \<^verbatim>\<open>mmu_enable\<close> and \<^verbatim>\<open>kernel_main\<close>, which make the state the runs start from and never
  return, the functions that only compute or read (such as \<^verbatim>\<open>buddy_free_pages\<close>), and those that touch
  nothing but the serial device (the driver, \<^verbatim>\<open>getchar\<close>, and \<^verbatim>\<open>printk\<close> with a caller's own format).
\<close>

section \<open>Calls\<close>

text \<open>
  The functions that set up a part of the kernel, or a half of what another function does:
  \<^verbatim>\<open>context_switch\<close> is called by the scheduler, \<^verbatim>\<open>mmu_init\<close> by \<^verbatim>\<open>mmu_enable\<close>, \<^verbatim>\<open>init_process\<close> and
  \<^verbatim>\<open>mm_init\<close> by \<^verbatim>\<open>kernel_main\<close>, \<^verbatim>\<open>buddy_init\<close> by nothing. They have external linkage, so other code can
  call them too. A control block is given by its place in the table; switching to one outside it is
  undefined.
\<close>

datatype setup_call =
    Context_Switch "nat option" "nat option"
  | Init_Process u64
  | Mm_Init u64 u64
  | Buddy_Init u64 u64
  | X86_Mmu_Init u64 u64 u64 u64
  | Arm_Mmu_Init u64 u64 u64

fun setup_step :: "target \<Rightarrow> setup_call \<Rightarrow> 'a mmu_state_scheme \<Rightarrow> 'a mmu_state_scheme option" where
  "setup_step T (Context_Switch p n) s =
     (if pred_option (\<lambda>i. i < MAX_PROCESSES) p \<and> pred_option (\<lambda>i. i < MAX_PROCESSES) n
      then Some (context_switch T p n s) else None)"
| "setup_step T (Init_Process e) s = Some (init_process T e s)"
| "setup_step T (Mm_Init kernel_end bm) s = Some (mm_init kernel_end bm s)"
| "setup_step T (Buddy_Init start n) s = map_option snd (buddy_init start n s)"
| "setup_step T (X86_Mmu_Init pml4 pdpt pd mb) s = Some (x86_mmu_init pml4 pdpt pd mb s)"
| "setup_step T (Arm_Mmu_Init l0 l1 dtb) s = Some (arm_mmu_init l0 l1 dtb s)"

datatype kcall =
    Syscall u64 u64 u64 u64 u64 u64 u64
  | Arm_Irq u64
  | X86_Irq u64
  | Arm_Exception u64 u64 u64
  | X86_Exception u64 u64 u64 u64
  | Panic string
  | Irq_Register int u64
  | Irq_Unregister int
  | Irq_Enable int
  | Irq_Disable int
  | Arm_Interrupt_Init
  | X86_Interrupt_Init
  | Create u64 u64 u64 "u8 list option"
  | Schedule
  | Usr_Init
  | Alloc_Pages u32
  | Free_Pages u64 u32
  | Page_Alloc
  | Page_Free u64
  | Phys_Alloc u64
  | Phys_Free u64 u64
  | Stack_Alloc u64
  | Stack_Free u64
  | Kmalloc u64
  | Kfree u64
  | Krealloc u64 u64
  | Kmalloc_Simple u64
  | Fs_Init
  | Vfs_Mount string string string
  | Vfs_Read int u64 u64
  | Vfs_Write int u64 u64
  | Vfs_Open string int
  | Vfs_Close int
  | Vfs_Lseek int int int
  | Printf u64 u64 string "va list"
  | Fprintf u64 string
  | Fgets u64 int u64
  | Putchar u32
  | Store u64 "u8 list"
  | Setup setup_call

text \<open>
  What a call does to the kernel's state and to the device of the serial line: nothing at all
  (the value \<open>None\<close>) when it does not return or is undefined. System calls, \<^verbatim>\<open>printf\<close> and
  \<^verbatim>\<open>putchar\<close> write to the line themselves, and all their output is on the device; the messages of
  the other calls are in the log. \<open>Store\<close> stands for the functions of \<^verbatim>\<open>string.c\<close> and any other code that
  stores bytes into memory.
\<close>

abbreviation ret :: "'d \<Rightarrow> 's \<Rightarrow> ('s \<times> 'd) outcome option" where
  "ret d s \<equiv> Some (Returns (s, d))"

fun printed :: "fmt_error + nat \<times> 's \<Rightarrow> 's outcome option" where
  "printed (Inl e) = None"
| "printed (Inr (n, st)) = Some (Returns st)"

fun kernel_call ::
  "(char \<Rightarrow> 'd \<Rightarrow> 'd option) \<Rightarrow> (nat \<Rightarrow> nat \<Rightarrow> char) \<Rightarrow> (u64 \<Rightarrow> u32 \<Rightarrow> 'a mmu_state_scheme \<Rightarrow> 'a mmu_state_scheme) \<Rightarrow>
   target \<Rightarrow> kcall \<Rightarrow> 'a mmu_state_scheme \<times> 'd \<Rightarrow> ('a mmu_state_scheme \<times> 'd) outcome option" where
  "kernel_call putc g run T (Syscall n a1 a2 a3 a4 a5 a6) (s, d) = syscall_handler putc g n a1 a2 a3 a4 a5 a6 (s, d)"
| "kernel_call putc g run T (Arm_Irq vec) (s, d) = Some (map_outcome (\<lambda>s. (s, d)) (arm_handle_irq run vec s))"
| "kernel_call putc g run T (X86_Irq vec) (s, d) = ret d (x86_handle_irq vec s)"
| "kernel_call putc g run T (Arm_Exception esr far sp) (s, d) =
     Some (map_outcome (\<lambda>s. (s, d)) (arm_handle_exception run esr far sp s))"
| "kernel_call putc g run T (X86_Exception cr vec code rip) (s, d) =
     Some (map_outcome (\<lambda>s. (s, d)) (x86_handle_exception cr vec code rip s))"
| "kernel_call putc g run T (Panic msg) (s, d) = Some (map_outcome (\<lambda>s. (s, d)) (kpanic msg s))"
| "kernel_call putc g run T (Irq_Register n h) (s, d) = ret d (snd (irq_register n h s))"
| "kernel_call putc g run T (Irq_Unregister n) (s, d) = ret d (snd (irq_unregister n s))"
| "kernel_call putc g run T (Irq_Enable n) (s, d) = ret d (irq_enable n s)"
| "kernel_call putc g run T (Irq_Disable n) (s, d) = ret d (irq_disable n s)"
| "kernel_call putc g run T Arm_Interrupt_Init (s, d) = ret d (arm_interrupt_init s)"
| "kernel_call putc g run T X86_Interrupt_Init (s, d) = ret d (x86_interrupt_init s)"
| "kernel_call putc g run T (Create e stk n nm) (s, d) = ret d (snd (create_process e stk n nm s))"
| "kernel_call putc g run T Schedule (s, d) = ret d (schedule T s)"
| "kernel_call putc g run T Usr_Init (s, d) = ret d (usr_init s)"
| "kernel_call putc g run T (Alloc_Pages k) (s, d) = ret d (snd (alloc_pages k s))"
| "kernel_call putc g run T (Free_Pages p k) (s, d) = Option.bind (free_pages p k s) (ret d)"
| "kernel_call putc g run T Page_Alloc (s, d) = ret d (snd (page_alloc s))"
| "kernel_call putc g run T (Page_Free p) (s, d) = Option.bind (page_free p s) (ret d)"
| "kernel_call putc g run T (Phys_Alloc n) (s, d) = ret d (snd (phys_alloc n s))"
| "kernel_call putc g run T (Phys_Free p n) (s, d) = Option.bind (phys_free p n s) (ret d)"
| "kernel_call putc g run T (Stack_Alloc n) (s, d) = ret d (snd (stack_alloc n s))"
| "kernel_call putc g run T (Stack_Free p) (s, d) = Option.bind (stack_free p s) (ret d)"
| "kernel_call putc g run T (Kmalloc n) (s, d) = Option.bind (kmalloc n s) (\<lambda>(_, t). ret d t)"
| "kernel_call putc g run T (Kfree p) (s, d) = Option.bind (kfree p s) (ret d)"
| "kernel_call putc g run T (Krealloc p n) (s, d) = Option.bind (krealloc p n s) (\<lambda>(_, t). ret d t)"
| "kernel_call putc g run T (Kmalloc_Simple n) (s, d) = ret d (snd (kmalloc_simple n s))"
| "kernel_call putc g run T Fs_Init (s, d) = ret d (fs_init s)"
| "kernel_call putc g run T (Vfs_Mount v p y) (s, d) = ret d (snd (vfs_mount v p y s))"
| "kernel_call putc g run T (Vfs_Read f p n) (s, d) = ret d (snd (vfs_read f p n s))"
| "kernel_call putc g run T (Vfs_Write f p n) (s, d) = ret d (snd (vfs_write f p n s))"
| "kernel_call putc g run T (Vfs_Open p f) (s, d) = ret d (snd (vfs_open p f s))"
| "kernel_call putc g run T (Vfs_Close f) (s, d) = ret d (snd (vfs_close f s))"
| "kernel_call putc g run T (Vfs_Lseek f p w) (s, d) = ret d (snd (vfs_lseek f p w s))"
| "kernel_call putc g run T (Printf buf out fmt ap) (s, d) =
     Option.bind (printf putc g buf out fmt ap (s, d)) printed"
| "kernel_call putc g run T (Fprintf f fmt) (s, d) = ret d (snd (fprintf f fmt s))"
| "kernel_call putc g run T (Fgets p n f) (s, d) = ret d (snd (fgets p n f s))"
| "kernel_call putc g run T (Putchar c) (s, d) = Option.bind (putchar putc c d) (\<lambda>(_, d'). ret d' s)"
| "kernel_call putc g run T (Store p bs) (s, d) = ret d (s\<lparr>kmem := write_bytes (kmem s) p bs\<rparr>)"
| "kernel_call putc g run T (Setup c) (s, d) = Option.bind (setup_step T c s) (ret d)"

text \<open>
  A run: the calls made, from the first state to the last. A call that halts or is undefined ends it.
  \<open>G\<close> are the addresses of the variables that the model keeps as fields and not in memory. No
  call of the kernel refers to them by address, but a stray pointer may, and what happens then is
  outside the model: a call that changes memory there is not a step of a run.
\<close>

inductive kernel_run ::
  "u64 set \<Rightarrow> (char \<Rightarrow> 'd \<Rightarrow> 'd option) \<Rightarrow> (nat \<Rightarrow> nat \<Rightarrow> char) \<Rightarrow>
   (u64 \<Rightarrow> u32 \<Rightarrow> 'a mmu_state_scheme \<Rightarrow> 'a mmu_state_scheme) \<Rightarrow> target \<Rightarrow>
   'a mmu_state_scheme \<times> 'd \<Rightarrow> kcall list \<Rightarrow> 'a mmu_state_scheme \<times> 'd \<Rightarrow> bool" for G putc g run T where
  none: "kernel_run G putc g run T st [] st"
| call: "kernel_call putc g run T c st = Some (Returns st1) \<Longrightarrow> \<forall>x\<in>G. kmem (fst st1) x = kmem (fst st) x \<Longrightarrow>
    kernel_run G putc g run T st1 cs st2 \<Longrightarrow> kernel_run G putc g run T st (c # cs) st2"

inductive_simps kernel_run_simps:
  "kernel_run G putc g run T st [] st'"
  "kernel_run G putc g run T st (c # cs) st'"

text \<open>
  A registered interrupt handler is kernel code too: what it does to the state is a run of calls
  from the set \<open>C\<close>, in which further interrupts have no handler.
\<close>

definition handlers_call ::
  "u64 set \<Rightarrow> kcall set \<Rightarrow> (char \<Rightarrow> 'd \<Rightarrow> 'd option) \<Rightarrow> (nat \<Rightarrow> nat \<Rightarrow> char) \<Rightarrow> target \<Rightarrow>
   (u64 \<Rightarrow> u32 \<Rightarrow> 'a mmu_state_scheme \<Rightarrow> 'a mmu_state_scheme) \<Rightarrow> bool" where
  "handlers_call G C putc g T run \<longleftrightarrow>
     (\<forall>h n s. \<exists>cs d d'. set cs \<subseteq> C \<and> kernel_run G putc g (\<lambda>_ _ t. t) T (s, d) cs (run h n s, d'))"

lemma handlers_call_mono: "handlers_call G C putc g T run \<Longrightarrow> C \<subseteq> D \<Longrightarrow> handlers_call G D putc g T run"
  unfolding handlers_call_def by blast

text \<open>The state a call leaves, whether it returns, halts the processor or reads behind a table.\<close>

primrec left_by :: "'s outcome \<Rightarrow> 's" where
  "left_by (Returns s) = s"
| "left_by (Halts s) = s"
| "left_by (OutOfBounds s) = s"

lemma left_by_map [simp]: "left_by (map_outcome f r) = f (left_by r)"
  by (cases r) simp_all

lemma left_by_printed: "printed r = Some q \<Longrightarrow> \<exists>n. r = Inr (n, left_by q)"
  by (cases r rule: printed.cases) auto

section \<open>Relations between the states of a run\<close>

text \<open>
  The interface through which a relation on states is carried to all runs: a preorder that holds
  for the changes the memory manager, the interrupt code and the early allocator make, and for
  creation, scheduling and the setting up of parts if those are among the calls \<open>C\<close> considered.
\<close>

locale call_relation =
  fixes R :: "'a mmu_state_scheme \<Rightarrow> 'a mmu_state_scheme \<Rightarrow> bool" and C :: "kcall set" and T :: target
  assumes refl: "R s s"
    and trans: "R s t \<Longrightarrow> R t u \<Longrightarrow> R s u"
    and heap: "mm_frame s t \<Longrightarrow> R s t"
    and table: "length hs = length (irq_dispatch_table s) \<Longrightarrow> R s (s\<lparr>irq_dispatch_table := hs\<rparr>)"
    and gic: "R s (s\<lparr>gic := dg\<rparr>)"
    and ports: "R s (s\<lparr>ports := dp\<rparr>)"
    and early: "R s (snd (kmalloc_simple n s))"
    and create: "Create e stk n nm \<in> C \<Longrightarrow> R s (snd (create_process e stk n nm s))"
    and sched: "Schedule \<in> C \<Longrightarrow> R s (schedule T s)"
    and set_up: "Setup c \<in> C \<Longrightarrow> setup_step T c s = Some t \<Longrightarrow> R s t"
begin

lemma logged: "R s t \<Longrightarrow> msg_ok (f, as) \<Longrightarrow> R s (emit f as t)"
  by (erule trans, rule heap) simp

lemma stored: "R s t \<Longrightarrow> R s (t\<lparr>kmem := m\<rparr>)"
  by (erule trans, rule heap) simp

lemma acknowledged: "R s (snd (gic_read r s))" "R s t \<Longrightarrow> R s (gic_write r v t)"
  by (auto simp: gic_read_def gic_write_def case_prod_beta intro: gic trans)

lemma kprinted: "kprint putc g f as (t, d) = Some st \<Longrightarrow> R s t \<Longrightarrow> msg_ok (f, as) \<Longrightarrow> R s (fst st)"
  using kprint_cases(1) [of putc g f as "(t, d)" st] by (simp add: logged)

lemma syscall_switch:
  assumes "syscall_body putc g n a1 a2 a3 (s, d) = Some (r, s', d')"
  shows "R s s'"
  using assms trans [OF logged [OF refl] early]
  by (auto simp: syscall_body_def kprint_def Let_def case_prod_beta bind_eq_Some_conv refl logged msg_eval split: if_splits)

lemma syscall:
  assumes "syscall_handler putc g n a1 a2 a3 a4 a5 a6 (s, d) = Some r"
  shows "R s (fst (left_by r))"
proof (cases "n = SYS_EXIT")
  case True
  with assms obtain st where "kprint putc g ''[SYSCALL] exit(%ld)\<newline>'' [VWord a1] (s, d) = Some st" "r = Halts st"
    by (auto simp: syscall_handler_def)
  then show ?thesis using kprinted [OF _ refl, of putc g _ _ s d st] by (auto simp: msg_eval)
next
  case False
  with assms obtain v s1 d1 st where "syscall_body putc g n a1 a2 a3 (s, d) = Some (v, s1, d1)" "r = Returns st"
    "kprint putc g ''[SYSCALL] syscall %ld returned %ld\<newline>'' [VWord n, VWord (scast v)] (s1, d1) = Some st"
    by (auto simp: syscall_handler_def bind_eq_Some_conv)
  then show ?thesis using kprinted [OF _ syscall_switch, of putc g _ _ s1 d1 st putc g n a1 a2 a3 s d v] by (auto simp: msg_eval)
qed

lemma halted: "R s t \<Longrightarrow> R s (left_by (kpanic msg t))"
  by (simp add: kpanic_def panic_calls_def logged msg_eval)

lemma irq:
  assumes "\<And>h n s. R s (run h n s)"
  shows "R s (left_by (arm_handle_irq run vec s))"
proof -
  let ?r = "gic_read (gic_reg GICC_BASE GICC_IAR) s"
  let ?w = "gic_write (gic_reg GICC_BASE GICC_EOIAR) (fst ?r) (snd ?r)"
  have "R s (snd ?r)" "R s ?w" using acknowledged by blast+
  moreover from this have "R s (run h n ?w)" for h n using assms trans by blast
  ultimately show ?thesis by (simp add: arm_handle_irq_def Let_def case_prod_beta)
qed

lemma exception:
  assumes "\<And>h n s. R s (run h n s)"
  shows "R s (left_by (arm_handle_exception run esr far sp s))"
proof -
  define s1 where "s1 = emit ''[EXC] ESR=0x%lx, FAR=0x%lx\<newline>'' [VWord esr, VWord far] s"
  have 1: "R s s1" unfolding s1_def by (rule logged [OF refl]) (simp add: msg_eval)
  have "R s (emit ''[EXC] IRQ\<newline>'' [] s1)" by (rule logged [OF 1]) (simp add: msg_eval)
  from trans [OF this irq [OF assms]] 1 show ?thesis
    unfolding arm_handle_exception_def s1_def [symmetric] by (simp add: Let_def halted logged msg_eval)
qed

lemma formatted:
  assumes "printf putc g buf out fmt ap (s, d) = Some (Inr (n, st))"
  shows "R s (fst st)"
  using assms
  by (auto simp: printf_def vfs_write_def Let_def refl logged stored msg_eval split: if_splits sum.splits prod.splits)

lemma controllers: "R s (arm_interrupt_init s)" "R s (x86_interrupt_init s)"
proof -
  have w: "R s (for_loop lo n (\<lambda>i. gic_write (a i) v) t)" if "R s t" for lo n a v t
    using that by (rule for_loop_inv [where P = "\<lambda>_. R s"]) (rule acknowledged)
  show "R s (arm_interrupt_init s)"
    by (simp add: arm_interrupt_init_def Let_def case_prod_beta acknowledged w logged msg_eval)
  have "R s (t\<lparr>ports := v\<rparr>)" if "R s t" for t v using that ports trans by blast
  then show "R s (x86_interrupt_init s)"
    by (simp add: x86_interrupt_init_def Let_def refl logged msg_eval)
qed

lemma service:
  "R s (snd (irq_register n h s))" "R s (snd (irq_unregister n s))" "R s (irq_enable n s)" "R s (irq_disable n s)"
  "R s (x86_handle_irq v s)" "R s (left_by (x86_handle_exception cr v code rip s))"
  "R s (snd (vfs_mount dev mnt ty s))" "R s (snd (vfs_read fd p k s))" "R s (snd (vfs_write fd p k s))"
  "R s (snd (vfs_open nm fl s))" "R s (snd (vfs_close fd s))" "R s (snd (vfs_lseek fd off w s))"
  "R s (fs_init s)" "R s (usr_init s)" "R s (snd (fprintf f fmt s))" "R s (snd (fgets p i f s))"
  by (simp_all add: irq_register_def irq_unregister_def irq_enable_def irq_disable_def x86_handle_irq_def
      x86_handle_exception_def halted vfs_mount_def vfs_read_def vfs_write_def vfs_open_def vfs_close_def
      vfs_lseek_def fs_init_def usr_init_def fprintf_def fgets_def Let_def refl logged table msg_eval)

lemmas heap_results = mm_pages_frame(1) [THEN heap] wrapper_frames(1-3) [THEN heap]

lemmas heap_calls = mm_pages_frame(2) [THEN heap] wrapper_frames(4-6) [THEN heap] kmalloc_frame [THEN heap]
  kfree_frame [THEN heap] krealloc_frame [THEN heap]

lemma one_call:
  assumes "kernel_call putc g run T c (s, d) = Some r" "c \<in> C" "\<And>h n s. R s (run h n s)"
  shows "R s (fst (left_by r))"
  using assms(1,2)
  by (cases c)
    (auto simp: bind_eq_Some_conv service refl early create sched halted controllers stored heap_results
       irq [OF assms(3)] exception [OF assms(3)] dest!: left_by_printed intro: formatted heap_calls syscall set_up)

lemma runs:
  assumes "kernel_run G putc g run T st cs st'" "set cs \<subseteq> C" "\<And>h n s. R s (run h n s)"
  shows "R (fst st) (fst st')"
  using assms
proof (induction rule: kernel_run.induct)
  case (call c st st1 cs st2)
  then have "R (fst st) (fst st1)" using one_call [of putc g run c "fst st" "snd st"] by simp
  moreover have "R (fst st1) (fst st2)" using call.prems by (intro call.IH) simp_all
  ultimately show ?case by (rule trans)
qed (rule refl)

lemma handled:
  assumes "handlers_call G C putc g T run"
  shows "R s (run h n s)"
proof -
  obtain cs d d' where "set cs \<subseteq> C" "kernel_run G putc g (\<lambda>_ _ t. t) T (s, d) cs (run h n s, d')"
    using assms unfolding handlers_call_def by blast
  from runs [OF this(2,1) refl] show ?thesis by simp
qed

lemma kernel_runs:
  assumes "kernel_run G putc g run T (s, d) cs (s', d')" "handlers_call G C putc g T run" "set cs \<subseteq> C"
  shows "R s s'"
  using runs [OF assms(1,3) handled [OF assms(2)]] by simp

end

end
