(* ===== verification/System.thy ===== *)
theory System
  imports Calls
begin

text \<open>
  What holds along the runs of the kernel. Five relations on states are carried from the single
  calls to all runs: the sizes of the tables and the printable log, which every call respects; what
  no call but those that set up a part of the kernel changes; the absence of memory, which only
  \<^verbatim>\<open>mm_init\<close> ends; the identity of processes; and what the calls other than the scheduler leave
  alone. Then fairness, and the states the start leaves.
\<close>

section \<open>Fields above those a call changes\<close>

lemma mm_frame_above:
  fixes s :: "'a mmu_state_scheme"
  assumes "mm_frame s t"
  shows "process_table t = process_table s" "table_base t = table_base s" "current_process t = current_process s"
    "next_pid t = next_pid s" "last_idx t = last_idx s" "irq_dispatch_table t = irq_dispatch_table s"
    "ttbr0_el1 t = ttbr0_el1 s" "sctlr_el1 t = sctlr_el1 s" "cr3 t = cr3 s" "alloc_ptr t = alloc_ptr s"
  using assms by (cases s; cases t; simp add: mm_frame_def)+

lemma proc_frame_above:
  fixes s :: "'a mmu_state_scheme"
  assumes "proc_frame s t"
  shows "irq_dispatch_table t = irq_dispatch_table s" "ttbr0_el1 t = ttbr0_el1 s" "sctlr_el1 t = sctlr_el1 s"
    "cr3 t = cr3 s" "alloc_ptr t = alloc_ptr s"
  using assms by (cases s; cases t; simp add: proc_frame_def)+

lemma page_offset_add: "p + (n AND - 4096) AND 4095 = p AND (4095 :: u64)"
proof -
  have m: "(4095 :: u64) = mask 12" "(- 4096 :: u64) = NOT (mask 12)"
    by (simp_all add: mask_eq_exp_minus_1)
  have "p + ((n AND NOT (mask 12)) AND mask 12) AND mask 12 = p + (n AND NOT (mask 12)) AND mask 12"
    by (rule mask_eqs)
  moreover have "(n AND NOT (mask 12)) AND mask 12 = 0" by (simp add: and.assoc)
  ultimately show ?thesis by (simp only: m add_0_right)
qed

section \<open>What every call respects\<close>

text \<open>
  The sizes of the tables: 64 processes, with the search position and the current process among
  them, 256 interrupt handlers, ten free lists; and the early allocator at a page boundary.
\<close>

definition kernel_typed :: "'a mmu_state_scheme \<Rightarrow> bool" where
  "kernel_typed s \<longleftrightarrow> length (process_table s) = MAX_PROCESSES \<and> last_idx s < MAX_PROCESSES \<and>
     pred_option (\<lambda>i. i < MAX_PROCESSES) (current_process s) \<and>
     length (irq_dispatch_table s) = MAX_IRQ_HANDLERS \<and> length (free_lists (buddy s)) = MAX_ORDER_BITS \<and>
     alloc_ptr s AND 0xFFF = 0"

definition tables_kept :: "'a mmu_state_scheme \<Rightarrow> 'a mmu_state_scheme \<Rightarrow> bool" where
  "tables_kept s s' \<longleftrightarrow> log_grows (klog s) (klog s') \<and> (kernel_typed s \<longrightarrow> kernel_typed s')"

lemma tables_kept_trans: "tables_kept s t \<Longrightarrow> tables_kept t u \<Longrightarrow> tables_kept s u"
  unfolding tables_kept_def by (blast intro: log_grows_trans)

lemma tables_kept_same:
  assumes "length (process_table t) = length (process_table s)" "current_process t = current_process s"
    "last_idx t = last_idx s" "length (irq_dispatch_table t) = length (irq_dispatch_table s)"
    "length (free_lists (buddy t)) = length (free_lists (buddy s))" "alloc_ptr t AND 0xFFF = alloc_ptr s AND 0xFFF"
    "log_grows (klog s) (klog t)"
  shows "tables_kept s t"
  using assms by (simp add: tables_kept_def kernel_typed_def)

lemma switch_lengths [simp]:
  "length (process_table (setup_context i s)) = length (process_table s)"
  "length (process_table (context_switch T p n s)) = length (process_table s)"
  "length (process_table (schedule T s)) = length (process_table s)"
  "length (process_table (snd (create_process e stk k nm s))) = length (process_table s)"
  by (simp_all add: setup_context_def context_switch_def schedule_def create_process_def Let_def split: option.split)

lemma next_runnable_bound: "next_runnable ps l = Some n \<Longrightarrow> n < MAX_PROCESSES"
  by (auto simp: next_runnable_def find_Some_iff MAX_PROCESSES_def)

lemma switch_tables:
  assumes "pred_option (\<lambda>i. i < MAX_PROCESSES) n"
  shows "tables_kept s (context_switch T p n s)"
proof -
  note f = context_switch_frame [OF proc_frame_refl, of s T p n]
  have "last_idx (context_switch T p n s) = last_idx s"
    "current_process (context_switch T p n s) = (if p = None \<and> n = None then current_process s else n)"
    by (simp_all add: context_switch_def Let_def split: option.split)
  with f assms proc_frame_above [OF f] show ?thesis
    by (simp add: tables_kept_def kernel_typed_def proc_frame_def)
qed

lemma schedule_tables: "tables_kept s (schedule T s)"
proof -
  note f = schedule_frame [of s T]
  have "last_idx (schedule T s) < MAX_PROCESSES \<and> pred_option (\<lambda>i. i < MAX_PROCESSES) (current_process (schedule T s))"
    if "last_idx s < MAX_PROCESSES" "pred_option (\<lambda>i. i < MAX_PROCESSES) (current_process s)"
    using that next_runnable_bound [of "process_table s" "last_idx s"]
    by (auto simp: schedule_def Let_def context_switch_def split: option.split)
  with f proc_frame_above [OF f] show ?thesis by (simp add: tables_kept_def kernel_typed_def proc_frame_def)
qed

lemma create_tables: "tables_kept s (snd (create_process e stk n nm s))"
proof -
  note f = create_process_frame [of s e stk n nm]
  have "current_process (snd (create_process e stk n nm s)) = current_process s"
    "last_idx (snd (create_process e stk n nm s)) = last_idx s"
    by (simp_all add: create_process_def Let_def split: option.split)
  with f proc_frame_above [OF f] show ?thesis by (intro tables_kept_same) (simp_all add: proc_frame_def)
qed

text \<open>The single changes of \<^verbatim>\<open>init_process\<close>, as rules that add one change to the end of a sequence.\<close>

lemma tables_kept_steps:
  assumes "tables_kept s t"
  shows "msg_ok (f, as) \<Longrightarrow> tables_kept s (emit f as t)" "tables_kept s (poke64 a v t)" "tables_kept s (upd_proc i h t)"
    "tables_kept s (t\<lparr>current_process := Some 0\<rparr>)" "tables_kept s (setup_context i t)" "tables_kept s (schedule T t)"
proof -
  show "msg_ok (f, as) \<Longrightarrow> tables_kept s (emit f as t)" "tables_kept s (poke64 a v t)" "tables_kept s (upd_proc i h t)"
    "tables_kept s (t\<lparr>current_process := Some 0\<rparr>)"
    using assms by (simp_all add: tables_kept_def kernel_typed_def MAX_PROCESSES_def emit_def poke64_def upd_proc_def)
  note f = setup_context_frame [OF proc_frame_refl, of t i]
  have "tables_kept t (setup_context i t)"
    using f proc_frame_above [OF f] by (intro tables_kept_same) (simp_all add: proc_frame_def)
  with assms show "tables_kept s (setup_context i t)" by (rule tables_kept_trans)
  from assms schedule_tables show "tables_kept s (schedule T t)" by (rule tables_kept_trans)
qed

lemma init_tables: "tables_kept s (init_process T e s)"
proof -
  have "tables_kept s (for_loop lo n (\<lambda>i t. schedule T (emit ''[INIT] Init tick %d\<newline>'' [int_arg (int i)] t)) t)"
    if "tables_kept s t" for lo n t
    using that by (rule for_loop_inv [where P = "\<lambda>_. tables_kept s"]) (simp add: tables_kept_steps msg_eval)
  moreover have "tables_kept s s" by (simp add: tables_kept_def)
  ultimately show ?thesis by (simp add: init_process_def Let_def tables_kept_steps msg_eval)
qed

lemma mmu_init_tables:
  "tables_kept s (x86_mmu_init pml4 pdpt pd mb s)" "tables_kept s (arm_mmu_init l0 l1 dtb s)"
  by (rule tables_kept_same;
      simp add: x86_mmu_init_def arm_mmu_init_def Let_def for_loop_keeps [where f = process_table]
        for_loop_keeps [where f = current_process] for_loop_keeps [where f = last_idx] for_loop_keeps [where f = klog]
        for_loop_keeps [where f = "\<lambda>t. length (irq_dispatch_table t)"] for_loop_keeps [where f = "\<lambda>t. free_lists (buddy t)"]
        for_loop_keeps [where f = alloc_ptr] poke64_def kmemset_def emit_def msg_eval)+

lemma memory_tables:
  fixes s :: "'a mmu_state_scheme"
  shows "tables_kept s (mm_init ke bm s)" "buddy_init p n s = Some (b, t) \<Longrightarrow> tables_kept s t"
proof -
  show "tables_kept s (mm_init ke bm s)"
    by (rule tables_kept_same) (simp_all add: mm_init_def set_free_list_def kmemset_def emit_def Let_def msg_eval)
  assume "buddy_init p n s = Some (b, t)"
  note b = buddy_init_frame [OF this]
  show "tables_kept s t" using b by (cases s; cases t) (auto intro!: tables_kept_same)
qed

interpretation typed: call_relation tables_kept UNIV T for T
proof unfold_locales
  show "setup_step T c s = Some t \<Longrightarrow> tables_kept s t" for c and s t :: "'b mmu_state_scheme"
    by (cases c) (auto simp: switch_tables init_tables mmu_init_tables intro: memory_tables split: if_splits)
  show "mm_frame s t \<Longrightarrow> tables_kept s t" for s t :: "'b mmu_state_scheme"
    using mm_frame_above [of s t] by (intro tables_kept_same) (simp_all add: mm_frame_def same_geometry_def)
  show "tables_kept s (snd (kmalloc_simple n s))" for n and s :: "'b mmu_state_scheme"
    by (rule tables_kept_same) (simp_all add: kmalloc_simple_def Let_def page_offset_add)
  show "tables_kept s t \<Longrightarrow> tables_kept t u \<Longrightarrow> tables_kept s u" for s t u :: "'b mmu_state_scheme"
    by (rule tables_kept_trans)
qed (simp_all add: create_tables schedule_tables tables_kept_same)

section \<open>What only setting up changes\<close>

text \<open>
  Calls other than those that set up a part of the kernel. The pool of the page allocator stays where the start put it, the tables keep their places and
  sizes, the translation registers their values, the early allocator its alignment, and the log
  only grows.
\<close>

definition kernel_frame :: "'a mmu_state_scheme \<Rightarrow> 'a mmu_state_scheme \<Rightarrow> bool" where
  "kernel_frame s s' \<longleftrightarrow> same_geometry (buddy s) (buddy s') \<and> log_grows (klog s) (klog s') \<and>
     table_base s' = table_base s \<and> length (irq_dispatch_table s') = length (irq_dispatch_table s) \<and>
     ttbr0_el1 s' = ttbr0_el1 s \<and> sctlr_el1 s' = sctlr_el1 s \<and> cr3 s' = cr3 s \<and>
     alloc_ptr s' AND 0xFFF = alloc_ptr s AND 0xFFF"

lemma proc_kernel_frame: "proc_frame s t \<Longrightarrow> kernel_frame s t"
  using proc_frame_above [of s t] by (simp add: kernel_frame_def proc_frame_def)

interpretation frame: call_relation kernel_frame "- range Setup" T for T
proof unfold_locales
  show "kernel_frame s t \<Longrightarrow> kernel_frame t u \<Longrightarrow> kernel_frame s u" for s t u :: "'b mmu_state_scheme"
    unfolding kernel_frame_def by (metis same_geometry_trans log_grows_trans)
  show "mm_frame s t \<Longrightarrow> kernel_frame s t" for s t :: "'b mmu_state_scheme"
    using mm_frame_above [of s t] by (simp add: kernel_frame_def mm_frame_def)
qed (simp_all add: kernel_frame_def kmalloc_simple_def Let_def page_offset_add
    proc_kernel_frame [OF create_process_frame, unfolded kernel_frame_def]
    proc_kernel_frame [OF schedule_frame, unfolded kernel_frame_def])

section \<open>No memory\<close>

text \<open>Only \<^verbatim>\<open>mm_init\<close> gives a kernel without memory any.\<close>

definition barren :: "'a mm_state_scheme \<Rightarrow> 'a mm_state_scheme \<Rightarrow> bool" where
  "barren s s' \<longleftrightarrow> (no_memory s \<longrightarrow> no_memory s')"

abbreviation not_mm_init :: "kcall set" where
  "not_mm_init \<equiv> {c. \<forall>ke bm. c \<noteq> Setup (Mm_Init ke bm)}"

lemma proc_frame_barren: "proc_frame s t \<Longrightarrow> barren s t"
  by (simp add: barren_def proc_frame_def no_memory_def)

lemma mmu_init_barren: "barren s (x86_mmu_init pml4 pdpt pd mb s)" "barren s (arm_mmu_init l0 l1 dtb s)"
  by (simp_all add: barren_def no_memory_def x86_mmu_init_def arm_mmu_init_def Let_def poke64_def kmemset_def emit_def
      for_loop_keeps [where f = buddy] for_loop_keeps [where f = slab])

lemma buddy_init_barren: "buddy_init p n s = Some (b, t) \<Longrightarrow> barren s t"
  by (auto simp: barren_def dest: buddy_init_frame(4))

interpretation empty: call_relation barren not_mm_init T for T
proof unfold_locales
  show "Setup c \<in> not_mm_init \<Longrightarrow> setup_step T c s = Some t \<Longrightarrow> barren s t" for c and s t :: "'b mmu_state_scheme"
    by (cases c) (auto simp: mmu_init_barren proc_frame_barren init_process_frame dest: buddy_init_barren split: if_splits)
  show "mm_frame s t \<Longrightarrow> barren s t" for s t :: "'b mmu_state_scheme" by (simp add: barren_def mm_frame_def)
qed (simp_all add: proc_frame_barren [OF create_process_frame] proc_frame_barren [OF schedule_frame], 
  simp_all add: barren_def no_memory_def kmalloc_simple_def Let_def)


section \<open>Processes along a run\<close>

text \<open>
  Reachable process tables stay reachable, process numbers are never taken back, and a process
  keeps its number, parent, name and memory for good.
\<close>

definition identity :: "process_t \<Rightarrow> int \<times> int \<times> u8 list \<times> u64 \<times> u64" where
  "identity p = (pid p, ppid p, pname p, user_space p, user_space_size p)"

definition processes_live :: "target \<Rightarrow> 'a proc_state_scheme \<Rightarrow> 'a proc_state_scheme \<Rightarrow> bool" where
  "processes_live T s s' \<longleftrightarrow> (proc_reach T s \<longrightarrow> proc_reach T s' \<and> next_pid s \<le> next_pid s' \<and>
     (\<forall>i<64. pid (proc s i) \<noteq> 0 \<longrightarrow> identity (proc s' i) = identity (proc s i)))"

lemma proc_reach_length: "proc_reach T s \<Longrightarrow> length (process_table s) = 64"
  by (drule proc_reach_proc_inv) (simp add: proc_inv_def table_ok_def)

lemma processes_live_trans:
  assumes "processes_live T s t" "processes_live T t u"
  shows "processes_live T s u"
proof -
  have "identity (proc u i) = identity (proc s i)"
    if "proc_reach T s" "i < 64" "pid (proc s i) \<noteq> 0" for i
  proof -
    have "identity (proc t i) = identity (proc s i)" using assms(1) that by (simp add: processes_live_def)
    moreover from this have "pid (proc t i) \<noteq> 0" using that(3) by (simp add: identity_def)
    ultimately show ?thesis using assms that by (simp add: processes_live_def)
  qed
  then show ?thesis using assms by (auto simp: processes_live_def)
qed

lemma processes_live_same:
  assumes "process_table t = process_table s" "current_process t = current_process s" "next_pid t = next_pid s"
    "last_idx t = last_idx s"
  shows "processes_live T s t"
  using assms proc_reach.step [of T s t] by (simp add: processes_live_def proc_step.other)

lemma create_lives: "processes_live T s (snd (create_process e stk n nm s))"
proof -
  let ?t = "snd (create_process e stk n nm s)"
  have "next_pid s \<le> next_pid ?t \<and> (\<forall>i<64. pid (proc s i) \<noteq> 0 \<longrightarrow> identity (proc ?t i) = identity (proc s i))"
    if "length (process_table s) = 64"
  proof (cases "find_slot (process_table s)")
    case None
    then show ?thesis by (simp add: create_process_full)
  next
    case (Some i)
    with create_process_table [OF Some that, of e stk n nm] that show ?thesis
      by (auto simp: find_slot_Some nth_list_update)
  qed
  then show ?thesis
    by (auto simp: processes_live_def intro: proc_reach_length proc_reach.step proc_step.create)
qed

lemma schedule_lives: "processes_live T s (schedule T s)"
proof -
  have m: "map identity (process_table (schedule T s)) = map identity (process_table s)"
    by (rule schedule_keeps(1)) (simp_all add: identity_def)
  then have "length (process_table (schedule T s)) = length (process_table s)" by (rule map_eq_imp_length_eq)
  with m have "identity (proc (schedule T s) i) = identity (proc s i)" if "i < length (process_table s)" for i
    using that by (metis nth_map)
  moreover have "next_pid (schedule T s) = next_pid s" by (rule schedule_keeps(2) [of "\<lambda>_. ()"]) simp_all
  ultimately show ?thesis
    by (auto simp: processes_live_def proc_reach_length intro: proc_reach.step proc_step.sched)
qed

interpretation live: call_relation "processes_live T" "- range Setup" T for T
  by unfold_locales
    (erule processes_live_trans, assumption |
     simp add: processes_live_same mm_frame_above create_lives schedule_lives kmalloc_simple_def Let_def)+

text \<open>A call other than the scheduler moves neither the running process nor the search position.\<close>

definition sched_kept :: "'a proc_state_scheme \<Rightarrow> 'a proc_state_scheme \<Rightarrow> bool" where
  "sched_kept s s' \<longleftrightarrow> current_process s' = current_process s \<and> last_idx s' = last_idx s \<and>
     (table_ok s \<longrightarrow> table_ok s' \<and> ready (sched_of s) \<subseteq> ready (sched_of s'))"

lemma sched_kept_same:
  assumes "process_table t = process_table s" "current_process t = current_process s" "last_idx t = last_idx s"
  shows "sched_kept s t"
  using assms by (simp add: sched_kept_def table_ok_def sched_of_def)

lemma create_sched_kept: "sched_kept s (snd (create_process e stk n nm s))"
proof (cases "find_slot (process_table s)")
  case None
  then show ?thesis by (simp add: create_process_full sched_kept_same)
next
  case (Some i)
  then show ?thesis
    using create_process_table(1) [OF Some, of e stk n nm]
    by (auto simp: sched_kept_def table_ok_def sched_of_def find_slot_Some nth_list_update runnable_def)
qed

interpretation kept: call_relation sched_kept "- insert Schedule (range Setup)" T for T
proof unfold_locales
  show "sched_kept s t \<Longrightarrow> sched_kept t u \<Longrightarrow> sched_kept s u" for s t u :: "'b mmu_state_scheme"
    by (auto simp: sched_kept_def)
qed (simp_all add: sched_kept_same mm_frame_above create_sched_kept kmalloc_simple_def Let_def)


section \<open>Fairness\<close>

text \<open>
  A round of the round robin brings the search position closer to every ready slot it does not
  reach, whatever slots have become ready in between.
\<close>

lemma cdist_closer:
  assumes "l < 64" "n < 64" "j < 64" "cdist l n < cdist l j"
  shows "cdist n j < cdist l j"
proof -
  have n: "n = (l + 1 + cdist l n) mod 64" and j: "j = (l + 1 + cdist l j) mod 64"
    using assms cdist_inv(1) [OF assms(1)] by auto
  let ?k = "cdist l j - cdist l n - 1"
  have "(n + 1 + ?k) mod 64 = ((l + 1 + cdist l n) mod 64 + (1 + ?k)) mod 64"
    by (subst n [symmetric]) (simp only: add.assoc)
  also have "\<dots> = (l + 1 + cdist l n + (1 + ?k)) mod 64" by (rule mod_add_left_eq)
  also have "\<dots> = j" using assms(4) by (subst j) simp
  finally have "cdist n j = ?k"
    using cdist_inv(2) [OF assms(2), of ?k] cdist_inv(3) [OF assms(1), of j] by simp
  then show ?thesis using assms(4) by simp
qed

lemma rr_step_closer:
  assumes "view_ok v" "j \<in> ready v" "running v \<noteq> Some j"
  shows "running (rr_step v) = Some j \<or>
    j \<in> ready (rr_step v) \<and> cdist (cursor (rr_step v)) j < cdist (cursor v) j"
proof -
  note v = view_ok_ready [OF assms(1)]
  obtain c where c: "c \<in> ready v" "running v = Some c" using assms(1) by (auto simp: view_ok_def)
  let ?n = "rr_next (cursor v) (ready v)"
  have n: "?n \<in> ready v" "cdist (cursor v) ?n \<le> cdist (cursor v) j"
    using rr_next_least [OF v] assms(2) by auto
  have lt: "?n < 64" "j < 64" using n(1) assms(2) v(3) by auto
  show ?thesis
  proof (cases "?n = j")
    case True
    then show ?thesis using c assms v(2) by (auto simp: rr_step_def Let_def)
  next
    case False
    have "cdist (cursor v) ?n \<noteq> cdist (cursor v) j"
      using False cdist_inv(1) [OF v(4) lt(1)] cdist_inv(1) [OF v(4) lt(2)] by metis
    then have "cdist ?n j < cdist (cursor v) j" using n(2) by (intro cdist_closer v(4) lt) simp
    then show ?thesis using c assms v(2) by (auto simp: rr_step_def Let_def)
  qed
qed

lemma schedule_closer:
  assumes "proc_inv s" "j \<in> ready (sched_of s)" "current_process s \<noteq> Some j"
  shows "current_process (schedule T s) = Some j \<or>
    j \<in> ready (sched_of (schedule T s)) \<and> cdist (last_idx (schedule T s)) j < cdist (last_idx s) j"
proof -
  have "table_ok s" "view_ok (sched_of s)" using assms(1) by (simp_all add: proc_inv_def)
  from rr_step_closer [OF this(2) assms(2)] schedule_view(1) [OF this(1), of T, symmetric] assms(3)
  show ?thesis by (simp add: sched_of_def)
qed

text \<open>Where in a run of calls the process in slot \<open>j\<close> is the current one.\<close>

definition gets_to_run where
  "gets_to_run G putc g run T st cs st' j \<longleftrightarrow> (\<exists>cs1 cs2 st1. cs = cs1 @ cs2 \<and> kernel_run G putc g run T st cs1 st1 \<and>
     kernel_run G putc g run T st1 cs2 st' \<and> current_process (fst st1) = Some j)"

lemma gets_to_run_now:
  "kernel_run G putc g run T st cs st' \<Longrightarrow> current_process (fst st) = Some j \<Longrightarrow> gets_to_run G putc g run T st cs st' j"
  unfolding gets_to_run_def by (intro exI [of _ "[]"] exI [of _ cs] exI [of _ st]) (simp add: kernel_run.none)

lemma gets_to_run_later:
  assumes "kernel_call putc g run T c st = Some (Returns st1)" "\<forall>x\<in>G. kmem (fst st1) x = kmem (fst st) x"
    "gets_to_run G putc g run T st1 cs st' j"
  shows "gets_to_run G putc g run T st (c # cs) st' j"
  using assms(3) kernel_run.call [OF assms(1,2)] unfolding gets_to_run_def by (metis append_Cons)

lemma call_closer:
  assumes c: "kernel_call putc g run T c (s, d) = Some (Returns (s1, d1))" and h: "handlers_call G (- insert Schedule (range Setup)) putc g T run"
    and s: "proc_reach T s" "j \<in> ready (sched_of s)" "current_process s \<noteq> Some j" and C: "c \<notin> range Setup"
  shows "current_process s1 = Some j \<or>
    j \<in> ready (sched_of s1) \<and> cdist (last_idx s1) j + count_list [c] Schedule \<le> cdist (last_idx s) j"
proof (cases "c = Schedule")
  case True
  with c schedule_closer [OF proc_reach_proc_inv [OF s(1)] s(2,3), of T] show ?thesis by auto
next
  case False
  with C have "sched_kept s s1" using kept.one_call [OF c _ kept.handled [OF h]] by simp
  with proc_reach_proc_inv [OF s(1)] s(2) False show ?thesis
    by (auto simp: sched_kept_def proc_inv_def)
qed

lemma waits_for_schedule:
  assumes "kernel_run G putc g run T st cs st'" "handlers_call G (- insert Schedule (range Setup)) putc g T run" "proc_reach T (fst st)"
    "j \<in> ready (sched_of (fst st))" "cdist (last_idx (fst st)) j < count_list cs Schedule" "set cs \<subseteq> - range Setup"
  shows "gets_to_run G putc g run T st cs st' j"
  using assms
proof (induction rule: kernel_run.induct)
  case (call c st st1 cs st2)
  obtain s d s1 d1 where st: "st = (s, d)" "st1 = (s1, d1)" by fastforce
  note c = call.hyps(1) [unfolded st]
  have reach: "proc_reach T s1"
    using live.one_call [OF c _ live.handled [OF handlers_call_mono [OF call.prems(1)]]] call.prems(2,5) st
    by (auto simp: processes_live_def)
  show ?case
  proof (cases "current_process s = Some j")
    case True
    with kernel_run.call [OF call.hyps] st show ?thesis by (intro gets_to_run_now) simp_all
  next
    case False
    with call_closer [OF c call.prems(1)] call.prems(2,3,5) st consider "current_process s1 = Some j" |
      "j \<in> ready (sched_of s1)" "cdist (last_idx s1) j + count_list [c] Schedule \<le> cdist (last_idx s) j" by auto
    then have "gets_to_run G putc g run T st1 cs st2 j"
    proof cases
      case 1
      with call.hyps(3) st show ?thesis by (intro gets_to_run_now) simp_all
    next
      case 2
      with call.prems reach st show ?thesis by (intro call.IH) (auto split: if_splits)
    qed
    with call.hyps(1,2) show ?thesis by (rule gets_to_run_later)
  qed
qed simp


section \<open>The states the start leaves\<close>

lemmas init_process_above = proc_frame_above [OF init_process_frame]

text \<open>What of the machine is set up once: tables, translation registers, early allocator.\<close>

definition machine :: "'a mmu_state_scheme \<Rightarrow> u64 list \<times> u64 \<times> u64 \<times> u64 \<times> u64" where
  "machine s = (irq_dispatch_table s, ttbr0_el1 s, sctlr_el1 s, cr3 s, alloc_ptr s)"

lemma machine_frames [simp]:
  "machine (emit f as s) = machine s" "machine (poke64 a v s) = machine s" "machine (kmemset p c n s) = machine s"
  "machine (s\<lparr>kmem := m\<rparr>) = machine s" "machine (mm_init ke bm s) = machine s"
  "machine (x86_interrupt_init s) = machine s" "machine (arm_interrupt_init s) = machine s"
  "machine (fs_init s) = machine s" "machine (usr_init s) = machine s" "machine (init_process T e s) = machine s"
proof -
  have "machine (gic_write r v t) = machine t" "machine (snd (gic_read r t)) = machine t" for r v and t :: "'a mmu_state_scheme"
    by (simp_all add: machine_def gic_write_def gic_read_def case_prod_beta)
  moreover show e: "machine (emit f as s) = machine s" for f as and s :: "'a mmu_state_scheme"
    by (simp add: machine_def emit_def)
  ultimately show "machine (arm_interrupt_init s) = machine s"
    by (simp add: arm_interrupt_init_def Let_def case_prod_beta for_loop_keeps [where f = machine])
  show "machine (x86_interrupt_init s) = machine s"
    unfolding x86_interrupt_init_def Let_def by (simp add: e) (simp add: machine_def emit_def)
qed (simp_all add: machine_def poke64_def kmemset_def mm_init_def set_free_list_def fs_init_def usr_init_def emit_def
    init_process_above Let_def)


lemma machine_registers:
  "machine (s\<lparr>cr3 := v\<rparr>) = (case machine s of (a, b, c, d, e) \<Rightarrow> (a, b, c, v, e))"
  "machine (s\<lparr>ttbr0_el1 := v\<rparr>) = (case machine s of (a, b, c, d, e) \<Rightarrow> (a, v, c, d, e))"
  "machine (s\<lparr>sctlr_el1 := v\<rparr>) = (case machine s of (a, b, c, d, e) \<Rightarrow> (a, b, v, d, e))"
  "sctlr_el1 s = (case machine s of (a, b, c, d, e) \<Rightarrow> c)"
  by (simp_all add: machine_def)

lemma mmu_init_machine:
  "machine (x86_mmu_init pml4 pdpt pd mb s) =
     (case machine s of (a, b, c, d, e) \<Rightarrow> (a, b, c, pml4, e))"
  "machine (arm_mmu_init l0 l1 dtb s) =
     (case machine s of (a, b, c, d, e) \<Rightarrow> (a, l0, c OR 1 OR 2 OR 0x1000, d, e))"
proof -
  have l: "machine (for_loop lo n body t) = machine t" if "\<And>i u. machine (body i u) = machine u"
    for lo n body and t :: "'a mmu_state_scheme"
    using that by (rule for_loop_keeps)
  show "machine (x86_mmu_init pml4 pdpt pd mb s) = (case machine s of (a, b, c, d, e) \<Rightarrow> (a, b, c, pml4, e))"
    by (simp add: x86_mmu_init_def Let_def machine_registers l)
  show "machine (arm_mmu_init l0 l1 dtb s) =
     (case machine s of (a, b, c, d, e) \<Rightarrow> (a, l0, c OR 1 OR 2 OR 0x1000, d, e))"
    by (cases "machine s") (simp add: arm_mmu_init_def Let_def machine_registers l)
qed

lemma arm_boot_slab [simp]:
  "slab (arm_mmu_init l0 l1 dtb s) = slab s" "slab (arm_interrupt_init s) = slab s"
  "slab (fs_init s) = slab s" "slab (usr_init s) = slab s" "slab (init_process T e s) = slab s"
proof -
  have "slab (emit f as t) = slab t" "slab (poke64 a v t) = slab t" for f as a v and t :: "'a mmu_state_scheme"
    by (simp_all add: emit_def poke64_def)
  moreover have "slab (gic_write r v t) = slab t" "slab (snd (gic_read r t)) = slab t" for r v and t :: "'a mmu_state_scheme"
    by (simp_all add: gic_write_def gic_read_def case_prod_beta)
  ultimately show "slab (arm_mmu_init l0 l1 dtb s) = slab s" "slab (arm_interrupt_init s) = slab s"
    by (simp_all add: arm_mmu_init_def arm_interrupt_init_def Let_def case_prod_beta for_loop_keeps [where f = slab])
  show "slab (init_process T e s) = slab s" using init_process_frame [of s T e] by (simp add: proc_frame_def)
qed (simp_all add: fs_init_def usr_init_def emit_def)

text \<open>The state in which the start halts, on both architectures.\<close>

lemma x86_start:
  assumes "table_zero s"
  shows "\<exists>s0. x86_mmu_enable T pml4 pdpt pd date time ke bm ia s = Halts s0 \<and> proc_reach T s0 \<and>
    machine s0 = (irq_dispatch_table s, ttbr0_el1 s, sctlr_el1 s, pml4, alloc_ptr s) \<and>
    buddy s0 = (buddy s)\<lparr>pool_start := align_up 0x200000 ke, pool_pages := 16384, bitmap := bm, bitmap_words := 1024,
       free_lists := (free_lists (buddy s))[0 := align_up 0x200000 ke], free_count := 16384, initialized := True\<rparr>"
proof -
  have m: "buddy (mm_init ke bm t) = (buddy t)\<lparr>pool_start := align_up 0x200000 ke, pool_pages := 16384, bitmap := bm,
      bitmap_words := 1024, free_lists := (free_lists (buddy t))[0 := align_up 0x200000 ke], free_count := 16384,
      initialized := True\<rparr>" for t :: "'a mmu_state_scheme"
    by (simp add: mm_init_def Let_def set_free_list_def)
  have b: "buddy (x86_mmu_init pml4 pdpt pd mb s) = buddy s" for mb
    by (simp add: x86_mmu_init_def Let_def for_loop_keeps [where f = buddy])
  have "machine s = (irq_dispatch_table s, ttbr0_el1 s, sctlr_el1 s, cr3 s, alloc_ptr s)" by (simp add: machine_def)
  with assms show ?thesis
    by (simp add: x86_mmu_enable_def x86_kernel_main_def after_main_def Let_def reach_emit proc_reach.start m b
        mmu_init_machine)
qed

lemma arm_start:
  assumes "table_zero s" "no_memory s"
  shows "\<exists>s0. arm_mmu_enable T l0 l1 ma bs be ia s = Halts s0 \<and> proc_reach T s0 \<and> no_memory s0"
  using assms
  by (simp add: arm_mmu_enable_def arm_kernel_main_def after_main_def Let_def reach_emit proc_reach.start no_memory_def)

text \<open>Every message of the start can be printed.\<close>

lemma init_process_log [simp]: "log_grows l (klog s) \<Longrightarrow> log_grows l (klog (init_process T e s))"
  using init_process_frame [of s T e] by (auto simp: proc_frame_def intro: log_grows_trans)

lemma start_stages_log [simp]:
  assumes "log_grows l (klog s)"
  shows "log_grows l (klog (mm_init ke bm s))" "log_grows l (klog (x86_interrupt_init s))"
    "log_grows l (klog (arm_interrupt_init s))" "log_grows l (klog (fs_init s))" "log_grows l (klog (usr_init s))"
    "log_grows l (klog (x86_mmu_init pml4 pdpt pd mb s))" "log_grows l (klog (arm_mmu_init l0 l1 dtb s))"
proof -
  have w: "klog (gic_write r v t) = klog t" "klog (snd (gic_read r t)) = klog t" for r v and t :: "'a mmu_state_scheme"
    by (simp_all add: gic_write_def gic_read_def case_prod_beta)
  show "log_grows l (klog (mm_init ke bm s))" using assms by (simp add: mm_init_def Let_def msg_eval)
  show "log_grows l (klog (x86_interrupt_init s))" using assms by (simp add: x86_interrupt_init_def Let_def msg_eval)
  show "log_grows l (klog (arm_interrupt_init s))" using assms
    by (simp add: arm_interrupt_init_def Let_def case_prod_beta w for_loop_keeps [where f = klog] msg_eval)
  show "log_grows l (klog (fs_init s))" "log_grows l (klog (usr_init s))" using assms
    by (simp_all add: fs_init_def usr_init_def msg_eval)
  show "log_grows l (klog (x86_mmu_init pml4 pdpt pd mb s))" "log_grows l (klog (arm_mmu_init l0 l1 dtb s))" using assms
    by (simp_all add: x86_mmu_init_def arm_mmu_init_def Let_def for_loop_keeps [where f = klog] msg_eval)
qed

lemma start_log:
  "x86_mmu_enable T pml4 pdpt pd date time ke bm ia s = Halts s0 \<Longrightarrow> log_grows (klog s) (klog s0)"
  "arm_mmu_enable T l0 l1 ma bs be ia s = Halts s0 \<Longrightarrow> log_grows (klog s) (klog s0)"
  by (auto simp: x86_mmu_enable_def x86_kernel_main_def arm_mmu_enable_def arm_kernel_main_def after_main_def Let_def
      msg_eval)

text \<open>Without memory every request fails.\<close>

lemma no_memory_fails:
  assumes "no_memory s"
  shows "fst (alloc_pages k s) = None" "fst (phys_alloc n s) = 0" "fst (stack_alloc n s) = 0"
    "\<exists>t. kmalloc n s = Some (0, t)" "kfree p s = Some s" "buddy_init p n s = Some (b, t) \<Longrightarrow> \<not> b"
proof -
  have a: "alloc_pages k s = (None, emit ''[BUDDY] Not initialized!\<newline>'' [] s)" for k
    using assms by (simp add: alloc_pages_def no_memory_def)
  then show "fst (alloc_pages k s) = None" "fst (phys_alloc n s) = 0" "fst (stack_alloc n s) = 0"
    by (simp_all add: phys_alloc_def stack_alloc_def Let_def)
  have z: "slabs (slab s) = 0" using assms by (simp add: no_memory_def)
  show "\<exists>t. kmalloc n s = Some (0, t)" by (rule no_memory_kmalloc [OF assms])
  show "buddy_init p n s = Some (b, t) \<Longrightarrow> \<not> b" using buddy_init_frame(4) assms by blast
  show "kfree p s = Some s" by (simp add: kfree_def slab_free_def z slab_of.simps)
qed


text \<open>
  The well-formed states of the x86-64 kernel: the process table satisfies its invariant, the
  table of interrupt handlers has its 256 entries, the page allocator works on the pool and the
  bitmap it was given, with ten free lists, the tables in use are those built at the start, and the
  early allocator stands at a page boundary.
\<close>

definition x86_kernel_ok :: "u64 \<Rightarrow> u64 \<Rightarrow> u64 \<Rightarrow> 'a mmu_state_scheme \<Rightarrow> bool" where
  "x86_kernel_ok pml4 ke bm s \<longleftrightarrow> proc_inv s \<and> table_full s \<and> initialized (buddy s) \<and>
     pool_start (buddy s) = align_up 0x200000 ke \<and> pool_pages (buddy s) = 16384 \<and>
     bitmap (buddy s) = bm \<and> bitmap_words (buddy s) = 1024 \<and> length (free_lists (buddy s)) = MAX_ORDER_BITS \<and>
     cr3 s = pml4 \<and> alloc_ptr s AND 0xFFF = 0"

lemma x86_kernel_ok_frame:
  assumes "x86_kernel_ok pml4 ke bm s" "proc_inv t" "kernel_frame s t"
  shows "x86_kernel_ok pml4 ke bm t"
  using assms by (simp add: x86_kernel_ok_def kernel_frame_def same_geometry_def table_full_def)

lemma x86_kernel_ok_typed: "x86_kernel_ok pml4 ke bm s \<Longrightarrow> kernel_typed s"
  by (auto simp: x86_kernel_ok_def kernel_typed_def proc_inv_def table_ok_def view_ok_def sched_of_def table_full_def
      MAX_PROCESSES_def MAX_IRQ_HANDLERS_def)

lemma x86_start_ok:
  assumes "table_zero s" "table_full s" "length (free_lists (buddy s)) = MAX_ORDER_BITS" "alloc_ptr s AND 0xFFF = 0"
    and "x86_mmu_enable T pml4 pdpt pd date time ke bm ia s = Halts s0"
  shows "proc_reach T s0 \<and> x86_kernel_ok pml4 ke bm s0"
  using x86_start [OF assms(1), of T pml4 pdpt pd date time ke bm ia] assms(2-)
  by (auto simp: x86_kernel_ok_def table_full_def machine_def proc_reach_proc_inv)

text \<open>Runs of scheduler calls, and handlers that call the scheduler or do nothing.\<close>

lemma schedules_run: "kernel_run {} putc g run T (s, d) (replicate n Schedule) ((schedule T ^^ n) s, d)"
proof (induction n arbitrary: s)
  case (Suc n)
  then show ?case by (auto intro!: kernel_run.call simp: funpow_swap1)
qed (simp add: kernel_run.none)

lemma handlers_schedule:
  fixes putc :: "char \<Rightarrow> 'd \<Rightarrow> 'd option"
  assumes "Schedule \<in> C"
  shows "handlers_call {} C putc g T (\<lambda>_ _. schedule T :: 'a mmu_state_scheme \<Rightarrow> 'a mmu_state_scheme)"
proof -
  have "kernel_run {} putc g (\<lambda>_ _ t. t) T (s, d) [Schedule] (schedule T s, d)" for s :: "'a mmu_state_scheme" and d
    by (simp add: kernel_run_simps)
  moreover have "set [Schedule] \<subseteq> C" using assms by simp
  ultimately show ?thesis unfolding handlers_call_def by blast
qed

lemma handlers_idle: "handlers_call G C putc g T (\<lambda>_ _ t. t)"
  unfolding handlers_call_def by (auto intro!: exI [of _ "[]"] kernel_run.none)

text \<open>Two ready processes, to run the kernel on.\<close>

abbreviation two_processes :: mmu_state where
  "two_processes \<equiv> snd (create_process 0x5000 0 0 None (init_process (X86_64 RDI RDI) 0x4000 mmu_demo))"

lemma second_process_ready:
  fixes s :: "'a proc_state_scheme"
  assumes "table_zero s"
  shows "runnable (proc (snd (create_process e stk n nm (init_process T ia s))) 1)"
proof -
  define i where "i = init_process T ia s"
  have r: "proc_inv i" "next_pid i = 1" using init_process_reach [OF assms, of T ia] by (simp_all add: i_def)
  obtain m where "next_pid i = int m" "pids_ok m (process_table i)" using r(1) unfolding proc_inv_def by blast
  with r(2) have p: "pids_ok 1 (process_table i)" by simp
  have l: "length (process_table i) = 64" by (rule pids_ok_nth(1) [OF p])
  have f: "find_slot (process_table i) = Some 1" using pids_ok_free [OF p] by simp
  have "runnable (new_process i 1 stk n nm)" using r(2) by (simp add: runnable_def new_process_def)
  then show ?thesis
    using create_process_table(1) [OF f l, of e stk n nm] l by (simp add: i_def)
qed

lemma two_processes_ready: "proc_reach (X86_64 RDI RDI) two_processes" "runnable (proc two_processes 1)"
proof -
  have z: "table_zero mmu_demo" by (simp add: table_zero_def mmu_demo_def)
  show "proc_reach (X86_64 RDI RDI) two_processes" by (rule proc_reach.step [OF proc_reach.start [OF z] proc_step.create])
  show "runnable (proc two_processes 1)" by (rule second_process_ready [OF z])
qed

end
