(* ===== verification/Entry.thy ===== *)
theory Entry
  imports System
begin

text \<open>
  The assembly of \<^verbatim>\<open>boot/boot_x86_64.S\<close>, and of \<^verbatim>\<open>boot/boot.S\<close> what C code depends on: clearing the
  static data, the early output on the serial line of the PC, the entry of the x86-64 kernel, and the
  AArch64 code around \<^verbatim>\<open>handle_exception\<close> that saves and restores the registers of the interrupted
  program.
\<close>

section \<open>Clearing the static data\<close>

text \<open>
  AArch64: \<^verbatim>\<open>subs\<close> of the two bounds, then a loop that stores eight zero bytes, advances the
  pointer and counts down while the remaining size is greater than zero, as a signed comparison.
\<close>

lemma sint_minus_8:
  fixes x :: u64
  assumes "8 <s x"
  shows "8 < sint x" "sint (x - 8) = sint x - 8"
proof -
  show s: "8 < sint x" using assms by (simp add: word_sless_alt)
  moreover have "sint x < 2 ^ 63" using sint_lt [of x] by simp
  ultimately show "sint (x - 8) = sint x - 8" by (simp add: sint_word_diff signed_take_bit_int_eq_self)
qed

function arm_clear_loop :: "u64 \<Rightarrow> u64 \<Rightarrow> mem \<Rightarrow> mem" where
  "arm_clear_loop x1 x2 m =
     (let m1 = store64 m x1 0
      in if 8 <s x2 then arm_clear_loop (x1 + 8) (x2 - 8) m1 else m1)"
  by pat_completeness auto
termination
proof (relation "measure (\<lambda>(x1, x2, m). nat (sint x2))")
  fix x1 x2 :: u64 and m m1 :: mem
  assume "8 <s x2"
  from sint_minus_8 [OF this] show "((x1 + 8, x2 - 8, m1), x1, x2, m) \<in> measure (\<lambda>(x1, x2, m). nat (sint x2))" by simp
qed simp

declare arm_clear_loop.simps [simp del]

definition arm_clear_bss :: "u64 \<Rightarrow> u64 \<Rightarrow> mem \<Rightarrow> mem" where
  "arm_clear_bss bss_start bss_end m =
     (if bss_start <s bss_end then arm_clear_loop bss_start (bss_end - bss_start) m else m)"

text \<open>x86-64: \<^verbatim>\<open>rep stosq\<close> over the size divided by eight.\<close>

definition x86_clear_bss :: "u64 \<Rightarrow> u64 \<Rightarrow> mem \<Rightarrow> mem" where
  "x86_clear_bss bss_start bss_end m =
     for_loop 0 (unat (drop_bit 3 (bss_end - bss_start))) (\<lambda>i m. store64 m (bss_start + 8 * of_nat i) 0) m"


section \<open>Early output\<close>

text \<open>
  x86-64: a character is sent after waiting for the transmitter; a line feed first sends a
  carriage return the same way.
\<close>

definition early_send :: "char \<Rightarrow> com1 \<Rightarrow> com1 option" where
  "early_send c d = Option.bind (com1_wait 0x20 d) (\<lambda>d. Some (outb COM1_PORT (of_char c) d))"

definition uart_putc_early :: "char \<Rightarrow> com1 \<Rightarrow> com1 option" where
  "uart_putc_early c d = Option.bind (if c = CHR 0x0A then early_send (CHR 0x0D) d else Some d) (early_send c)"

section \<open>The entry of the x86-64 kernel\<close>

text \<open>
  The linker script puts the static variables without an initial value other than zero between the two
  bounds. The model knows no addresses for the variables it keeps by name, and sets them to zero with
  the rest, whatever the bounds given are: it takes for granted that they are variables the loop
  reaches, which clears whole words only. \<open>stack_top\<close> is the end of the boot
  stack, \<open>rbx\<close> the pointer the loader passes.
\<close>

definition zero_statics :: "'a irq_state_scheme \<Rightarrow> 'a irq_state_scheme" where
  "zero_statics s = s\<lparr>buddy := buddy_static, slab := slab_static, process_table := replicate MAX_PROCESSES process_zero,
     current_process := None, last_idx := 0, irq_dispatch_table := replicate MAX_IRQ_HANDLERS 0\<rparr>"

definition boot_msg :: string where
  "boot_msg = ''[BOOT] x86_64 bootloader entry, setting up kernel...\<newline>''"

definition x86_entry_state :: "u64 \<Rightarrow> u64 \<Rightarrow> u64 \<Rightarrow> 'a mmu_state_scheme \<Rightarrow> 'a mmu_state_scheme" where
  "x86_entry_state stack_top bss_start bss_end s =
     (let s1 = s\<lparr>x86 := (x86 s)(RSP := stack_top, RBP := stack_top)\<rparr>;
          s2 = poke64 (stack_top - 8) (x86 s1 RBX) s1;
          s3 = s2\<lparr>x86 := (x86 s2)(RSP := stack_top - 8)\<rparr>
      in zero_statics (s3\<lparr>kmem := x86_clear_bss bss_start bss_end (kmem s3)\<rparr>))"

text \<open>
  After the early message the C code sends its own lines on the same port: the messages logged up to
  the state in which it halts, printed in their order. \<open>g i\<close> is what the stack holds where the buffer of
  the \<open>i\<close>-th is.
\<close>

definition x86_entry ::
  "target \<Rightarrow> (nat \<Rightarrow> nat \<Rightarrow> char) \<Rightarrow> u64 \<Rightarrow> u64 \<Rightarrow> u64 \<Rightarrow> u64 \<Rightarrow> u64 \<Rightarrow> u64 \<Rightarrow> string \<Rightarrow> string \<Rightarrow> u64 \<Rightarrow> u64 \<Rightarrow> u64 \<Rightarrow>
   'a mmu_state_scheme \<times> com1 \<Rightarrow> ('a mmu_state_scheme outcome \<times> com1) option" where
  "x86_entry T g stack_top bss_start bss_end pml4 pdpt pd date time kernel_end static_bitmap init_addr st =
     (let (s, d) = st;
          s = x86_entry_state stack_top bss_start bss_end s;
          r = x86_mmu_enable T pml4 pdpt pd date time kernel_end static_bitmap init_addr s
      in Option.bind (uart_puts uart_putc_early boot_msg (com1_init d))
           (\<lambda>d1. map_option (Pair r) (flush com1_putc g s (left_by r) d1)))"

section \<open>Exceptions on AArch64\<close>

text \<open>
  The processor at an exception: the registers, the stack pointer in use, and the two registers
  that describe the exception. The instructions address the stack relative to that pointer.
\<close>

record exc_cpu = arm_cpu +
  stack_ptr :: u64
  esr_el1 :: u64
  far_el1 :: u64

datatype exc_insn =
    SUB_SP u64 | ADD_SP u64
  | STP nat nat u64 | STP_ZR nat u64
  | LDP nat nat u64 | LDP_ZR nat u64
  | MOV_FROM_SP nat | MRS_ESR nat | MRS_FAR nat | MRS_SP_EL0 nat

fun exc_exec :: "exc_insn \<Rightarrow> exc_cpu \<times> mem \<Rightarrow> exc_cpu \<times> mem" where
  "exc_exec (SUB_SP k) (c, m) = (c\<lparr>stack_ptr := stack_ptr c - k\<rparr>, m)"
| "exc_exec (ADD_SP k) (c, m) = (c\<lparr>stack_ptr := stack_ptr c + k\<rparr>, m)"
| "exc_exec (STP a b k) (c, m) =
     (c, store64 (store64 m (stack_ptr c + k) (xr c a)) (stack_ptr c + k + 8) (xr c b))"
| "exc_exec (STP_ZR a k) (c, m) =
     (c, store64 (store64 m (stack_ptr c + k) (xr c a)) (stack_ptr c + k + 8) 0)"
| "exc_exec (LDP a b k) (c, m) =
     (c\<lparr>xr := (xr c)(a := load64 m (stack_ptr c + k), b := load64 m (stack_ptr c + k + 8))\<rparr>, m)"
| "exc_exec (LDP_ZR a k) (c, m) = (c\<lparr>xr := (xr c)(a := load64 m (stack_ptr c + k))\<rparr>, m)"
| "exc_exec (MOV_FROM_SP a) (c, m) = (c\<lparr>xr := (xr c)(a := stack_ptr c)\<rparr>, m)"
| "exc_exec (MRS_ESR a) (c, m) = (c\<lparr>xr := (xr c)(a := esr_el1 c)\<rparr>, m)"
| "exc_exec (MRS_FAR a) (c, m) = (c\<lparr>xr := (xr c)(a := far_el1 c)\<rparr>, m)"
| "exc_exec (MRS_SP_EL0 a) (c, m) = (c\<lparr>xr := (xr c)(a := sp_el0 c)\<rparr>, m)"

primrec exc_run :: "exc_insn list \<Rightarrow> exc_cpu \<times> mem \<Rightarrow> exc_cpu \<times> mem" where
  "exc_run [] st = st"
| "exc_run (i # is) st = exc_run is (exc_exec i st)"

text \<open>The vectors: synchronous exceptions and interrupts, from either level, set up the arguments.\<close>

datatype vector = El1_Sync | El1_Irq | El1_Fiq | El1_Error | El0_Sync | El0_Irq | El0_Fiq | El0_Error

fun vector_code :: "vector \<Rightarrow> exc_insn list" where
  "vector_code El1_Sync = [MRS_ESR 0, MRS_FAR 1, MRS_SP_EL0 2]"
| "vector_code El1_Irq = [MRS_ESR 0, MRS_FAR 1, MRS_SP_EL0 2]"
| "vector_code El0_Sync = [MRS_ESR 0, MRS_FAR 1, MRS_SP_EL0 2]"
| "vector_code El0_Irq = [MRS_ESR 0, MRS_FAR 1, MRS_SP_EL0 2]"
| "vector_code El1_Fiq = []"
| "vector_code El0_Fiq = []"
| "vector_code El1_Error = []"
| "vector_code El0_Error = []"

definition exception_save :: "exc_insn list" where
  "exception_save =
     [SUB_SP 256,
      STP 0 1 0, STP 2 3 16, STP 4 5 32, STP 6 7 48, STP 8 9 64, STP 10 11 80, STP 12 13 96,
      STP 14 15 112, STP 16 17 128,
      MOV_FROM_SP 18, STP_ZR 18 144]"

definition exception_restore :: "exc_insn list" where
  "exception_restore =
     [LDP_ZR 18 144, LDP 16 17 128, LDP 12 13 96, LDP 14 15 112, LDP 8 9 64, LDP 4 5 32, LDP 6 7 48,
      LDP 2 3 16, LDP 0 1 0,
      ADD_SP 256]"

text \<open>
  An exception from its vector to the \<^verbatim>\<open>eret\<close>. The call of \<^verbatim>\<open>handle_exception\<close> puts the return
  address \<open>ra\<close> into \<^verbatim>\<open>x30\<close>; what the compiled function does to registers and memory is a parameter.
\<close>

definition exception_entry :: "vector \<Rightarrow> u64 \<Rightarrow> exc_cpu \<times> mem \<Rightarrow> exc_cpu \<times> mem" where
  "exception_entry v ra st =
     (case exc_run (vector_code v @ exception_save) st of (c, m) \<Rightarrow> (c\<lparr>xr := (xr c)(30 := ra)\<rparr>, m))"

definition exception_handler ::
  "(exc_cpu \<times> mem \<Rightarrow> exc_cpu \<times> mem) \<Rightarrow> vector \<Rightarrow> u64 \<Rightarrow> exc_cpu \<times> mem \<Rightarrow> exc_cpu \<times> mem" where
  "exception_handler handle_exception v ra st =
     exc_run exception_restore (handle_exception (exception_entry v ra st))"


section \<open>What is cleared\<close>

lemma store64_zero_byte: "store64 m a 0 x = (if x - a < 8 then 0 else m x)"
  by (simp add: store64_def)

lemma clear_words_byte:
  assumes "unat start + 8 * n \<le> 2 ^ 64" "8 * n < 2 ^ 64"
  shows "for_loop 0 n (\<lambda>i m. store64 m (start + 8 * of_nat i) 0) m x =
    (if unat start \<le> unat x \<and> unat x < unat start + 8 * n then 0 else m x)"
  using assms
proof (induction n)
  case (Suc n)
  have r: "x - (start + 8 * of_nat n) < 8 \<longleftrightarrow> unat start + 8 * n \<le> unat x \<and> unat x < unat start + 8 * n + 8"
    using word_region [of start "Suc n" n x] Suc.prems by simp
  define M where "M = for_loop 0 n (\<lambda>i m. store64 m (start + 8 * of_nat i) 0) m"
  have e: "for_loop 0 (Suc n) (\<lambda>i m. store64 m (start + 8 * of_nat i) 0) m = store64 M (start + 8 * of_nat n) 0"
    by (simp only: M_def for_loop_snoc add_0)
  have "M x = (if unat start \<le> unat x \<and> unat x < unat start + 8 * n then 0 else m x)"
    using Suc by (simp add: M_def)
  then show ?case unfolding e by (auto simp: store64_zero_byte r)
qed auto

lemma sint_small:
  fixes x :: u64
  assumes "unat x < 2 ^ 63"
  shows "sint x = int (unat x)"
proof -
  have u: "int (unat x) = uint x" by simp
  have "int (unat x) < int (2 ^ 63)" using assms by (simp only: of_nat_less_iff)
  then have "0 \<le> uint x" "uint x < 2 ^ 63" by (simp_all only: u uint_ge_0) simp
  then have "signed_take_bit 63 (uint x) = uint x" by (intro signed_take_bit_int_eq_self) (simp_all add: order_trans [OF _ uint_ge_0])
  then show ?thesis by (simp add: sint_uint u)
qed

lemma for_loop_from: "for_loop (Suc lo) n body s = for_loop lo n (\<lambda>i. body (Suc i)) s"
  by (induction n arbitrary: lo s) simp_all

lemma arm_clear_loop_words:
  assumes "0 < sint x2"
  shows "arm_clear_loop x1 x2 m =
    for_loop 0 (nat ((sint x2 + 7) div 8)) (\<lambda>i m. store64 m (x1 + 8 * of_nat i) 0) m"
  using assms
proof (induction x1 x2 m rule: arm_clear_loop.induct)
  case (1 x1 x2 m)
  show ?case
  proof (cases "8 <s x2")
    case True
    note s = sint_minus_8(1) [OF True] and d = sint_minus_8(2) [OF True]
    have n: "nat ((sint x2 + 7) div 8) = Suc (nat ((sint (x2 - 8) + 7) div 8))" using s d by simp
    have "arm_clear_loop x1 x2 m = arm_clear_loop (x1 + 8) (x2 - 8) (store64 m x1 0)"
      using True by (simp add: arm_clear_loop.simps [of x1 x2])
    also have "\<dots> = for_loop 0 (nat ((sint (x2 - 8) + 7) div 8)) (\<lambda>i m. store64 m (x1 + 8 + 8 * of_nat i) 0) (store64 m x1 0)"
      using True s d by (intro 1(1)) simp_all
    finally show ?thesis unfolding n by (simp add: for_loop_from algebra_simps)
  next
    case False
    then have "sint x2 \<le> 8" by (simp add: word_sless_alt)
    with 1(2) have "nat ((sint x2 + 7) div 8) = 1" by simp
    with False show ?thesis by (simp add: arm_clear_loop.simps [of x1 x2])
  qed
qed

lemma arm_clear_bss_words:
  assumes "unat bss_start \<le> unat bss_end" "unat bss_end + 8 \<le> 2 ^ 63"
  shows "arm_clear_bss bss_start bss_end m =
    for_loop 0 ((unat bss_end - unat bss_start + 7) div 8) (\<lambda>i m. store64 m (bss_start + 8 * of_nat i) 0) m"
proof -
  let ?n = "unat bss_end - unat bss_start"
  have d: "unat (bss_end - bss_start) = ?n" using assms(1) by (simp add: unat_minus64 word_le_nat_alt)
  have small: "?n < 2 ^ 63" "unat bss_start < 2 ^ 63" "unat bss_end < 2 ^ 63" using assms by simp_all
  have s: "sint bss_start = int (unat bss_start)" "sint bss_end = int (unat bss_end)" "sint (bss_end - bss_start) = int ?n"
    using small d by (simp_all add: sint_small)
  show ?thesis
  proof (cases "?n = 0")
    case True
    then show ?thesis using assms(1) s by (simp add: arm_clear_bss_def word_sless_alt)
  next
    case False
    have pos: "0 < sint (bss_end - bss_start)" unfolding s(3) using False by (simp only: of_nat_0_less_iff neq0_conv)
    have k: "nat ((sint (bss_end - bss_start) + 7) div 8) = (?n + 7) div 8"
      unfolding s(3) by (simp add: nat_div_distrib nat_add_distrib)
    have "unat bss_start < unat bss_end" using False by simp
    then have lt: "bss_start <s bss_end" unfolding word_sless_alt s(1,2) by (simp only: of_nat_less_iff)
    show ?thesis
      unfolding arm_clear_bss_def if_P [OF lt] k [symmetric] by (rule arm_clear_loop_words [OF pos])
  qed
qed

lemma x86_clear_bss_words:
  assumes "unat bss_start \<le> unat bss_end"
  shows "x86_clear_bss bss_start bss_end m =
    for_loop 0 ((unat bss_end - unat bss_start) div 8) (\<lambda>i m. store64 m (bss_start + 8 * of_nat i) 0) m"
proof -
  let ?n = "unat bss_end - unat bss_start"
  have "unat (bss_end - bss_start) = ?n" using assms by (simp add: unat_minus64 word_le_nat_alt)
  then have "unat (drop_bit 3 (bss_end - bss_start)) = drop_bit 3 ?n" by (simp only: unat_drop_bit_eq)
  then show ?thesis by (simp add: x86_clear_bss_def drop_bit_eq_div)
qed

text \<open>Early output goes through the same interface as the drivers' output.\<close>

lemma early_send_sends:
  assumes "com1_live d"
  shows "\<exists>d'. early_send c d = Some d' \<and> com1_live d' \<and> com1_sent d' = com1_sent d @ [of_char c]"
proof -
  obtain d1 where "com1_wait 0x20 d = Some d1" "com1_live d1" "com1_sent d1 = com1_sent d"
    using com1_wait_live [OF assms] by blast
  with com1_live_data [OF this(2), of "of_char c"] show ?thesis by (simp add: early_send_def)
qed

lemma uart_putc_early_sends:
  assumes "com1_live d"
  shows "\<exists>d'. uart_putc_early c d = Some d' \<and> com1_live d' \<and> com1_sent d' = com1_sent d @ crlf c"
proof (cases "c = CHR 0x0A")
  case True
  obtain d1 where d1: "early_send (CHR 0x0D) d = Some d1" "com1_live d1" "com1_sent d1 = com1_sent d @ [0x0D]"
    using early_send_sends [OF assms, of "CHR 0x0D"] by auto
  with early_send_sends [OF d1(2), of c] True show ?thesis by (auto simp: uart_putc_early_def crlf_def)
next
  case False
  with early_send_sends [OF assms, of c] show ?thesis by (simp add: uart_putc_early_def crlf_def)
qed

interpretation early: serial_port uart_putc_early com1_sent com1_live
  by unfold_locales (rule uart_putc_early_sends)


section \<open>What the x86-64 entry hands to the kernel\<close>

lemma x86_entry_state_simps [simp]:
  "next_pid s = 1 \<Longrightarrow> table_zero (x86_entry_state stk bs be s)" "table_full (x86_entry_state stk bs be s)"
  "length (free_lists (buddy (x86_entry_state stk bs be s))) = MAX_ORDER_BITS"
  "alloc_ptr (x86_entry_state stk bs be s) = alloc_ptr s" "x86 (x86_entry_state stk bs be s) RSP = stk - 8"
  "kmem (x86_entry_state stk bs be s) = x86_clear_bss bs be (store64 (kmem s) (stk - 8) (x86 s RBX))"
  by (simp_all add: x86_entry_state_def zero_statics_def Let_def table_zero_def table_full_def buddy_static_def
      poke64_def MAX_PROCESSES_def MAX_IRQ_HANDLERS_def)

lemma x86_entry_cases:
  assumes "x86_entry T g stk bs be pml4 pdpt pd date time ke bm ia (s, d) = Some (r, d0)"
  shows "x86_mmu_enable T pml4 pdpt pd date time ke bm ia (x86_entry_state stk bs be s) = r"
  using assms by (auto simp: x86_entry_def Let_def bind_eq_Some_conv)

lemma x86_entry_state_log [simp]: "klog (x86_entry_state stk bs be s) = klog s"
  by (simp add: x86_entry_state_def zero_statics_def Let_def)

lemma x86_entry_prints:
  assumes "\<forall>n. \<exists>k\<ge>n. reads d k (COM1_PORT + 5) AND 0x20 \<noteq> 0"
    and e: "x86_mmu_enable T pml4 pdpt pd date time ke bm ia (x86_entry_state stk bs be s) = Halts s0"
  shows "\<exists>d'. x86_entry T g stk bs be pml4 pdpt pd date time ke bm ia (s, d) = Some (Halts s0, d') \<and>
    com1_sent d' = com1_sent d @ concat (map crlf boot_msg) @
      concat (map crlf (log_text g (length (klog s)) (drop (length (klog s)) (klog s0))))"
proof -
  obtain d1 where d1: "uart_puts uart_putc_early boot_msg (com1_init d) = Some d1" "com1_live d1"
    "com1_sent d1 = com1_sent d @ concat (map crlf boot_msg)"
    using early.puts_sends [OF com1_init_live(1) [OF assms(1)], of boot_msg] com1_init_live(2) [OF assms(1)] by auto
  have "log_grows (klog (x86_entry_state stk bs be s)) (klog s0)" by (rule start_log(1) [OF e])
  from com1.flush_sends [OF d1(2) this, of g] d1 show ?thesis by (auto simp: x86_entry_def Let_def e)
qed

lemma x86_entry_ok:
  assumes "next_pid s = 1" "alloc_ptr s = X86_ALLOC_START"
    and "x86_entry T g stk bs be pml4 pdpt pd date time ke bm ia (s, d) = Some (Halts s0, d0)"
  shows "proc_reach T s0 \<and> x86_kernel_ok pml4 ke bm s0"
  by (rule x86_start_ok [OF _ _ _ _ x86_entry_cases [OF assms(3)]]) (use assms in \<open>simp_all add: X86_ALLOC_START_def\<close>)

lemma x86_entry_log:
  assumes "x86_entry T g stk bs be pml4 pdpt pd date time ke bm ia (s, d) = Some (Halts s0, d0)"
  shows "log_grows (klog s) (klog s0)"
  using start_log(1) [OF x86_entry_cases [OF assms]] by simp

lemma idle_com1_ready: "\<forall>n. \<exists>k\<ge>n. reads idle_com1 k (COM1_PORT + 5) AND 0x20 \<noteq> 0"
  by (auto simp: idle_com1_def)

section \<open>The registers of the interrupted program\<close>

text \<open>
  What the compiled function promises its caller: the stack pointer and the registers from
  \<^verbatim>\<open>x19\<close> to \<^verbatim>\<open>x29\<close> are as before, and so is the caller's part of the stack, here the 160 bytes
  stored above the stack pointer.
\<close>

definition aapcs :: "(exc_cpu \<times> mem \<Rightarrow> exc_cpu \<times> mem) \<Rightarrow> bool" where
  "aapcs f \<longleftrightarrow> (\<forall>c m. stack_ptr (fst (f (c, m))) = stack_ptr c \<and>
     (\<forall>r. 19 \<le> r \<and> r \<le> 29 \<longrightarrow> xr (fst (f (c, m))) r = xr c r) \<and>
     (\<forall>a. unat (stack_ptr c) \<le> unat a \<and> unat a < unat (stack_ptr c) + 160 \<longrightarrow> snd (f (c, m)) a = m a))"

lemma exc_run_append: "exc_run (xs @ ys) st = exc_run ys (exc_run xs st)"
  by (induction xs arbitrary: st) simp_all

lemma vector_code_run:
  "exc_run (vector_code v) (c, m) =
     (if v \<in> {El1_Fiq, El0_Fiq, El1_Error, El0_Error} then c
      else c\<lparr>xr := (xr c)(0 := esr_el1 c, 1 := far_el1 c, 2 := sp_el0 c)\<rparr>, m)"
  by (cases v) simp_all

text \<open>The frame: twenty words, of which the last two are the stack pointer and zero.\<close>

definition saved_word :: "exc_cpu \<Rightarrow> nat \<Rightarrow> u64" where
  "saved_word c i = (if i < 18 then xr c i else if i = 18 then stack_ptr c - 256 else 0)"

lemma exception_save_run:
  "exc_run exception_save (c, m) =
     (c\<lparr>stack_ptr := stack_ptr c - 256, xr := (xr c)(18 := stack_ptr c - 256)\<rparr>,
      for_loop 0 20 (\<lambda>i m. store64 m (stack_ptr c - 256 + 8 * of_nat i) (saved_word c i)) m)"
  by (simp add: exception_save_def numeral_eq_Suc saved_word_def)


lemma exception_restore_run:
  "exc_run exception_restore (c, m) =
     (c\<lparr>stack_ptr := stack_ptr c + 256,
        xr := (\<lambda>i. if i \<in> {10, 11} \<or> 18 < i then xr c i else load64 m (stack_ptr c + 8 * of_nat i))\<rparr>, m)"
proof -
  define L where "L i = load64 m (stack_ptr c + 8 * of_nat i)" for i :: nat
  have "exc_run exception_restore (c, m) =
      (c\<lparr>stack_ptr := stack_ptr c + 256, xr := (xr c)(18 := L 18, 16 := L 16, 17 := L 17, 12 := L 12, 13 := L 13,
        14 := L 14, 15 := L 15, 8 := L 8, 9 := L 9, 4 := L 4, 5 := L 5, 6 := L 6, 7 := L 7, 2 := L 2, 3 := L 3,
        0 := L 0, 1 := L 1)\<rparr>, m)"
    by (simp add: exception_restore_def L_def add.assoc)
  moreover have "(xr c)(18 := L 18, 16 := L 16, 17 := L 17, 12 := L 12, 13 := L 13,
        14 := L 14, 15 := L 15, 8 := L 8, 9 := L 9, 4 := L 4, 5 := L 5, 6 := L 6, 7 := L 7, 2 := L 2, 3 := L 3,
        0 := L 0, 1 := L 1) = (\<lambda>i. if i \<in> {10, 11} \<or> 18 < i then xr c i else L i)"
  proof
    fix i :: nat
    have "18 < i \<or> i \<in> set [0..<19]" by auto
    then show "((xr c)(18 := L 18, 16 := L 16, 17 := L 17, 12 := L 12, 13 := L 13,
        14 := L 14, 15 := L 15, 8 := L 8, 9 := L 9, 4 := L 4, 5 := L 5, 6 := L 6, 7 := L 7, 2 := L 2, 3 := L 3,
        0 := L 0, 1 := L 1)) i = (if i \<in> {10, 11} \<or> 18 < i then xr c i else L i)"
      by (auto simp: upt_rec)
  qed
  ultimately show ?thesis unfolding L_def [symmetric] by (simp only:)
qed

lemma exception_frame:
  assumes "256 \<le> unat (stack_ptr c)" "i < 20"
    and "\<And>a. unat (stack_ptr c - 256) \<le> unat a \<Longrightarrow> unat a < unat (stack_ptr c - 256) + 160 \<Longrightarrow>
      m' a = snd (exc_run exception_save (c, m)) a"
  shows "load64 m' (stack_ptr c - 256 + 8 * of_nat i) = saved_word c i"
proof -
  let ?b = "stack_ptr c - 256"
  have "unat ?b = unat (stack_ptr c) - 256" using assms(1) by (simp add: unat_minus64 word_le_nat_alt)
  then have b: "unat ?b + 8 * 20 \<le> 2 ^ 64" using assms(1) unat_less_2p64 [of "stack_ptr c"]
    by (simp del: unat_less_2p64)
  have "load64 m' (?b + 8 * of_nat i) = load64 (snd (exc_run exception_save (c, m))) (?b + 8 * of_nat i)"
  proof (rule load64_cong)
    fix x assume "x \<in> region (?b + 8 * of_nat i) 8"
    then have "unat ?b + 8 * i \<le> unat x" "unat x < unat ?b + 8 * i + 8"
      using word_region [OF b assms(2), of x] by simp_all
    with assms(2) show "m' x = snd (exc_run exception_save (c, m)) x" by (intro assms(3)) simp_all
  qed
  also have "\<dots> = saved_word c i"
    unfolding exception_save_run snd_conv using assms(2)
    by (intro store_loop_inside [where f = "\<lambda>i. ?b + 8 * of_nat i" and g = "saved_word c"] word_regions_disjoint [OF b]) simp_all
  finally show ?thesis .
qed


section \<open>Properties\<close>

text \<open>
  clearing the static data sets exactly the bytes between the two bounds to zero and changes no
  other byte, up to whole words: on AArch64 a last partial word is cleared as a whole, on x86-64
  it is left alone.
\<close>

theorem clear_bss_exact:
  assumes "unat bss_start \<le> unat bss_end" "unat bss_end + 8 \<le> 2 ^ 63"
  shows "arm_clear_bss bss_start bss_end m x =
      (if unat bss_start \<le> unat x \<and> unat x < unat bss_start + 8 * ((unat bss_end - unat bss_start + 7) div 8) then 0 else m x) \<and>
    x86_clear_bss bss_start bss_end m x =
      (if unat bss_start \<le> unat x \<and> unat x < unat bss_start + 8 * ((unat bss_end - unat bss_start) div 8) then 0 else m x)"
proof -
  let ?n = "unat bss_end - unat bss_start"
  have "unat bss_start + 8 * ((?n + 7) div 8) \<le> 2 ^ 64" "8 * ((?n + 7) div 8) < 2 ^ 64"
    "unat bss_start + 8 * (?n div 8) \<le> 2 ^ 64" "8 * (?n div 8) < 2 ^ 64"
    using assms times_div_less_eq_dividend [of 8 "?n + 7"] times_div_less_eq_dividend [of 8 ?n]
    by (auto simp del: times_div_less_eq_dividend)
  then show ?thesis
    unfolding arm_clear_bss_words [OF assms] x86_clear_bss_words [OF assms(1)] by (simp only: clear_words_byte)
qed

theorem clear_bss_exact_witness:
  "arm_clear_bss 0x1000 0x1013 (\<lambda>_. 0xAA) 0x1017 = 0 \<and> arm_clear_bss 0x1000 0x1013 (\<lambda>_. 0xAA) 0x1018 = 0xAA \<and>
   x86_clear_bss 0x1000 0x1013 (\<lambda>_. 0xAA) 0x100F = 0 \<and> x86_clear_bss 0x1000 0x1013 (\<lambda>_. 0xAA) 0x1010 = 0xAA"
  using clear_bss_exact [of "0x1000" "0x1013" "\<lambda>_. 0xAA" "0x1017"] clear_bss_exact [of "0x1000" "0x1013" "\<lambda>_. 0xAA" "0x1018"]
    clear_bss_exact [of "0x1000" "0x1013" "\<lambda>_. 0xAA" "0x100F"] clear_bss_exact [of "0x1000" "0x1013" "\<lambda>_. 0xAA" "0x1010"]
  by simp

text \<open>
  C22: what an exception on AArch64 does to the interrupted program, for a handler compiled to the
  procedure call standard. The stack pointer and the registers \<^verbatim>\<open>x3\<close> to \<^verbatim>\<open>x9\<close>, \<^verbatim>\<open>x12\<close> to \<^verbatim>\<open>x17\<close> and
  \<^verbatim>\<open>x19\<close> to \<^verbatim>\<open>x29\<close> come back as they were. For a synchronous exception or an interrupt \<^verbatim>\<open>x0\<close> to
  \<^verbatim>\<open>x2\<close> come back as the syndrome, the fault address and the user stack pointer, since the vector
  overwrites them before they are saved. \<^verbatim>\<open>x18\<close> comes back as the address of the frame, and
  \<^verbatim>\<open>x10\<close>, \<^verbatim>\<open>x11\<close> and \<^verbatim>\<open>x30\<close> as whatever the handler left in them.
\<close>

theorem exception_return_registers:
  assumes f: "aapcs handle_exception" and sp: "256 \<le> unat (stack_ptr c)"
    and v: "v \<in> {El1_Sync, El1_Irq, El0_Sync, El0_Irq}"
    and h: "handle_exception (exception_entry v ra (c, m)) = (ch, mh)"
    and r: "exception_handler handle_exception v ra (c, m) = (c', m')"
  shows "stack_ptr c' = stack_ptr c \<and>
    (\<forall>i. i \<in> {3..9} \<union> {12..17} \<union> {19..29} \<longrightarrow> xr c' i = xr c i) \<and>
    xr c' 0 = esr_el1 c \<and> xr c' 1 = far_el1 c \<and> xr c' 2 = sp_el0 c \<and> xr c' 18 = stack_ptr c - 256 \<and>
    (\<forall>i \<in> {10, 11, 30}. xr c' i = xr ch i)"
proof -
  define c1 where "c1 = c\<lparr>xr := (xr c)(0 := esr_el1 c, 1 := far_el1 c, 2 := sp_el0 c)\<rparr>"
  have sp1: "stack_ptr c1 = stack_ptr c" by (simp add: c1_def)
  define M where "M = snd (exc_run exception_save (c1, m))"
  have "exc_run (vector_code v) (c, m) = (c1, m)" using v by (auto simp: vector_code_run c1_def)
  then have e: "exception_entry v ra (c, m) =
      (c1\<lparr>stack_ptr := stack_ptr c - 256, xr := (xr c1)(18 := stack_ptr c - 256, 30 := ra)\<rparr>, M)"
    by (simp add: exception_entry_def exc_run_append exception_save_run M_def sp1)
  have k: "stack_ptr ch = stack_ptr c - 256" "\<And>i. 19 \<le> i \<Longrightarrow> i \<le> 29 \<Longrightarrow> xr ch i = xr c i"
    "\<And>a. unat (stack_ptr c - 256) \<le> unat a \<Longrightarrow> unat a < unat (stack_ptr c - 256) + 160 \<Longrightarrow> mh a = M a"
    using f [unfolded aapcs_def, rule_format, of "fst (exception_entry v ra (c, m))" M] h e
    by (auto simp: c1_def)
  have w: "load64 mh (stack_ptr c - 256 + 8 * of_nat i) = saved_word c1 i" if "i < 20" for i
    using exception_frame [of c1 i mh m] sp that k(3) by (simp add: sp1 M_def)
  have c': "c' = ch\<lparr>stack_ptr := stack_ptr c,
      xr := (\<lambda>i. if i \<in> {10, 11} \<or> 18 < i then xr ch i else load64 mh (stack_ptr c - 256 + 8 * of_nat i))\<rparr>"
    using r exception_restore_run [of ch mh, unfolded k(1)] by (simp add: exception_handler_def h)
  show ?thesis
    using k(2) w [of 0] w [of 1] w [of 2] w [of 18]
    by (auto simp: c' w saved_word_def sp1) (auto simp: c1_def)
qed


text \<open>A handler that uses the registers a function may use, and a processor to interrupt.\<close>

definition clobbering_handler :: "exc_cpu \<times> mem \<Rightarrow> exc_cpu \<times> mem" where
  "clobbering_handler st = (case st of (c, m) \<Rightarrow> (c\<lparr>xr := (\<lambda>i. if 19 \<le> i \<and> i \<le> 29 then xr c i else 0xDEAD)\<rparr>, m))"

definition demo_exc :: exc_cpu where
  "demo_exc = \<lparr>xr = (\<lambda>i. of_nat i), sp_el0 = 0x7000, stack_ptr = 0x8000, esr_el1 = 0x96000045, far_el1 = 0x10\<rparr>"

theorem exception_return_registers_witness:
  "let c' = fst (exception_handler clobbering_handler El1_Sync 0x100 (demo_exc, \<lambda>_. 0)) in
   xr c' 0 = 0x96000045 \<and> xr c' 5 = 5 \<and> xr c' 10 = 0xDEAD \<and> xr c' 20 = 20"
proof -
  have f: "aapcs clobbering_handler" by (auto simp: aapcs_def clobbering_handler_def)
  have s: "256 \<le> unat (stack_ptr demo_exc)" by (simp add: demo_exc_def)
  obtain ch mh where h: "clobbering_handler (exception_entry El1_Sync 0x100 (demo_exc, \<lambda>_. 0)) = (ch, mh)" by fastforce
  obtain c' m' where r: "exception_handler clobbering_handler El1_Sync 0x100 (demo_exc, \<lambda>_. 0) = (c', m')" by fastforce
  have "xr ch 10 = 0xDEAD" using h by (auto simp: clobbering_handler_def split: prod.splits)
  with exception_return_registers [OF f s _ h r] r show ?thesis by (auto simp: demo_exc_def)
qed

text \<open>
  the pointer to the information of the boot loader, which the x86-64 entry code pushes on the
  boot stack, is lost: the stack lies in the static data, which is cleared next.
\<close>

theorem multiboot_pointer_lost:
  assumes "unat bss_start \<le> unat (stack_top - 8)" "unat (stack_top - 8) + 8 \<le> unat bss_start + 8 * ((unat bss_end - unat bss_start) div 8)"
    and "unat bss_start \<le> unat bss_end" "unat bss_end + 8 \<le> 2 ^ 63"
  shows "peek64 (x86_entry_state stack_top bss_start bss_end s) (stack_top - 8) = 0"
proof (rule load64_zero)
  fix x assume "x \<in> region (stack_top - 8) 8"
  moreover have "unat (stack_top - 8) + 8 \<le> 2 ^ 64"
    using assms times_div_less_eq_dividend [of 8 "unat bss_end - unat bss_start"] by (simp del: times_div_less_eq_dividend)
  ultimately have "unat (stack_top - 8) \<le> unat x" "unat x < unat (stack_top - 8) + 8"
    by (simp_all add: region_interval del: in_region)
  with clear_bss_exact [OF assms(3,4)] assms(1,2) show "kmem (x86_entry_state stack_top bss_start bss_end s) x = 0"
    by simp
qed

theorem multiboot_pointer_lost_witness:
  "peek64 (x86_entry_state 0x9000 0x4000 0xA000 mmu_demo) 0x8FF8 = 0"
  using multiboot_pointer_lost [of "0x4000" "0x9000" "0xA000" mmu_demo] by simp

end
