(* ===== verification/Start.thy ===== *)
theory Start
  imports Entry
begin

text \<open>
  The entry code of the AArch64 kernel, \<^verbatim>\<open>boot/boot.S\<close> from \<^verbatim>\<open>_start\<close> to \<^verbatim>\<open>halt\<close> and the routines for early
  output, as a program of a machine with a program counter, the general-purpose registers, the
  condition flags, the exception level, the system registers the code names, memory and the serial
  device. No access faults: the eight-byte store to offset \<^verbatim>\<open>0x4C\<close> of the serial device, which is not
  aligned and may fault on device memory, is two stores of four bytes here. Calls and returns go through \<^verbatim>\<open>x30\<close> as on the processor, so what a routine does to the
  return address of another is a consequence of the instructions.
\<close>

section \<open>The machine\<close>

text \<open>
  What the linker decides: where the code lies, where the messages, the vector table, the end of the
  boot stack and the bounds of the static data are; and which addresses belong to a device.
\<close>

record boot_image =
  start_at :: u64
  early_at :: u64
  messages_at :: u64
  exception_vectors :: u64
  boot_stack_top :: u64
  image_bss_start :: u64
  image_bss_end :: u64
  device :: "u64 \<Rightarrow> bool"

datatype sysreg = SPSel | SPSR_EL1 | VBAR_EL1 | CurrentEL | SCR_EL3 | HCR_EL2 | SPSR_EL2

text \<open>The lowest exception level at which a register can be accessed.\<close>

fun sys_level :: "sysreg \<Rightarrow> nat" where
  "sys_level SCR_EL3 = 3"
| "sys_level HCR_EL2 = 2"
| "sys_level SPSR_EL2 = 2"
| "sys_level _ = 1"

datatype c_entry = C_mmu_enable | C_kernel_main

text \<open>
  Instructions are named after their mnemonics, with \<open>W\<close> for the 32-bit form, \<open>ZR\<close> for the zero register
  as the operand stored or written, and \<open>POST\<close> for a post-indexed access. Targets of branches are
  positions in the program.
\<close>

datatype boot_insn =
    LDR_SYM nat u64 | MOV_IMM nat u64 | MOV_REG nat nat | ORR_IMM nat nat u64 | ANDW_IMM nat nat u32
  | MSR sysreg nat | MSR_ZR sysreg | MRS nat sysreg
  | CMP_IMM nat u64 | CMPW_IMM nat u32 | SUBS nat nat nat | SUBS_IMM nat nat u64
  | LDRW nat nat u64 | LDRB_POST nat nat
  | STRW nat nat u64 | STRW_ZR nat u64 | STRX_ZR nat u64 | STRX_ZR_POST nat
  | B nat | B_NE nat | B_GT nat | CBZ_W nat nat | CBNZ_W nat nat | TBZ_W nat nat nat
  | BL nat | BL_C c_entry | RET | ERET | WFI

text \<open>
  A run stops when it enters C code, at an access to a system register of a higher exception level,
  when it returns to a lower one, and when it leaves the program.
\<close>

datatype boot_status = Running | Enters c_entry | Undefined_Access | Exception_Return nat | Leaves

record boot_cpu =
  breg :: "nat \<Rightarrow> u64"
  pc :: nat
  el :: nat
  sys :: "sysreg \<Rightarrow> u64"
  flag_n :: bool
  flag_z :: bool
  flag_v :: bool
  bmem :: mem
  uart :: "(u64, u32) dev"
  status :: boot_status

section \<open>The program\<close>

text \<open>The messages follow each other without a terminator in between.\<close>

definition early_msgs :: "string list" where
  "early_msgs =
     [''[BOOT] Initializing...\<newline>'',
      ''[BOOT] Stack setup done\<newline>'',
      ''[BOOT] EL2 detected, downgrading...\<newline>'',
      ''[BOOT] Running at EL1\<newline>'',
      ''[BOOT] BSS cleared, about to enable MMU\<newline>'']"

definition early_msg :: "boot_image \<Rightarrow> nat \<Rightarrow> u64" where
  "early_msg L k = messages_at L + of_nat (length (concat (take (k - 1) early_msgs)))"

definition messages_loaded :: "boot_image \<Rightarrow> mem \<Rightarrow> bool" where
  "messages_loaded L m \<longleftrightarrow>
     (\<forall>i<length (concat early_msgs). m (messages_at L + of_nat i) = of_char (concat early_msgs ! i))"

definition start_code :: "boot_image \<Rightarrow> boot_insn list" where
  "start_code L =
     [LDR_SYM 1 (boot_stack_top L), MSR SPSel 1,
      BL 44, LDR_SYM 0 (early_msg L 1), BL 69,
      MOV_REG 20 0,
      MRS 1 SPSR_EL1, ORR_IMM 1 1 0xC0, MSR SPSR_EL1 1,
      LDR_SYM 1 (exception_vectors L), MSR VBAR_EL1 1,
      LDR_SYM 1 (boot_stack_top L), MSR SPSel 1,
      LDR_SYM 0 (early_msg L 2), BL 69,
      MRS 1 CurrentEL, CMP_IMM 1 4, B_NE 28,
      LDR_SYM 0 (early_msg L 3), BL 69,
      MRS 0 SCR_EL3, ORR_IMM 0 0 3, MSR SCR_EL3 0,
      MSR_ZR HCR_EL2, MSR_ZR SPSR_EL2, ERET,
      LDR_SYM 0 (early_msg L 4), BL 69,
      LDR_SYM 1 (image_bss_start L), LDR_SYM 2 (image_bss_end L), SUBS 2 2 1, B 35,
      STRX_ZR_POST 1, SUBS_IMM 2 2 8, B_GT 32,
      B_GT 32,
      LDR_SYM 0 (early_msg L 5), BL 69,
      BL_C C_mmu_enable,
      MOV_REG 0 20, BL_C C_kernel_main,
      B 42,
      WFI, B 42]"

definition early_uart_init :: "boot_insn list" where
  "early_uart_init =
     [MOV_IMM 0 0x09000000,
      LDRW 1 0 0x18, TBZ_W 1 3 45,
      STRW_ZR 0 0x30,
      STRW_ZR 0 0x3C, STRX_ZR 0 0x4C,
      MOV_IMM 1 0x301, STRW 1 0 0x30,
      RET]"

definition early_putchar :: "boot_insn list" where
  "early_putchar =
     [MOV_IMM 1 0x09000000,
      LDRW 2 1 0x18, ANDW_IMM 2 2 0x20, CBNZ_W 2 54,
      CMPW_IMM 0 0x0A, B_NE 60,
      MOV_IMM 3 0x09000000,
      LDRW 2 3 0x18, ANDW_IMM 2 2 0x20, CBNZ_W 2 60,
      STRW_ZR 3 0,
      LDRW 2 1 0x18, ANDW_IMM 2 2 0x20, CBNZ_W 2 64,
      STRW 0 1 0,
      RET]"

definition early_putstr :: "boot_insn list" where
  "early_putstr = [MOV_REG 1 0, LDRB_POST 2 1, CBZ_W 2 75, MOV_REG 0 2, BL 53, B 70, RET]"

definition boot_code :: "boot_image \<Rightarrow> boot_insn list" where
  "boot_code L = start_code L @ early_uart_init @ early_putchar @ early_putstr"

definition code_addr :: "boot_image \<Rightarrow> nat \<Rightarrow> u64" where
  "code_addr L i = (if i < 44 then start_at L + 4 * of_nat i else early_at L + 4 * of_nat (i - 44))"

definition code_index :: "boot_image \<Rightarrow> u64 \<Rightarrow> nat option" where
  "code_index L a = find (\<lambda>i. code_addr L i = a) [0..<76]"

section \<open>Execution\<close>

definition load32 :: "mem \<Rightarrow> u64 \<Rightarrow> u32" where
  "load32 m a = ucast (load64 m a)"

definition store32 :: "mem \<Rightarrow> u64 \<Rightarrow> u32 \<Rightarrow> mem" where
  "store32 m a v = (\<lambda>x. if x - a < 4 then ucast (drop_bit (8 * unat (x - a)) v) else m x)"

definition load_w :: "boot_image \<Rightarrow> u64 \<Rightarrow> boot_cpu \<Rightarrow> u32 \<times> boot_cpu" where
  "load_w L a c =
     (if device L a then (case dev_read a (uart c) of (v, d) \<Rightarrow> (v, c\<lparr>uart := d\<rparr>))
      else (load32 (bmem c) a, c))"

definition load_b :: "boot_image \<Rightarrow> u64 \<Rightarrow> boot_cpu \<Rightarrow> u8 \<times> boot_cpu" where
  "load_b L a c =
     (if device L a then (case dev_read a (uart c) of (v, d) \<Rightarrow> (ucast v, c\<lparr>uart := d\<rparr>))
      else (bmem c a, c))"

definition store_w :: "boot_image \<Rightarrow> u64 \<Rightarrow> u32 \<Rightarrow> boot_cpu \<Rightarrow> boot_cpu" where
  "store_w L a v c =
     (if device L a then c\<lparr>uart := dev_write a v (uart c)\<rparr> else c\<lparr>bmem := store32 (bmem c) a v\<rparr>)"

text \<open>A 64-bit store of zero; to a device it is the store of two words.\<close>

definition store_x0 :: "boot_image \<Rightarrow> u64 \<Rightarrow> boot_cpu \<Rightarrow> boot_cpu" where
  "store_x0 L a c =
     (if device L a then c\<lparr>uart := dev_write (a + 4) 0 (dev_write a 0 (uart c))\<rparr>
      else c\<lparr>bmem := store64 (bmem c) a 0\<rparr>)"

definition set_flags :: "'b::len word \<Rightarrow> 'b word \<Rightarrow> boot_cpu \<Rightarrow> boot_cpu" where
  "set_flags a b c =
     c\<lparr>flag_n := sint (a - b) < 0, flag_z := a = b, flag_v := sint (a - b) \<noteq> sint a - sint b\<rparr>"

definition cond_gt :: "boot_cpu \<Rightarrow> bool" where
  "cond_gt c \<longleftrightarrow> \<not> flag_z c \<and> flag_n c = flag_v c"

definition set_reg :: "nat \<Rightarrow> u64 \<Rightarrow> boot_cpu \<Rightarrow> boot_cpu" where
  "set_reg r v c = c\<lparr>breg := (breg c)(r := v)\<rparr>"

definition wreg :: "boot_cpu \<Rightarrow> nat \<Rightarrow> u32" where
  "wreg c r = ucast (breg c r)"

definition goto :: "nat \<Rightarrow> boot_cpu \<Rightarrow> boot_cpu" where
  "goto k c = c\<lparr>pc := k\<rparr>"

definition advance :: "boot_cpu \<Rightarrow> boot_cpu" where
  "advance c = c\<lparr>pc := Suc (pc c)\<rparr>"

definition branch_if :: "bool \<Rightarrow> nat \<Rightarrow> boot_cpu \<Rightarrow> boot_cpu" where
  "branch_if b k c = (if b then goto k c else advance c)"

text \<open>
  Only bit 0 of \<^verbatim>\<open>SPSel\<close> exists; \<^verbatim>\<open>CurrentEL\<close> has the level in bits 2 and 3. An exception return at EL2
  goes to the level in bits 2 and 3 of \<^verbatim>\<open>SPSR_EL2\<close>; the address is in a register no code here writes.
\<close>

definition sys_write :: "sysreg \<Rightarrow> u64 \<Rightarrow> boot_cpu \<Rightarrow> boot_cpu" where
  "sys_write r v c =
     (if el c < sys_level r then c\<lparr>status := Undefined_Access\<rparr>
      else advance (c\<lparr>sys := (sys c)(r := (if r = SPSel then v AND 1 else v))\<rparr>))"

definition sys_read :: "sysreg \<Rightarrow> boot_cpu \<Rightarrow> u64" where
  "sys_read r c = (if r = CurrentEL then push_bit 2 (of_nat (el c)) else sys c r)"

fun boot_exec :: "boot_image \<Rightarrow> boot_insn \<Rightarrow> boot_cpu \<Rightarrow> boot_cpu" where
  "boot_exec L (LDR_SYM r v) c = advance (set_reg r v c)"
| "boot_exec L (MOV_IMM r v) c = advance (set_reg r v c)"
| "boot_exec L (MOV_REG r a) c = advance (set_reg r (breg c a) c)"
| "boot_exec L (ORR_IMM r a k) c = advance (set_reg r (breg c a OR k) c)"
| "boot_exec L (ANDW_IMM r a k) c = advance (set_reg r (ucast (wreg c a AND k)) c)"
| "boot_exec L (MSR s a) c = sys_write s (breg c a) c"
| "boot_exec L (MSR_ZR s) c = sys_write s 0 c"
| "boot_exec L (MRS r s) c =
     (if el c < sys_level s then c\<lparr>status := Undefined_Access\<rparr> else advance (set_reg r (sys_read s c) c))"
| "boot_exec L (CMP_IMM a k) c = advance (set_flags (breg c a) k c)"
| "boot_exec L (CMPW_IMM a k) c = advance (set_flags (wreg c a) k c)"
| "boot_exec L (SUBS r a b) c = advance (set_reg r (breg c a - breg c b) (set_flags (breg c a) (breg c b) c))"
| "boot_exec L (SUBS_IMM r a k) c = advance (set_reg r (breg c a - k) (set_flags (breg c a) k c))"
| "boot_exec L (LDRW r a k) c = (case load_w L (breg c a + k) c of (v, c) \<Rightarrow> advance (set_reg r (ucast v) c))"
| "boot_exec L (LDRB_POST r a) c =
     (case load_b L (breg c a) c of (v, c) \<Rightarrow> advance (set_reg r (ucast v) (set_reg a (breg c a + 1) c)))"
| "boot_exec L (STRW r a k) c = advance (store_w L (breg c a + k) (wreg c r) c)"
| "boot_exec L (STRW_ZR a k) c = advance (store_w L (breg c a + k) 0 c)"
| "boot_exec L (STRX_ZR a k) c = advance (store_x0 L (breg c a + k) c)"
| "boot_exec L (STRX_ZR_POST a) c = advance (set_reg a (breg c a + 8) (store_x0 L (breg c a) c))"
| "boot_exec L (B k) c = goto k c"
| "boot_exec L (B_NE k) c = branch_if (\<not> flag_z c) k c"
| "boot_exec L (B_GT k) c = branch_if (cond_gt c) k c"
| "boot_exec L (CBZ_W r k) c = branch_if (wreg c r = 0) k c"
| "boot_exec L (CBNZ_W r k) c = branch_if (wreg c r \<noteq> 0) k c"
| "boot_exec L (TBZ_W r n k) c = branch_if (\<not> bit (wreg c r) n) k c"
| "boot_exec L (BL k) c = goto k (set_reg 30 (code_addr L (Suc (pc c))) c)"
| "boot_exec L (BL_C f) c = (set_reg 30 (code_addr L (Suc (pc c))) c)\<lparr>status := Enters f\<rparr>"
| "boot_exec L RET c =
     (case code_index L (breg c 30) of Some k \<Rightarrow> goto k c | None \<Rightarrow> c\<lparr>status := Leaves\<rparr>)"
| "boot_exec L ERET c = c\<lparr>status := Exception_Return (unat (drop_bit 2 (sys c SPSR_EL2) AND 3))\<rparr>"
| "boot_exec L WFI c = advance c"

definition boot_step :: "boot_image \<Rightarrow> boot_cpu \<Rightarrow> boot_cpu" where
  "boot_step L c =
     (if status c \<noteq> Running then c
      else if pc c < 76 then boot_exec L (boot_code L ! pc c) c
      else c\<lparr>status := Leaves\<rparr>)"

text \<open>The states a run goes through.\<close>

inductive boot_run :: "boot_image \<Rightarrow> boot_cpu \<Rightarrow> boot_cpu \<Rightarrow> bool" for L where
  start: "boot_run L c c"
| step: "boot_run L c c' \<Longrightarrow> boot_run L c (boot_step L c')"


section \<open>Single steps\<close>

lemmas boot_code_defs = boot_code_def start_code_def early_uart_init_def early_putchar_def early_putstr_def

lemma length_boot_code: "length (boot_code L) = 76"
  by (simp add: boot_code_defs)

lemma boot_step_at:
  "status c = Running \<Longrightarrow> pc c = k \<Longrightarrow> k < 76 \<Longrightarrow> boot_step L c = boot_exec L (boot_code L ! k) c"
  by (simp add: boot_step_def)

lemma code_index_addr:
  assumes "distinct (map (code_addr L) [0..<76])" "k < 76"
  shows "code_index L (code_addr L k) = Some k"
proof -
  have inj: "inj_on (code_addr L) {0..<76}" using assms(1) by (simp add: distinct_map)
  have "code_addr L j \<noteq> code_addr L k" if "j < k" for j
    using inj_onD [OF inj, of j k] that assms(2) by auto
  then show ?thesis using assms(2) by (auto simp: code_index_def find_Some_iff intro!: exI [of _ k])
qed

named_theorems boot_simps
lemmas [boot_simps] = set_reg_def goto_def advance_def branch_if_def wreg_def sys_write_def sys_read_def
  load_w_def load_b_def store_w_def store_x0_def set_flags_def dev_read_def dev_write_def

lemma signed_take_bit_overflow:
  fixes d :: int
  assumes "- (2 ^ 64) < d" "d < 2 ^ 64"
  shows "signed_take_bit 63 d = (if d < - (2 ^ 63) then d + 2 ^ 64 else if d < 2 ^ 63 then d else d - 2 ^ 64)"
proof -
  have m: "signed_take_bit 63 d = (d + 2 ^ 63) mod 2 ^ 64 - 2 ^ 63"
    by (simp add: signed_take_bit_eq_take_bit_shift take_bit_eq_mod)
  consider "d < - (2 ^ 63)" | "- (2 ^ 63) \<le> d" "d < 2 ^ 63" | "2 ^ 63 \<le> d" by linarith
  then show ?thesis
  proof cases
    case 1
    have "(d + 2 ^ 63) mod 2 ^ 64 = (d + 2 ^ 63 + 2 ^ 64) mod 2 ^ 64" by (simp only: mod_add_self2)
    also have "\<dots> = d + 2 ^ 63 + 2 ^ 64" using 1 assms by (intro mod_pos_pos_trivial) simp_all
    finally show ?thesis unfolding m using 1 by simp
  next
    case 2
    have "(d + 2 ^ 63) mod 2 ^ 64 = d + 2 ^ 63" using 2 by (intro mod_pos_pos_trivial) simp_all
    then show ?thesis unfolding m using 2 by simp
  next
    case 3
    have "(d + 2 ^ 63) mod 2 ^ 64 = (d + 2 ^ 63 - 2 ^ 64) mod 2 ^ 64" by (simp only: minus_mod_self2)
    also have "\<dots> = d + 2 ^ 63 - 2 ^ 64" using 3 assms by (intro mod_pos_pos_trivial) simp_all
    finally show ?thesis unfolding m using 3 by simp
  qed
qed

lemma cond_gt_flags [simp]: "cond_gt (set_flags (a :: u64) b c) \<longleftrightarrow> b <s a"
proof -
  have r: "- (2 ^ 63) \<le> sint a" "sint a < 2 ^ 63" "- (2 ^ 63) \<le> sint b" "sint b < 2 ^ 63"
    using sint_ge [of a] sint_lt [of a] sint_ge [of b] sint_lt [of b] by simp_all
  then have "sint (a - b) = (let d = sint a - sint b in
      if d < - (2 ^ 63) then d + 2 ^ 64 else if d < 2 ^ 63 then d else d - 2 ^ 64)"
    using signed_take_bit_overflow [of "sint a - sint b"] by (simp add: sint_word_diff Let_def)
  moreover have "a = b \<longleftrightarrow> sint a = sint b" by (metis signed_word_eqI)
  ultimately show ?thesis using r by (auto simp: cond_gt_def set_flags_def word_sless_alt Let_def)
qed

section \<open>The first message\<close>

text \<open>
  Where the processor can be: before the first message is printed, which is still in memory; or in the
  routines for output, with the return address that of the branch back to the loop of
  \<^verbatim>\<open>early_putstr\<close>.
\<close>

definition first_byte_kept :: "boot_image \<Rightarrow> boot_cpu \<Rightarrow> bool" where
  "first_byte_kept L c \<longleftrightarrow> bmem c (early_msg L 1) \<noteq> 0"

definition before_message :: "boot_image \<Rightarrow> boot_cpu \<Rightarrow> bool" where
  "before_message L c \<longleftrightarrow> first_byte_kept L c \<and>
     (pc c \<in> {0..<4} \<or> pc c = 4 \<and> breg c 0 = early_msg L 1 \<or>
      pc c = 44 \<and> breg c 30 = code_addr L 3 \<or>
      pc c \<in> {45..<53} \<and> breg c 30 = code_addr L 3 \<and> breg c 0 = 0x09000000 \<or>
      pc c = 69 \<and> breg c 0 = early_msg L 1 \<or> pc c = 70 \<and> breg c 1 = early_msg L 1)"

definition in_message :: "boot_image \<Rightarrow> boot_cpu \<Rightarrow> bool" where
  "in_message L c \<longleftrightarrow>
     pc c = 71 \<and> wreg c 2 \<noteq> 0 \<or> pc c \<in> {72, 73} \<or>
     pc c \<in> {53..<69} \<union> {70, 71, 74, 75} \<and> breg c 30 = code_addr L 74"

definition uart_mapped :: "boot_image \<Rightarrow> bool" where
  "uart_mapped L \<longleftrightarrow> (\<forall>k<0x1000. device L (0x09000000 + k)) \<and> \<not> device L (early_msg L 1)"

lemma uart_mapped_device:
  assumes "uart_mapped L"
  shows "device L 0x09000018" "device L 0x09000030" "device L 0x0900003C" "device L 0x0900004C"
proof -
  have d: "device L (0x09000000 + k)" if "k < 0x1000" for k using assms that by (simp add: uart_mapped_def)
  show "device L 0x09000018" "device L 0x09000030" "device L 0x0900003C" "device L 0x0900004C"
    using d [of "0x18"] d [of "0x30"] d [of "0x3C"] d [of "0x4C"] by simp_all
qed

lemma unat_u8_less: "unat (b :: u8) < 4294967296"
  using unsigned_less [of b, where 'a = nat] by simp

lemma byte_nonzero: "ucast (ucast (b :: u8) :: u64) = (0 :: u32) \<longleftrightarrow> b = 0"
proof -
  have "ucast (ucast b :: u64) = (ucast b :: u32)" by (rule bit_word_eqI) (auto simp: bit_ucast_iff dest: bit_imp_le_length)
  then show ?thesis by (simp add: word_unat_eq_iff unsigned_ucast_eq take_bit_nat_eq_self unat_u8_less)
qed

lemmas message_defs = before_message_def in_message_def first_byte_kept_def

lemma messages_loaded_first:
  assumes "messages_loaded L m"
  shows "m (early_msg L 1) \<noteq> 0"
proof -
  have "m (messages_at L + of_nat 0) = of_char (concat early_msgs ! 0)"
    using assms [unfolded messages_loaded_def, rule_format, of 0] by (simp add: early_msgs_def)
  then show ?thesis by (simp add: early_msg_def early_msgs_def)
qed

lemma before_message_step:
  assumes "uart_mapped L" "distinct (map (code_addr L) [0..<76])" "1 \<le> el c"
    and "status c = Running" "before_message L c"
  shows "status (boot_step L c) = Running \<and> el (boot_step L c) = el c \<and>
    (before_message L (boot_step L c) \<or> in_message L (boot_step L c))"
proof -
  have "pc c \<in> {0,1,2,3,4,44,45,46,47,48,49,50,51,52,69,70}" and "\<not> device L (early_msg L 1)"
    using assms(1,5) by (auto simp: before_message_def uart_mapped_def)
  then show ?thesis using assms uart_mapped_device [OF assms(1)]
    by (elim insertE emptyE)
      (simp_all add: boot_step_at boot_code_defs boot_simps message_defs code_index_addr byte_nonzero)
qed

lemma in_message_step:
  assumes "distinct (map (code_addr L) [0..<76])" "status c = Running" "in_message L c"
  shows "status (boot_step L c) = Running \<and> el (boot_step L c) = el c \<and> in_message L (boot_step L c)"
proof -
  have "set [53..<76] = {53,54,55,56,57,58,59,60,61,62,63,64,65,66,67,68,69,70,71,72,73,74,75}"
    by (simp add: upt_rec del: set_upt)
  moreover have "53 \<le> pc c" "pc c < 76" using assms(3) by (auto simp: in_message_def)
  then have "pc c \<in> set [53..<76]" by (simp only: set_upt atLeastLessThan_iff)
  ultimately have "pc c \<in> {53,54,55,56,57,58,59,60,61,62,63,64,65,66,67,68,69,70,71,72,73,74,75}" by (simp only:)
  then show ?thesis using assms
    by (elim insertE emptyE)
      (simp_all add: boot_step_at boot_code_defs boot_simps message_defs code_index_addr)
qed

lemma boot_run_message:
  assumes "boot_run L c0 c" "uart_mapped L" "distinct (map (code_addr L) [0..<76])" "1 \<le> el c0"
    and "status c0 = Running" "pc c0 = 0" "bmem c0 (early_msg L 1) \<noteq> 0"
  shows "status c = Running \<and> 1 \<le> el c \<and> (before_message L c \<or> in_message L c)"
  using assms
proof (induction rule: boot_run.induct)
  case (start c)
  then show ?case by (simp add: message_defs)
next
  case (step c0 c)
  then have h: "status c = Running" "1 \<le> el c" "before_message L c \<or> in_message L c" by simp_all
  from h(3) show ?case
  proof
    assume "before_message L c"
    from before_message_step [OF step.prems(1,2) h(2,1) this] h(2) show ?thesis by auto
  next
    assume "in_message L c"
    from in_message_step [OF step.prems(2) h(1) this] h(2) show ?thesis by auto
  qed
qed


section \<open>The rest of the entry code\<close>

lemma boot_run_trans: "boot_run L b c \<Longrightarrow> boot_run L a b \<Longrightarrow> boot_run L a c"
  by (induction rule: boot_run.induct) (auto intro: boot_run.step)

lemma boot_run_step: "boot_run L (boot_step L c) c' \<Longrightarrow> boot_run L c c'"
  by (rule boot_run_trans, assumption, rule boot_run.step, rule boot_run.start)

lemma boot_run_funpow: "boot_run L c ((boot_step L ^^ n) c)"
  by (induction n) (simp_all add: boot_run.intros)

text \<open>One round of the clearing loop, from its store to the branch.\<close>

definition clear_round :: "boot_cpu \<Rightarrow> boot_cpu" where
  "clear_round c = (set_flags (breg c 2) 8 c)\<lparr>
     breg := (breg c)(1 := breg c 1 + 8, 2 := breg c 2 - 8), bmem := store64 (bmem c) (breg c 1) 0,
     pc := if 8 <s breg c 2 then 32 else 35\<rparr>"

lemma cond_gt_cong:
  "flag_n c = flag_n c' \<Longrightarrow> flag_z c = flag_z c' \<Longrightarrow> flag_v c = flag_v c' \<Longrightarrow> cond_gt c = cond_gt c'"
  by (simp add: cond_gt_def)

lemma clear_round_gt [simp]: "cond_gt (clear_round c) \<longleftrightarrow> 8 <s breg c 2"
  unfolding cond_gt_flags [of "breg c 2" 8 c, symmetric] by (rule cond_gt_cong) (simp_all add: clear_round_def)

lemma clear_round_steps:
  assumes "status c = Running" "pc c = 32" "\<not> device L (breg c 1)"
  shows "boot_step L (boot_step L (boot_step L c)) = clear_round c"
proof -
  define c1 where "c1 = c\<lparr>breg := (breg c)(1 := breg c 1 + 8), bmem := store64 (bmem c) (breg c 1) 0, pc := 33\<rparr>"
  have 1: "boot_step L c = c1"
    using assms by (simp add: boot_step_at boot_code_defs c1_def set_reg_def advance_def store_x0_def)
  define c2 where "c2 = (set_flags (breg c 2) 8 c)\<lparr>
     breg := (breg c)(1 := breg c 1 + 8, 2 := breg c 2 - 8), bmem := store64 (bmem c) (breg c 1) 0, pc := 34\<rparr>"
  have 2: "boot_step L c1 = c2"
    using assms by (simp add: boot_step_at boot_code_defs c1_def c2_def set_reg_def advance_def set_flags_def)
  have "cond_gt c2 \<longleftrightarrow> 8 <s breg c 2"
    unfolding cond_gt_flags [of "breg c 2" 8 c, symmetric] by (rule cond_gt_cong) (simp_all add: c2_def)
  then have "boot_step L c2 = clear_round c"
    using assms by (simp add: boot_step_at boot_code_defs c2_def clear_round_def branch_if_def goto_def advance_def
        set_flags_def)
  with 1 2 show ?thesis by simp
qed

lemma clear_loop_run:
  assumes "status c = Running" "pc c = 32" "x1 = breg c 1" "x2 = breg c 2" "m = bmem c"
    and "\<forall>i. 8 * i < sint x2 \<longrightarrow> \<not> device L (x1 + 8 * of_int i) \<or> i < 0"
    and "0 < sint x2"
  shows "\<exists>c'. boot_run L c c' \<and> status c' = Running \<and> pc c' = 36 \<and> bmem c' = arm_clear_loop x1 x2 m"
  using assms
proof (induction x1 x2 m arbitrary: c rule: arm_clear_loop.induct)
  case (1 x1 x2 m)
  note c0 = 1(2-6)
  have "\<not> device L x1" using spec [OF 1(7), of 0] 1(8) by simp
  then have r: "boot_step L (boot_step L (boot_step L c)) = clear_round c" using c0 by (intro clear_round_steps) simp_all
  show ?case
  proof (cases "8 <s x2")
    case True
    note s = sint_minus_8(1) [OF True] and d = sint_minus_8(2) [OF True]
    have ih: "\<exists>c'. boot_run L (clear_round c) c' \<and> status c' = Running \<and> pc c' = 36 \<and>
        bmem c' = arm_clear_loop (x1 + 8) (x2 - 8) (store64 m x1 0)"
    proof (rule 1(1) [OF refl True])
      show "\<forall>i. 8 * i < sint (x2 - 8) \<longrightarrow> \<not> device L (x1 + 8 + 8 * of_int i) \<or> i < 0"
      proof (intro allI impI)
        fix i :: int assume "8 * i < sint (x2 - 8)"
        with spec [OF 1(7), of "i + 1"] d show "\<not> device L (x1 + 8 + 8 * of_int i) \<or> i < 0"
          by (auto simp: algebra_simps)
      qed
    qed (use c0 True s d in \<open>simp_all add: clear_round_def set_flags_def\<close>)
    have e: "arm_clear_loop x1 x2 m = arm_clear_loop (x1 + 8) (x2 - 8) (store64 m x1 0)"
      using True by (simp add: arm_clear_loop.simps [of x1 x2])
    from ih obtain c' where c': "boot_run L (clear_round c) c'" "status c' = Running \<and> pc c' = 36 \<and>
        bmem c' = arm_clear_loop x1 x2 m" unfolding e by (elim exE conjE) simp
    have "boot_run L c c'" using c'(1) unfolding r [symmetric] by (rule boot_run_step [OF boot_run_step [OF boot_run_step]])
    with c'(2) show ?thesis by (intro exI [of _ c']) simp
  next
    case False
    let ?c = "boot_step L (clear_round c)"
    have c: "status (clear_round c) = Running" "pc (clear_round c) = 35" "bmem (clear_round c) = store64 m x1 0"
      using False c0 by (simp_all add: clear_round_def set_flags_def)
    have s: "status ?c = Running" "pc ?c = 36" "bmem ?c = store64 m x1 0"
      using False c0 c by (simp_all add: boot_step_at boot_code_defs branch_if_def advance_def)
    have "boot_run L c ?c" unfolding r [symmetric] by (rule boot_run_step [OF boot_run_step [OF boot_run_step [OF boot_run_step]]], rule boot_run.start)
    moreover have "arm_clear_loop x1 x2 m = store64 m x1 0" using False by (simp add: arm_clear_loop.simps [of x1 x2])
    ultimately show ?thesis using s by (intro exI [of _ ?c]) simp
  qed
qed

text \<open>The entry to the loop: the bounds are loaded and compared, then the branch after the loop decides.\<close>

definition clear_entry :: "boot_image \<Rightarrow> boot_cpu \<Rightarrow> boot_cpu" where
  "clear_entry L c = (set_flags (image_bss_end L) (image_bss_start L) c)\<lparr>
     breg := (breg c)(1 := image_bss_start L, 2 := image_bss_end L - image_bss_start L),
     pc := if image_bss_start L <s image_bss_end L then 32 else 36\<rparr>"

lemma clear_entry_run:
  assumes "status c = Running" "pc c = 28"
  shows "boot_run L c (clear_entry L c)"
proof -
  define c2 where "c2 = c\<lparr>breg := (breg c)(1 := image_bss_start L, 2 := image_bss_end L), pc := 30\<rparr>"
  have 1: "boot_step L (boot_step L c) = c2"
    using assms by (simp add: boot_step_at boot_code_defs c2_def set_reg_def advance_def)
  define c4 where "c4 = (set_flags (image_bss_end L) (image_bss_start L) c)\<lparr>
     breg := (breg c)(1 := image_bss_start L, 2 := image_bss_end L - image_bss_start L), pc := 35\<rparr>"
  have 2: "boot_step L (boot_step L c2) = c4"
    using assms by (simp add: boot_step_at boot_code_defs c2_def c4_def set_reg_def advance_def goto_def set_flags_def)
  have "cond_gt c4 \<longleftrightarrow> image_bss_start L <s image_bss_end L"
    unfolding cond_gt_flags [of _ _ c, symmetric] by (rule cond_gt_cong) (simp_all add: c4_def)
  then have 3: "boot_step L c4 = clear_entry L c"
    using assms by (simp add: boot_step_at boot_code_defs c4_def clear_entry_def branch_if_def goto_def advance_def
        set_flags_def)
  show ?thesis
    unfolding 3 [symmetric] 2 [symmetric] 1 [symmetric]
    by (rule boot_run.step, rule boot_run.step, rule boot_run.step, rule boot_run.step, rule boot_run.step, rule boot_run.start)
qed

lemma word_offset_int:
  assumes "unat bs \<le> unat be" "unat be + 8 \<le> 2 ^ 63" "0 \<le> i" "8 * i < sint (be - bs)"
  shows "unat bs \<le> unat (bs + 8 * of_int i :: u64) \<and> unat (bs + 8 * of_int i :: u64) < unat be"
proof -
  have d: "unat (be - bs) = unat be - unat bs" using assms(1) by (simp add: unat_minus64 word_le_nat_alt)
  then have s: "sint (be - bs) = int (unat be - unat bs)" using assms(2) by (subst sint_small) simp_all
  obtain k where k: "i = int k" using assms(3) nonneg_int_cases by blast
  have lt: "8 * k < unat be - unat bs" using assms(4) unfolding s k by linarith
  have "unat (8 * of_nat k :: u64) = 8 * k" using lt assms(2) by (intro unat_word_offset [of _ "Suc k"]) simp_all
  moreover have "unat (bs + 8 * of_nat k) = unat bs + unat (8 * of_nat k :: u64)"
    using lt assms(2) calculation by (intro unat_plus64) simp
  ultimately show ?thesis using lt by (simp add: k)
qed

text \<open>
  The clearing part of the entry code, executed instruction by instruction, ends at the next message
  and leaves memory as \<open>arm_clear_bss\<close> says.
\<close>

theorem boot_clears_bss:
  assumes "status c = Running" "pc c = 28"
    and "unat (image_bss_start L) \<le> unat (image_bss_end L)" "unat (image_bss_end L) + 8 \<le> 2 ^ 63"
    and "\<forall>a. unat (image_bss_start L) \<le> unat a \<and> unat a < unat (image_bss_end L) \<longrightarrow> \<not> device L a"
  shows "\<exists>c'. boot_run L c c' \<and> status c' = Running \<and> pc c' = 36 \<and>
    bmem c' = arm_clear_bss (image_bss_start L) (image_bss_end L) (bmem c)"
proof (cases "image_bss_start L <s image_bss_end L")
  case False
  then show ?thesis using clear_entry_run [OF assms(1,2), of L] assms(1)
    by (intro exI [of _ "clear_entry L c"]) (simp add: clear_entry_def arm_clear_bss_def set_flags_def)
next
  case True
  let ?c = "clear_entry L c" and ?s = "image_bss_start L" and ?e = "image_bss_end L"
  have c: "status ?c = Running" "pc ?c = 32" "?s = breg ?c 1" "?e - ?s = breg ?c 2" "bmem c = bmem ?c"
    using True assms(1) by (simp_all add: clear_entry_def set_flags_def)
  have nd: "\<forall>i. 8 * i < sint (?e - ?s) \<longrightarrow> \<not> device L (?s + 8 * of_int i) \<or> i < 0"
    using word_offset_int [OF assms(3,4)] assms(5) by (meson not_le)
  have "sint ?s < sint ?e" using True by (simp add: word_sless_alt)
  moreover have "sint (?e - ?s) = int (unat ?e - unat ?s)"
    using assms(3,4) by (subst sint_small) (simp_all add: unat_minus64 word_le_nat_alt)
  moreover have "sint ?s = int (unat ?s)" "sint ?e = int (unat ?e)" using assms(3,4) by (simp_all add: sint_small)
  ultimately have pos: "0 < sint (?e - ?s)" by linarith
  obtain c' where c': "boot_run L ?c c'" "status c' = Running" "pc c' = 36" "bmem c' = arm_clear_loop ?s (?e - ?s) (bmem c)"
    using clear_loop_run [OF c nd pos] by (elim exE conjE)
  have "boot_run L c c'" by (rule boot_run_trans [OF c'(1) clear_entry_run [OF assms(1,2)]])
  then show ?thesis using c' True by (intro exI [of _ c']) (simp add: arm_clear_bss_def)
qed

text \<open>
  The test for EL2: \<^verbatim>\<open>CurrentEL\<close> has the level in bits 2 and 3, so the value 4 it is compared with is
  EL1. At EL1 the code goes on to the part meant for EL2, whose first access to \<^verbatim>\<open>SCR_EL3\<close> is undefined
  there; at EL2 it is skipped, so the kernel would go on at EL2.
\<close>

theorem level_check_inverted:
  assumes "status c = Running" "pc c = 15" "el c \<in> {1, 2, 3}"
    and "status c2 = Running" "pc c2 = 20" "el c2 < 3"
  shows "pc (boot_step L (boot_step L (boot_step L c))) = (if el c = 1 then 18 else 28) \<and>
    status (boot_step L (boot_step L (boot_step L c))) = Running \<and>
    status (boot_step L c2) = Undefined_Access"
proof -
  have "push_bit 2 (of_nat (el c)) = (4 :: u64) \<longleftrightarrow> el c = 1" using assms(3) by (auto simp: push_bit_eq_mult)
  moreover have "1 \<le> el c" using assms(3) by auto
  ultimately show ?thesis
    using assms(1,2,4-6) by (simp add: boot_step_at boot_code_defs boot_simps)
qed

section \<open>Properties\<close>

text \<open>
  C40: the entry code of the AArch64 kernel never gets past its first message. Started at \<^verbatim>\<open>_start\<close>
  at any exception level that runs a kernel, with the messages of the image in memory, the processor
  stays forever in the first five instructions and the routines for early output, whatever the memory
  holds and the serial device answers: \<^verbatim>\<open>early_putstr\<close> loses its return address when it calls
  \<^verbatim>\<open>early_putchar\<close>. None of the instructions after the first message is executed, and neither
  \<^verbatim>\<open>mmu_enable\<close> nor \<^verbatim>\<open>kernel_main\<close> is ever entered.
\<close>

theorem arm_entry_never_returns:
  assumes "distinct (map (code_addr L) [0..<76])" "uart_mapped L" "messages_loaded L (bmem c0)"
    and "status c0 = Running" "pc c0 = 0" "1 \<le> el c0"
    and "boot_run L c0 c"
  shows "status c = Running \<and> pc c \<notin> {5..<44}"
proof -
  have "status c = Running \<and> (before_message L c \<or> in_message L c)"
    using boot_run_message [OF assms(7,2,1,6,4,5) messages_loaded_first [OF assms(3)]] by blast
  then show ?thesis by (auto simp: before_message_def in_message_def)
qed

text \<open>An image at the addresses of the linker script, and a processor that starts at EL1.\<close>

definition demo_image :: boot_image where
  "demo_image = \<lparr>start_at = 0x80000, early_at = 0x81000, messages_at = 0x82000,
     exception_vectors = 0x80100, boot_stack_top = 0xA0000, image_bss_start = 0x83000, image_bss_end = 0xA0000,
     device = (\<lambda>a. a - 0x09000000 < 0x1000)\<rparr>"

definition demo_boot :: boot_cpu where
  "demo_boot = \<lparr>breg = (\<lambda>_. 0), pc = 0, el = 1, sys = (\<lambda>_. 0), flag_n = False, flag_z = False, flag_v = False,
     bmem = (\<lambda>a. if unat (a - 0x82000) < 145 then of_char (concat early_msgs ! unat (a - 0x82000)) else 0), uart = \<lparr>reads = \<lambda>_ _. 8, nread = 0, writes = []\<rparr>, status = Running\<rparr>"

theorem arm_entry_never_returns_witness:
  "status ((boot_step demo_image ^^ 1000) demo_boot) = Running \<and> pc ((boot_step demo_image ^^ 1000) demo_boot) \<notin> {5..<44}"
proof (rule arm_entry_never_returns)
  show "distinct (map (code_addr demo_image) [0..<76])"
    by (simp add: code_addr_def demo_image_def upt_rec)
  show "uart_mapped demo_image" by (simp add: uart_mapped_def demo_image_def early_msg_def)
  show "messages_loaded demo_image (bmem demo_boot)"
    by (simp add: messages_loaded_def demo_image_def demo_boot_def early_msgs_def unat_of_nat64)
  show "boot_run demo_image demo_boot ((boot_step demo_image ^^ 1000) demo_boot)" by (rule boot_run_funpow)
qed (simp_all add: demo_boot_def)

end
