(* ===== verification/Spec2Isabelle.thy ===== *)
theory Spec2Isabelle
  imports Start
begin

text \<open>
  A verification library for Shlte OS, a small kernel for AArch64 and x86-64 written in C. The
  theories model the C code under \<^verbatim>\<open>src/lib\<close> and \<^verbatim>\<open>src/arch\<close> and the entry code under
  \<^verbatim>\<open>src/boot\<close>, and prove what each part promises, where it keeps the promise and where it does
  not.

  \<^bold>\<open>The program.\<close> The boot code clears the static data, prints a message and enters
  \<^verbatim>\<open>mmu_enable\<close> of the architecture, which builds the page
  tables and calls \<^verbatim>\<open>kernel_main\<close>. That initialises the memory manager (x86-64 only), the interrupt
  controller, the file system stub and user space, and runs the init process, which calls the
  scheduler ten times. Everything reports through \<^verbatim>\<open>printk\<close>, which formats into a local buffer
  and hands it to a serial driver. The memory manager has a buddy allocator for pages and a slab
  heap on top of it; \<^verbatim>\<open>string.c\<close> has the memory and string functions and \<^verbatim>\<open>vsprintf\<close>;
  \<^verbatim>\<open>process.c\<close> keeps the process table and switches between processes; interrupts and exceptions
  come in through \<^verbatim>\<open>handle_irq\<close> and \<^verbatim>\<open>handle_exception\<close>, system calls through
  \<^verbatim>\<open>syscall_handler\<close>.

  \<^bold>\<open>The model.\<close> Memory is a function from 64-bit addresses to bytes; pointers, \<^verbatim>\<open>size_t\<close> and
  registers are 64-bit words, so address arithmetic wraps as it does in C. The state is a record
  that grows along the imports: memory and the log of \<^verbatim>\<open>printk\<close> requests (\<open>kbase\<close>), the globals
  of the page allocator (\<open>buddy_state\<close>), of the slab heap (\<open>mm_state\<close>), of \<^verbatim>\<open>process.c\<close> and the
  processor (\<open>proc_state\<close>), of the interrupt code (\<open>irq_state\<close>) and of the page tables
  (\<open>mmu_state\<close>); an operation of one part runs unchanged on the state of every later one.
  Structures that the code reaches through pointers (free list nodes, slab headers, page tables,
  the saved registers) are words in memory at their offsets; those it reaches only by name are
  fields, which no store to memory reaches. A statement about memory is therefore about what is in
  memory and not about the named variables, and runs of the kernel (\<open>kernel_run\<close>) are those in which no
  stray pointer stores over the addresses of those variables, a parameter \<open>G\<close>. A call of \<^verbatim>\<open>printk\<close>
  inside another component is recorded in the log with its format and arguments, in the order of the
  code; \<open>flush\<close> carries such requests out on a device, as system calls, \<^verbatim>\<open>printf\<close> and the x86-64 start do,
  which also write to the line themselves.
  Devices answer reads from a stream that is an argument, and record writes. Errors and early
  returns are values: \<open>option\<close> or a sum for the C return codes, \<open>fmt_error\<close> for what makes a
  formatting call undefined, \<open>outcome\<close> for a handler that returns, halts the processor or
  reads outside a table. Loops over C data that may not end (an unterminated string, a cyclic
  free list, a device that is never ready) are \<open>partial_function (option)\<close>, so not returning is
  the value \<open>None\<close> and every claim that a call returns is proved; all other loops are recursive
  functions with a termination proof, or \<open>for_loop\<close> with the bound of the source. No fuel is
  used in the model; \<open>arm_walk\<close>, part of a specification, counts the four levels of a table walk.

  \<^bold>\<open>Theories.\<close>
  \<^item> \<open>Prelude\<close>, \<open>Memory\<close>, \<open>KBase\<close>: integer types, counted loops, loads and stores, linked lists
    in memory (the interface \<open>link_field\<close>, interpreted by free list nodes and slab headers).
  \<^item> \<open>Buddy\<close>, \<open>Buddy_Spec\<close> (\<^verbatim>\<open>mm.c\<close> 21 to 317): bitmap, free lists, \<^verbatim>\<open>alloc_pages\<close>,
    \<^verbatim>\<open>free_pages\<close>. The bitmap refines a set of pages; splitting partitions a block; coalescing
    reaches the enclosing block; release terminates on proper lists; every result of an
    allocation on every branch.
  \<^item> \<open>Mm\<close>, \<open>Mm_Spec\<close>, \<open>Mm_Init\<close> (\<^verbatim>\<open>mm.c\<close> 319 to 633): slab heap, \<^verbatim>\<open>kmalloc\<close>, \<^verbatim>\<open>kfree\<close>,
    \<^verbatim>\<open>krealloc\<close>, the start of the memory manager and the wrappers. What \<^verbatim>\<open>kmalloc\<close> does to the slab it
    takes, that \<^verbatim>\<open>kfree\<close> then changes nothing, and the pool \<^verbatim>\<open>mm_init\<close> sets up.
  \<^item> \<open>CString\<close>, \<open>CString_Spec\<close> (\<^verbatim>\<open>string.c\<close> 12 to 177): every string and memory function, against
    lists of bytes. \<open>Format\<close>, \<open>Format_Spec\<close> (the rest): \<^verbatim>\<open>vsprintf\<close>, its bounds, and that
    printed numbers read back.
  \<^item> \<open>Uart\<close>, \<open>Printk\<close>, \<open>Printk_Spec\<close> (\<^verbatim>\<open>printk.c\<close>): both serial drivers as instances of the
    interface \<open>serial_port\<close>, the formatter of \<^verbatim>\<open>printk\<close>, \<^verbatim>\<open>printk\<close> and \<^verbatim>\<open>panic\<close>.
  \<^item> \<open>Cpu\<close>, \<open>Process\<close>, \<open>Process_Spec\<close>, \<open>Process_Mem\<close> (\<^verbatim>\<open>process.c\<close>): the inline assembly as
    lists of instructions; the process table, creation, scheduler and context switch. The
    scheduler implements the interface \<open>rr_scheduler\<close>, a round robin; creation and scheduling
    are a transition system with an invariant; what creation and a switch do to memory.
  \<^item> \<open>Irq\<close>, \<open>Irq_Spec\<close> (\<^verbatim>\<open>interrupt_dispatch.c\<close>, both \<^verbatim>\<open>interrupt.c\<close> and \<^verbatim>\<open>exception.c\<close>): the
    table of handlers as an instance of \<open>handler_registry\<close>, the two interrupt controllers, the
    outcomes of exceptions.
  \<^item> \<open>Mmu\<close>, \<open>Mmu_Spec\<close> (both \<^verbatim>\<open>mmu.c\<close>): the page tables against the translation the
    architectures define, and the early allocators.
  \<^item> \<open>Services\<close>, \<open>Services_Spec\<close> (\<^verbatim>\<open>syscall.c\<close>, \<^verbatim>\<open>fs.c\<close>, \<^verbatim>\<open>stdio.c\<close>): system calls and
    \<^verbatim>\<open>printf\<close> over any serial port, with the lines the system calls report in between.
  \<^item> \<open>Kernel\<close>, \<open>Boot\<close> (both \<^verbatim>\<open>kernel.c\<close>, \<^verbatim>\<open>mmu_enable\<close>): the start of the C code, and what
    state it leaves for everything above.
  \<^item> \<open>Messages\<close>: which messages \<^verbatim>\<open>printk\<close> can handle. A format is checked against the kinds of its
    arguments and the longest output of each conversion; a message that passes is formatted without
    undefined behaviour, inside the buffer if its strings are short, and printed on any \<open>serial_port\<close>.
  \<^item> \<open>Frames\<close>: what the operations of each component leave alone, as preorders on states, so that
    it carries over to sequences of calls; the log grows only by messages that can be printed.
  \<^item> \<open>Calls\<close>: the kernel as one transition system. The functions with external linkage that change the
    kernel's state, and stores by any code, are a datatype of calls; a run is a sequence of calls
    that return, and an interrupt handler is itself a run of calls. The interface
    \<open>call_relation\<close> carries a relation on states from the single calls, those that halt included, to all
    runs.
  \<^item> \<open>System\<close>: the five interpretations of that interface: the sizes of the tables and the printable
    log, which every call respects; what only the calls that set up a part of the kernel change; the
    absence of memory; the identity of processes; and what the calls other than the scheduler leave
    alone. Then fairness, and the states the start leaves.
  \<^item> \<open>Entry\<close> (\<^verbatim>\<open>boot_x86_64.S\<close>, \<^verbatim>\<open>boot.S\<close> 91 to 100 and 130 to 219): clearing the static data, the
    entry of the x86-64 kernel with its early output, another instance of \<open>serial_port\<close>, and the
    code that saves and restores registers around an exception on AArch64.
  \<^item> \<open>Start\<close> (\<^verbatim>\<open>boot.S\<close> 22 to 124 and 235 to 340): the entry code of the AArch64 kernel as a program
    of a machine with a program counter, flags, exception levels and system registers. A run is an
    inductive relation, and that it never gets past the first message is an invariant of all runs;
    the clearing part refines the function of \<open>Entry\<close>; the test for EL2 is taken at EL1.
  \<^item> This theory: the properties that span components. The x86-64 kernel starts; afterwards its state
    stays well typed whatever is called, and well formed if no part is set up anew; every message it
    logs can be printed; every ready process gets to run whatever else happens; the AArch64 kernel
    never gets any memory unless \<^verbatim>\<open>mm_init\<close> is called.

  \<^bold>\<open>Arguments of the model.\<close> Addresses the linker chooses (tables, bitmap, end of the kernel, entry
  points), the date of the build, the answers of devices, the contents of uninitialised stack
  buffers, the registers the compiler picks for assembly operands, what a registered
  interrupt handler does, and what the compiled \<^verbatim>\<open>handle_exception\<close> does to registers. Where a
  theorem relies on a device, its hypothesis is that the device becomes ready again and again
  (\<open>pl011_live\<close>, \<open>com1_live\<close>); of a handler it is that it makes kernel calls
  (\<open>handlers_call\<close>) from a given set, of the compiled function that it follows the procedure call standard
  (\<open>aapcs\<close>).

  \<^bold>\<open>Not modelled.\<close> Stores of the AArch64 entry code into its own instructions, and faults of its
  accesses; the image layout of the linker scripts and the multiboot header; barriers, cache and TLB
  maintenance, which change nothing in this state; preemption, since the kernel never enables
  interrupts in C code; the functions that \<^verbatim>\<open>process.h\<close> and \<^verbatim>\<open>interrupt.h\<close> declare without a
  definition (\<^verbatim>\<open>fork\<close>, \<^verbatim>\<open>execve\<close>, \<^verbatim>\<open>waitpid\<close>, \<^verbatim>\<open>exit\<close>, \<^verbatim>\<open>interrupts_enable\<close>,
  \<^verbatim>\<open>interrupts_disable\<close>); what compiled C code does to registers and to its own stack frame, apart from
  the buffers of \<^verbatim>\<open>printk\<close> and \<^verbatim>\<open>printf\<close>; stores of stray pointers over named variables. Process
  identifiers and status values are integers; the invariant of the process table shows that they stay
  far from the limits of \<^verbatim>\<open>int\<close>.
\<close>

section \<open>Properties\<close>

text \<open>
  C15: the x86-64 kernel starts. With the serial port getting ready again and again, and the
  variable for the next process number at its initial value, the entry code clears the static
  data, sends its message and enters the kernel, which sends the text of every message it logs (the
  strings for the date and time of the build having at most 310 characters, so that all messages fit
  their buffer) and ends with the processor halted in a state
  from which everything proved of reachable process tables holds, and with the page allocator
  initialised to a pool of 16384 free pages at the first 2 MiB boundary after the kernel image.
\<close>

theorem x86_boot:
  assumes "next_pid s = 1" "\<forall>n. \<exists>k\<ge>n. reads d k (COM1_PORT + 5) AND 0x20 \<noteq> 0"
  shows "\<exists>s' d'. x86_entry T g stk bs be pml4 pdpt pd date time ke bm ia (s, d) = Some (Halts s', d') \<and>
    (\<exists>t. com1_sent d' = com1_sent d @ concat (map crlf boot_msg) @ t \<and>
      (length date + length time \<le> 310 \<longrightarrow>
        t = concat (map crlf (log_text g (length (klog s)) (drop (length (klog s)) (klog s')))))) \<and> proc_reach T s' \<and>
    initialized (buddy s') \<and> pool_pages (buddy s') = 16384 \<and> free_count (buddy s') = 16384 \<and>
    pool_start (buddy s') = align_up 0x200000 ke"
proof -
  obtain s' where s': "x86_mmu_enable T pml4 pdpt pd date time ke bm ia (x86_entry_state stk bs be s) = Halts s'"
    "proc_reach T s'" "initialized (buddy s')" "pool_pages (buddy s') = 16384" "free_count (buddy s') = 16384"
    "pool_start (buddy s') = align_up 0x200000 ke"
    using x86_start [OF x86_entry_state_simps(1) [OF assms(1)], of T pml4 pdpt pd date time ke bm ia stk bs be] by auto
  with x86_entry_prints [OF assms(2) s'(1), of g] show ?thesis by blast
qed

theorem x86_boot_witness:
  "\<exists>s' d'. x86_entry (X86_64 RDI RDI) (\<lambda>_ _. CHR ''Z'') 0x9000 0x4000 0xA000 0x201000 0x202000 0x203000 ''d'' ''t''
       0x300000 0x210000 0x4000 (mmu_demo, idle_com1) = Some (Halts s', d') \<and>
     com1_sent d' = concat (map crlf boot_msg) @ concat (map crlf (log_text (\<lambda>_ _. CHR ''Z'') 0 (klog s'))) \<and>
     proc_reach (X86_64 RDI RDI) s' \<and> pool_start (buddy s') = 0x400000"
proof -
  have "next_pid mmu_demo = 1" "klog mmu_demo = []" by (simp_all add: mmu_demo_def)
  moreover have "com1_sent idle_com1 = []" by (simp add: com1_sent_def com1_line_def idle_com1_def)
  moreover note x86_boot [where s = mmu_demo, OF _ idle_com1_ready, of "X86_64 RDI RDI" "\<lambda>_ _. CHR ''Z''" "0x9000" "0x4000" "0xA000" "0x201000"
      "0x202000" "0x203000" "''d''" "''t''" "0x300000" "0x210000" "0x4000"]
  ultimately show ?thesis by (fastforce simp: align_up_def)
qed

text \<open>
  C3: the invariant of the whole kernel. After the start on x86-64, let any functions out of a set
  \<open>C\<close> of calls be called in any order and with any arguments, by interrupt handlers too, and any code
  store anything anywhere except over the kernel's own variables (the addresses \<open>G\<close>). Then every
  state reached is well typed: 64 processes with the search position and the current process among
  them, 256 interrupt handlers, ten free lists, the early allocator at a page boundary; and from
  any state on the log of messages only grows. If \<open>C\<close> has none of the calls that set up a part of the
  kernel (\<^verbatim>\<open>context_switch\<close>, \<^verbatim>\<open>init_process\<close>, \<^verbatim>\<open>mm_init\<close>, \<^verbatim>\<open>buddy_init\<close>, \<^verbatim>\<open>mmu_init\<close>), every state reached is
  well formed: the process table satisfies its invariant, the page allocator works on the pool
  and bitmap it was given at the start, and the page tables in use are those
  built at the start; process numbers are not taken back, and a process keeps its
  number, parent, name and memory. Of the memory the loader fills, only the two variables with an
  initial value other than zero matter.
\<close>

theorem kernel_invariant:
  assumes "next_pid s = 1" "alloc_ptr s = X86_ALLOC_START"
    and boot: "x86_entry T g stk bs be pml4 pdpt pd date time ke bm ia (s, d) = Some (Halts s0, d0)"
    and h: "handlers_call G C com1_putc g T run"
    and run1: "kernel_run G com1_putc g run T (s0, d0) cs (s1, d1)"
    and run2: "kernel_run G com1_putc g run T (s1, d1) cs' (s2, d2)" and C: "set (cs @ cs') \<subseteq> C"
  shows "kernel_typed s1 \<and> prefix (klog s1) (klog s2) \<and>
    (C \<inter> range Setup = {} \<longrightarrow> x86_kernel_ok pml4 ke bm s1 \<and> next_pid s1 \<le> next_pid s2 \<and>
      (\<forall>i<64. pid (proc s1 i) \<noteq> 0 \<longrightarrow> identity (proc s2 i) = identity (proc s1 i)))"
proof -
  have s0: "proc_reach T s0" "x86_kernel_ok pml4 ke bm s0" using x86_entry_ok [OF assms(1,2) boot] by simp_all
  note all = handlers_call_mono [OF h subset_UNIV]
  have "kernel_typed s1 \<and> prefix (klog s1) (klog s2)"
    using typed.kernel_runs [OF run1 all] typed.kernel_runs [OF run2 all] x86_kernel_ok_typed [OF s0(2)]
    by (simp add: tables_kept_def log_grows_prefix)
  moreover have "x86_kernel_ok pml4 ke bm s1 \<and> next_pid s1 \<le> next_pid s2 \<and>
      (\<forall>i<64. pid (proc s1 i) \<noteq> 0 \<longrightarrow> identity (proc s2 i) = identity (proc s1 i))" if "C \<inter> range Setup = {}"
  proof -
    have sub: "C \<subseteq> - range Setup" and cs: "set cs \<subseteq> - range Setup" "set cs' \<subseteq> - range Setup" using that C by auto
    note h' = handlers_call_mono [OF h sub]
    have s1: "proc_reach T s1" using live.kernel_runs [OF run1 h' cs(1)] s0(1) by (simp add: processes_live_def)
    have "x86_kernel_ok pml4 ke bm s1"
      by (rule x86_kernel_ok_frame [OF s0(2) proc_reach_proc_inv [OF s1] frame.kernel_runs [OF run1 h' cs(1)]])
    then show ?thesis using live.kernel_runs [OF run2 h' cs(2)] s1 by (simp add: processes_live_def)
  qed
  ultimately show ?thesis by blast
qed

theorem kernel_invariant_witness:
  "\<exists>s0 d0 s1. x86_entry (X86_64 RDI RDI) (\<lambda>_ _. CHR ''Z'') 0x9000 0x4000 0xA000 0x201000 0x202000 0x203000 ''d'' ''t''
       0x300000 0x210000 0x4000 (mmu_demo, idle_com1) = Some (Halts s0, d0) \<and>
     kernel_run {} com1_putc (\<lambda>_ _. CHR ''Z'') (\<lambda>_ _. schedule (X86_64 RDI RDI)) (X86_64 RDI RDI) (s0, d0)
       [Create 0x5000 0 0 None, Schedule, Store 0x8000 [1, 2], Kmalloc_Simple 100] (s1, d0) \<and>
     kernel_typed s1 \<and> x86_kernel_ok 0x201000 0x300000 0x210000 s1"
proof -
  let ?T = "X86_64 RDI RDI"
  have d: "next_pid mmu_demo = 1" "alloc_ptr mmu_demo = X86_ALLOC_START" by (simp_all add: mmu_demo_def)
  obtain s0 where "x86_mmu_enable ?T 0x201000 0x202000 0x203000 ''d'' ''t'' 0x300000 0x210000 0x4000
      (x86_entry_state 0x9000 0x4000 0xA000 mmu_demo) = Halts s0"
    using x86_start [OF x86_entry_state_simps(1) [OF d(1)]] by blast
  from x86_entry_prints [OF idle_com1_ready this] obtain d0 where
    s0: "x86_entry ?T (\<lambda>_ _. CHR ''Z'') 0x9000 0x4000 0xA000 0x201000 0x202000 0x203000 ''d'' ''t'' 0x300000 0x210000 0x4000
      (mmu_demo, idle_com1) = Some (Halts s0, d0)" by blast
  let ?cs = "[Create 0x5000 0 0 None, Schedule, Store 0x8000 [1, 2], Kmalloc_Simple 100]"
  obtain s1 where s1: "kernel_run {} com1_putc (\<lambda>_ _. CHR ''Z'') (\<lambda>_ _. schedule ?T) ?T (s0, d0) ?cs (s1, d0)"
    by (simp add: kernel_run_simps)
  have C: "set (?cs @ []) \<subseteq> - range Setup" "Schedule \<in> - range Setup" by auto
  from kernel_invariant [OF d s0 handlers_schedule [OF C(2)] s1 kernel_run.none C(1)] s0 s1 show ?thesis by blast
qed

text \<open>
  C17: every message the kernel ever logs can be printed. After the start on either architecture,
  take any calls in any order, those that set up parts of the kernel and those that halt the processor
  (exit, fatal exceptions, \<^verbatim>\<open>panic\<close>) included: the format of each message in the log agrees in
  number and kind with its arguments, so that formatting it is never undefined. If its string
  arguments have at most 310 characters together, the text and its terminator fit the buffer of
  512 bytes, nothing is written behind the buffer, and \<^verbatim>\<open>printk\<close> returns on both serial ports.
\<close>

theorem kernel_messages_print:
  assumes "klog s = []"
    and "x86_entry T gs stk bs be pml4 pdpt pd date time ke bm ia (s, d) = Some (Halts s0, d0) \<or>
      arm_mmu_enable T l0 l1 ma bs be ia s = Halts s0"
    and h: "handlers_call G UNIV putc gs T run" and r: "kernel_run G putc gs run T (s0, d1) cs (s1, d2)"
    and "s2 = s1 \<or> kernel_call putc gs run T c (s1, d2) = Some q \<and> s2 = fst (left_by q)"
    and "(fmt, args) \<in> set (klog s2)"
  shows "vsprintf_impl sz fmt args g \<noteq> Inl err \<and>
    (sum_list (map arg_length args) \<le> 310 \<longrightarrow>
      (\<exists>b r k. vsprintf_impl 512 fmt args g = Inr (b, r) \<and> k < 512 \<and> b k = CHR 0x00 \<and> (\<forall>i\<ge>512. b i = g i)) \<and>
      (com1_live u \<longrightarrow> (\<exists>r u'. printk com1_putc g fmt args u = Some (Inr (r, u')))) \<and>
      (pl011_live v \<longrightarrow> (\<exists>r v'. printk pl011_putc g fmt args v = Some (Inr (r, v')))))"
proof -
  have "log_grows [] (klog s0)" using assms(1,2) x86_entry_log start_log(2) by metis
  moreover have "log_grows (klog s0) (klog s1)" using typed.kernel_runs [OF r h] by (simp add: tables_kept_def)
  moreover have "log_grows (klog s1) (klog s2)"
    using assms(5) typed.one_call [where c = c and s = s1 and r = q, OF _ UNIV_I typed.handled [OF h]] by (auto simp: tables_kept_def)
  ultimately have ok: "msg_ok (fmt, args)"
    using log_grows_ok [OF log_grows_trans [OF log_grows_trans]] assms(6) by fastforce
  {
    assume "sum_list (map arg_length args) \<le> 310"
    then obtain n where n: "fmt_cost fmt args = Some n" "n \<le> 510" by (rule msg_ok_cost [OF ok])
    obtain b r k where "vsprintf_impl 512 fmt args g = Inr (b, r)" "k \<le> n" "b k = CHR 0x00" "\<forall>i>k. b i = g i"
      using vsprintf_impl_within [OF n, of g] by blast
    with n(2) have "\<exists>b r k. vsprintf_impl 512 fmt args g = Inr (b, r) \<and> k < 512 \<and> b k = CHR 0x00 \<and> (\<forall>i\<ge>512. b i = g i)"
      by (intro exI [of _ b] exI [of _ r] exI [of _ k]) auto
    moreover note com1.printk_returns [OF _ n(1), of u g] pl011.printk_returns [OF _ n(1), of v g]
    ultimately have "(\<exists>b r k. vsprintf_impl 512 fmt args g = Inr (b, r) \<and> k < 512 \<and> b k = CHR 0x00 \<and> (\<forall>i\<ge>512. b i = g i)) \<and>
      (com1_live u \<longrightarrow> (\<exists>r u'. printk com1_putc g fmt args u = Some (Inr (r, u')))) \<and>
      (pl011_live v \<longrightarrow> (\<exists>r v'. printk pl011_putc g fmt args v = Some (Inr (r, v'))))" by blast
  }
  with msg_ok_formats [OF ok] show ?thesis by blast
qed

theorem kernel_messages_print_witness:
  "\<exists>s0 s1 s2 r u'. arm_mmu_enable (AArch64 19 20) 0x400000 0x404000 0x80000 0x90000 0x98000 0x4000 mmu_demo = Halts s0 \<and>
     kernel_run {} pl011_putc (\<lambda>_ _. CHR ''Z'') (\<lambda>_ _. schedule (AArch64 19 20)) (AArch64 19 20) (s0, idle_pl011)
       [Alloc_Pages 0] (s1, idle_pl011) \<and>
     kernel_call pl011_putc (\<lambda>_ _. CHR ''Z'') (\<lambda>_ _. schedule (AArch64 19 20)) (AArch64 19 20)
       (Arm_Exception 0x88000000 0x1234 0) (s1, idle_pl011) = Some (Halts (s2, idle_pl011)) \<and>
     (''[EXC] Data abort at 0x%lx\<newline>'', [VWord 0x1234]) \<in> set (klog s2) \<and>
     printk com1_putc (\<lambda>_. CHR ''Z'') ''[EXC] Data abort at 0x%lx\<newline>'' [VWord 0x1234] idle_com1 = Some (Inr (r, u'))"
proof -
  let ?T = "AArch64 19 20" and ?run = "\<lambda>_ _. schedule (AArch64 19 20)" and ?g = "\<lambda>_ _. CHR ''Z''"
  let ?m = "(''[EXC] Data abort at 0x%lx\<newline>'', [VWord 0x1234])"
  have d: "table_zero mmu_demo" "no_memory mmu_demo" "klog mmu_demo = []"
    by (simp_all add: table_zero_def no_memory_def mmu_demo_def buddy_static_def slab_static_def)
  obtain s0 where s0: "arm_mmu_enable ?T 0x400000 0x404000 0x80000 0x90000 0x98000 0x4000 mmu_demo = Halts s0"
    using arm_start [OF d(1,2)] by blast
  obtain s1 where s1: "kernel_run {} pl011_putc ?g ?run ?T (s0, idle_pl011) [Alloc_Pages 0] (s1, idle_pl011)"
    by (simp add: kernel_run_simps)
  obtain s2 where s2: "arm_handle_exception ?run 0x88000000 0x1234 0 s1 = Halts s2" "?m \<in> set (klog s2)"
    by (simp add: arm_handle_exception_def kpanic_def panic_calls_def)
  have c: "kernel_call pl011_putc ?g ?run ?T (Arm_Exception 0x88000000 0x1234 0) (s1, idle_pl011) = Some (Halts (s2, idle_pl011))"
    by (simp add: s2(1))
  then have "s2 = s1 \<or> kernel_call pl011_putc ?g ?run ?T (Arm_Exception 0x88000000 0x1234 0) (s1, idle_pl011) =
      Some (Halts (s2, idle_pl011)) \<and> s2 = fst (left_by (Halts (s2, idle_pl011)))" by simp
  note P = kernel_messages_print [OF d(3) disjI2 [OF s0] handlers_schedule [OF UNIV_I] s1 this s2(2)]
  have l: "com1_live idle_com1" by (auto simp: com1_live_def com1_line_def idle_com1_def)
  from P [of 0 "\<lambda>_. CHR ''Z''" FmtOverrun idle_com1 idle_pl011] l
  obtain r u' where "printk com1_putc (\<lambda>_. CHR ''Z'') ''[EXC] Data abort at 0x%lx\<newline>'' [VWord 0x1234] idle_com1 = Some (Inr (r, u'))"
    by auto
  with s0 s1 c s2(2) show ?thesis by blast
qed

text \<open>
  C6: no ready process waits forever, whatever else the kernel does. From a reachable state, take
  any run of kernel calls in which the scheduler is called at least 64 times, with system calls,
  interrupts, allocations, creations of further processes and stores in between (but none of the
  calls that set up a part of the kernel), and interrupt handlers
  that do not call the scheduler themselves. Then each process that is ready at the beginning is
  the current one at some point of the run.
\<close>

theorem ready_process_gets_to_run:
  assumes "proc_reach T s" "j < 64" "runnable (proc s j)"
    and "handlers_call G (- insert Schedule (range Setup)) putc g T run"
    and "kernel_run G putc g run T (s, d) cs (s', d')" "set cs \<subseteq> - range Setup"
    and "64 \<le> count_list cs Schedule"
  shows "\<exists>cs1 cs2 s1 d1. cs = cs1 @ cs2 \<and> kernel_run G putc g run T (s, d) cs1 (s1, d1) \<and>
    kernel_run G putc g run T (s1, d1) cs2 (s', d') \<and> current_process s1 = Some j"
proof -
  have "last_idx s < 64" using proc_reach_proc_inv [OF assms(1)] by (simp add: proc_inv_def table_ok_def)
  then have "cdist (last_idx s) j < count_list cs Schedule" using cdist_inv(3) [of "last_idx s" j] assms(7) by simp
  moreover have "j \<in> ready (sched_of s)" using assms(2,3) by (simp add: sched_of_def)
  ultimately have "gets_to_run G putc g run T (s, d) cs (s', d') j"
    using waits_for_schedule [OF assms(5,4)] assms(1,6) by simp
  then show ?thesis by (auto simp: gets_to_run_def)
qed

theorem ready_process_gets_to_run_witness:
  "\<exists>cs s1 d1. kernel_run {} com1_putc (\<lambda>_ _. CHR ''Z'') (\<lambda>_ _ t. t) (X86_64 RDI RDI) (two_processes, idle_com1) cs (s1, d1) \<and>
     current_process s1 = Some 1"
proof -
  have n: "64 \<le> count_list (replicate 64 Schedule) Schedule" "1 < (64 :: nat)" "set (replicate 64 Schedule) \<subseteq> - range Setup"
    by (auto simp: count_list_eq_length_filter)
  from ready_process_gets_to_run [OF two_processes_ready(1) n(2) two_processes_ready(2) handlers_idle schedules_run n(3,1),
      of com1_putc "\<lambda>_ _. CHR ''Z''" idle_com1]
  show ?thesis by blast
qed

text \<open>
  C39: the AArch64 kernel never gets any memory. The start leaves the page allocator
  uninitialised, since \<^verbatim>\<open>kernel_main\<close> does not call \<^verbatim>\<open>mm_init\<close> there. In every state reached from
  there without a call of \<^verbatim>\<open>mm_init\<close>, by whatever other calls in whatever order, each request for pages,
  for a physical range, for a stack or for heap memory fails, releasing heap memory does nothing,
  and \<^verbatim>\<open>buddy_init\<close> does not help: it fails too, because it takes its bitmap from the heap.
\<close>

theorem arm_never_allocates:
  assumes "table_zero s" "no_memory s" "arm_mmu_enable T l0 l1 ma bs be ia s = Halts s0"
    and h: "handlers_call G not_mm_init putc g T run" and r: "kernel_run G putc g run T (s0, d) cs (s', d')"
    and cs: "set cs \<subseteq> not_mm_init"
  shows "fst (alloc_pages k s') = None \<and> fst (phys_alloc n s') = 0 \<and> fst (stack_alloc n s') = 0 \<and>
    (\<exists>t. kmalloc n s' = Some (0, t)) \<and> kfree p s' = Some s' \<and> (\<forall>b t. buddy_init p n s' = Some (b, t) \<longrightarrow> \<not> b)"
proof -
  have "no_memory s0" using arm_start [OF assms(1,2), of T l0 l1 ma bs be ia] assms(3) by auto
  then have "no_memory s'" using empty.kernel_runs [OF r h cs] by (simp add: barren_def)
  from no_memory_fails [OF this] show ?thesis by blast
qed

theorem arm_never_allocates_witness:
  "\<exists>s0 s1. arm_mmu_enable (AArch64 19 20) 0x400000 0x404000 0x80000 0x90000 0x98000 0x4000 mmu_demo = Halts s0 \<and>
     kernel_run {} pl011_putc (\<lambda>_ _. CHR ''Z'') (\<lambda>_ _. schedule (AArch64 19 20)) (AArch64 19 20) (s0, idle_pl011)
       [Schedule, Alloc_Pages 0, Setup (Init_Process 0x4000)] (s1, idle_pl011) \<and> fst (alloc_pages 0 s1) = None"
proof -
  let ?T = "AArch64 19 20" and ?cs = "[Schedule, Alloc_Pages 0, Setup (Init_Process 0x4000)]"
  have d: "table_zero mmu_demo" "no_memory mmu_demo"
    by (simp_all add: table_zero_def no_memory_def mmu_demo_def buddy_static_def slab_static_def)
  obtain s0 where s0: "arm_mmu_enable ?T 0x400000 0x404000 0x80000 0x90000 0x98000 0x4000 mmu_demo = Halts s0"
    using arm_start [OF d] by blast
  obtain s1 where s1: "kernel_run {} pl011_putc (\<lambda>_ _. CHR ''Z'') (\<lambda>_ _. schedule ?T) ?T (s0, idle_pl011) ?cs (s1, idle_pl011)"
    by (simp add: kernel_run_simps)
  have C: "Schedule \<in> not_mm_init" "set ?cs \<subseteq> not_mm_init" by auto
  from arm_never_allocates [OF d s0 handlers_schedule [OF C(1)] s1 C(2), of 0] s0 s1 show ?thesis by blast
qed

end
